(* ===== verification/Prelude.thy ===== *)
theory Prelude
  imports Main "HOL-Library.Word"
begin

text \<open>
  Shared vocabulary of the development: the C integer types as words, the fault type of
  the operations that can hit undefined behaviour, the fact collections the component
  proofs draw on, and generic lemmas about lists and words.
\<close>

unbundle bit_operations_syntax

section \<open>Types\<close>

text \<open>The fixed-width types of \<^verbatim>\<open>stdint.h\<close>; \<^verbatim>\<open>unsigned long\<close> is 64 bits wide (LP64).\<close>

type_synonym u8 = "8 word"
type_synonym u16 = "16 word"
type_synonym u32 = "32 word"
type_synonym u64 = "64 word"

text \<open>Addresses of objects; 0 is the null pointer.\<close>

type_synonym addr = nat

text \<open>The size of a buffer for a path.\<close>

definition PATH_MAX :: nat where "PATH_MAX = 4096"

section \<open>Fact collections\<close>

named_theorems list_ops \<open>definitions of the list primitives\<close>
named_theorems ring_simps \<open>index arithmetic of the rings\<close>

section \<open>Lists\<close>

text \<open>Reading an array: \<^term>\<open>None\<close> is an access out of its bounds.\<close>

definition array_get :: "'a list \<Rightarrow> nat \<Rightarrow> 'a option" where
  "array_get xs i = (if i < length xs then Some (xs ! i) else None)"

text \<open>Writing an array: \<^term>\<open>None\<close> is an access out of its bounds.\<close>

definition array_set :: "'a list \<Rightarrow> nat \<Rightarrow> 'a \<Rightarrow> 'a list option" where
  "array_set xs i x = (if i < length xs then Some (xs[i := x]) else None)"

lemma array_get_Some [simp]: "array_get xs i = Some x \<longleftrightarrow> i < length xs \<and> xs ! i = x"
  by (auto simp: array_get_def)

lemma array_get_in [simp]: "i < length xs \<Longrightarrow> array_get xs i = Some (xs ! i)"
  by simp

lemma array_get_None [simp]: "array_get xs i = None \<longleftrightarrow> length xs \<le> i"
  by (auto simp: array_get_def)

lemma array_set_in [simp]: "i < length xs \<Longrightarrow> array_set xs i x = Some (xs[i := x])"
  by (simp add: array_set_def)

lemma array_set_None [simp]: "array_set xs i x = None \<longleftrightarrow> length xs \<le> i"
  by (auto simp: array_set_def)

lemma array_set_Some: "array_set xs i x = Some ys \<longleftrightarrow> i < length xs \<and> ys = xs[i := x]"
  by (auto simp: array_set_def)

lemma distinct_split_unique:
  assumes "distinct (xs @ a # ys)" "xs @ a # ys = us @ a # vs"
  shows "xs = us \<and> ys = vs"
  using assms by (metis append_eq_append_conv_if append_Cons_eq_iff distinct_append
      not_distinct_conv_prefix disjoint_iff list.set_intros(1) append_Cons)

section \<open>Words\<close>

lemma unat_u16_less [simp]: "unat (x :: u16) < 65536"
  using unsigned_less[of x, where ?'a = nat] by simp

lemma unat_add_1_mod: "unat (x + 1 :: u16) = Suc (unat x) mod 65536"
  by (simp add: unat_word_ariths)

text \<open>Masking with a power of two less one is the remainder.\<close>

lemma unat_and_mask:
  fixes x :: "'a :: len word"
  assumes "n = 2 ^ k" "k < LENGTH('a)"
  shows "unat (x AND (n - 1)) = unat x mod 2 ^ k"
proof -
  have "n - 1 = mask k"
    using assms(1) by (simp add: mask_eq_decr_exp)
  then have "x AND (n - 1) = take_bit k x"
    by (simp add: take_bit_eq_mask)
  then show ?thesis
    by (simp only: unsigned_take_bit_eq take_bit_nat_def)
qed

lemma unat_eq_iff [simp]: "unat x = unat y \<longleftrightarrow> x = y"
  by (simp add: word_unat_eq_iff)

lemma unat_of_nat_less: "n < 2 ^ LENGTH('a) \<Longrightarrow> unat (of_nat n :: 'a :: len word) = n"
  by (simp add: unat_of_nat)

lemma unat_add_no_overflow:
  "unat x + unat y < 2 ^ LENGTH('a) \<Longrightarrow> unat (x + y) = unat x + unat y"
  for x y :: "'a :: len word"
  by (simp add: unat_add_lem)

lemma unat_mult_no_overflow:
  "unat x * unat y < 2 ^ LENGTH('a) \<Longrightarrow> unat (x * y) = unat x * unat y"
  for x y :: "'a :: len word"
  by (simp add: unat_mult_lem)

text \<open>Clearing the low bits rounds down to a multiple of the power of two.\<close>

lemma and_not_mask: "x AND NOT (mask k) = x - take_bit k x" for x :: "'a :: len word"
proof -
  have "x AND NOT (mask k) = push_bit k (drop_bit k x)"
    by (rule bit_word_eqI) (auto simp: bit_simps)
  then show ?thesis
    using bits_ident[of k x] by (simp add: algebra_simps)
qed

lemma unat_and_not_mask:
  fixes x :: "'a :: len word"
  assumes "n = 2 ^ k" "k < LENGTH('a)"
  shows "unat (x AND NOT (n - 1)) = unat x div 2 ^ k * 2 ^ k"
proof -
  have n: "n - 1 = mask k"
    using assms(1) by (simp add: mask_eq_decr_exp)
  have t: "unat (take_bit k x) = unat x mod 2 ^ k"
    by (simp only: unsigned_take_bit_eq take_bit_nat_def)
  then have "take_bit k x \<le> x"
    by (simp add: word_le_nat_alt)
  then have "unat (x - take_bit k x) = unat x - unat x mod 2 ^ k"
    by (simp only: unat_sub t)
  then show ?thesis
    by (simp add: n and_not_mask minus_mod_eq_div_mult)
qed

lemma unat_2_power: "k < LENGTH('a) \<Longrightarrow> unat (2 ^ k :: 'a :: len word) = 2 ^ k"
  using unat_of_nat_less[of "2 ^ k", where 'a = 'a] by simp

lemma ucast_u16_u32 [simp]: "(ucast (ucast x :: u32) :: u16) = x"
  by (rule bit_word_eqI) (auto simp: bit_simps)


section \<open>Strings in memory\<close>

text \<open>
  A string is read to its zero byte from a memory in which \<^term>\<open>None\<close> is a byte that cannot be
  read. The result is \<^term>\<open>None\<close> when such a byte comes first, or when no zero byte comes at all.
\<close>

partial_function (option) c_string :: "(u64 \<Rightarrow> u8 option) \<Rightarrow> u64 \<Rightarrow> u8 list option" where
  "c_string mem p =
     Option.bind (mem p) (\<lambda>b.
       if b = 0 then Some []
       else Option.bind (c_string mem (p + 1)) (\<lambda>s. Some (b # s)))"

declare c_string.simps [code]

lemma c_string_bytes:
  "c_string mem p = Some s \<Longrightarrow>
    mem (p + of_nat (length s)) = Some 0 \<and> (\<forall>j < length s. mem (p + of_nat j) = Some (s ! j) \<and> s ! j \<noteq> 0)"
proof (induction s arbitrary: p)
  case Nil
  then show ?case
    by (subst (asm) c_string.simps) (auto simp: bind_eq_Some_conv split: if_splits)
next
  case (Cons b s)
  then have m: "mem p = Some b" "b \<noteq> 0" "c_string mem (p + 1) = Some s"
    by (subst (asm) (2) c_string.simps, auto simp: bind_eq_Some_conv split: if_splits)+
  from Cons.IH[OF m(3)] m(1,2) show ?case
    by (auto simp: less_Suc_eq_0_disj add.assoc)
qed

lemma c_string_ends:
  "mem (p + of_nat k) = Some 0 \<Longrightarrow> (\<And>j. j < k \<Longrightarrow> mem (p + of_nat j) \<noteq> None) \<Longrightarrow> c_string mem p \<noteq> None"
proof (induction k arbitrary: p)
  case 0
  then show ?case by (simp add: c_string.simps)
next
  case (Suc k)
  have "mem ((p + 1) + of_nat k) = Some 0" "\<And>j. j < k \<Longrightarrow> mem ((p + 1) + of_nat j) \<noteq> None"
    using Suc.prems(1) Suc.prems(2)[of "Suc _"] by (simp_all add: add.assoc)
  then have "c_string mem (p + 1) \<noteq> None"
    by (rule Suc.IH)
  then show ?case
    using Suc.prems(2)[of 0] by (subst c_string.simps) auto
qed

lemma c_string_defined:
  "c_string mem p \<noteq> None \<longleftrightarrow> (\<exists>k. mem (p + of_nat k) = Some 0 \<and> (\<forall>j < k. mem (p + of_nat j) \<noteq> None))"
  using c_string_bytes[of mem p] c_string_ends[of mem p] by fastforce

end
