(* ===== verification/Virtio_Ring.thy ===== *)
theory Virtio_Ring
  imports Prelude
begin

text \<open>
  The ring shared by the two sides of a virtqueue, \<^verbatim>\<open>include/virtio_ring.h\<close>: its data,
  its layout in memory (\<open>vring_size\<close>, \<open>vring_init\<close>) and the rule of the event index
  (\<open>vring_need_event\<close>). The cells \<^verbatim>\<open>used_event\<close> and \<^verbatim>\<open>avail_event\<close> that follow the
  two rings are the last cell of \<open>a_ring\<close> (the header's \<^verbatim>\<open>avail->ring[num]\<close>) and a field
  of the used ring (the low half of \<^verbatim>\<open>used->ring[num].id\<close> on the little-endian hosts the
  program is for).
\<close>

section \<open>Constants and data\<close>

definition VRING_DESC_F_NEXT :: u16 where "VRING_DESC_F_NEXT = 1"
definition VRING_DESC_F_WRITE :: u16 where "VRING_DESC_F_WRITE = 2"
definition VRING_DESC_F_INDIRECT :: u16 where "VRING_DESC_F_INDIRECT = 4"
definition VRING_USED_F_NO_NOTIFY :: u16 where "VRING_USED_F_NO_NOTIFY = 1"
definition VRING_AVAIL_F_NO_INTERRUPT :: u16 where "VRING_AVAIL_F_NO_INTERRUPT = 1"

record vring_desc =
  d_addr :: u64
  d_len :: u32
  d_flags :: u16
  d_next :: u16

record vring_avail =
  a_flags :: u16
  a_idx :: u16
  a_ring :: "u16 list"

record vring_used_elem =
  e_id :: u32
  e_len :: u32

record vring_used =
  u_flags :: u16
  u_idx :: u16
  u_ring :: "vring_used_elem list"
  u_avail_event :: u16

text \<open>The control block: the three pointers of \<^verbatim>\<open>struct vring\<close> and what they point to.\<close>

record vring =
  v_num :: u32
  v_desc_at :: u64
  v_avail_at :: u64
  v_used_at :: u64
  v_desc :: "vring_desc list"
  v_avail :: vring_avail
  v_used :: vring_used

definition sizeof_vring_desc :: u64 where "sizeof_vring_desc = 16"
definition sizeof_vring_avail :: u64 where "sizeof_vring_avail = 4"
definition sizeof_vring_used :: u64 where "sizeof_vring_used = 4"
definition sizeof_vring_used_elem :: u64 where "sizeof_vring_used_elem = 8"
definition sizeof_uint16 :: u64 where "sizeof_uint16 = 2"

lemmas sizeof_defs = sizeof_vring_desc_def sizeof_vring_avail_def sizeof_vring_used_def
  sizeof_vring_used_elem_def sizeof_uint16_def

section \<open>Layout\<close>

text \<open>
  \<^verbatim>\<open>int size\<close> is computed in \<^verbatim>\<open>size_t\<close> and truncated at each assignment; the result is
  the 32-bit pattern of the \<^verbatim>\<open>int\<close>.
\<close>

definition vring_size :: "u32 \<Rightarrow> u64 \<Rightarrow> u32" where
  "vring_size num align =
     (let n = ucast num :: u64;
          size = ucast (n * sizeof_vring_desc) :: u32;
          size = ucast (scast size + (sizeof_vring_avail + n * sizeof_uint16 + sizeof_uint16)) :: u32;
          size = ucast ((scast size + align - 1) AND NOT (align - 1)) :: u32;
          size = ucast (scast size + (sizeof_vring_used + n * sizeof_vring_used_elem + sizeof_uint16)) :: u32
      in size)"

definition vring_init :: "vring \<Rightarrow> u32 \<Rightarrow> u64 \<Rightarrow> u64 \<Rightarrow> vring" where
  "vring_init vr num p align =
     (let n = ucast num :: u64;
          avail = p + n * sizeof_vring_desc;
          ring_num = avail + sizeof_vring_avail + n * sizeof_uint16
      in vr\<lparr>v_num := num, v_desc_at := p, v_avail_at := avail,
            v_used_at := (ring_num + align - 1) AND NOT (align - 1)\<rparr>)"

section \<open>The event index\<close>

definition vring_need_event :: "u16 \<Rightarrow> u16 \<Rightarrow> u16 \<Rightarrow> bool" where
  "vring_need_event event_idx new_idx old \<longleftrightarrow> new_idx - event_idx - 1 < new_idx - old"

text \<open>
  An event is due exactly when the other side's event index is one of the indices
  published since \<open>old\<close>: \<open>old, \<dots>, new_idx - 1\<close>, modulo \<open>2 ^ 16\<close>.
\<close>

lemma word_diff_pred_less: "y < x \<Longrightarrow> x - y - 1 < x" for x y :: u16
  by unat_arith

lemma vring_need_event_iff:
  "vring_need_event e new old \<longleftrightarrow> (\<exists>k < unat (new - old). e = old + of_nat k)"
proof
  assume "vring_need_event e new old"
  then have lt: "new - e - 1 < new - old"
    by (simp add: vring_need_event_def)
  let ?d = "new - old - (new - e - 1) - 1"
  have "e = old + ?d" by simp
  moreover have "unat ?d < unat (new - old)"
    using word_diff_pred_less[OF lt] by (simp add: word_less_nat_alt)
  ultimately show "\<exists>k < unat (new - old). e = old + of_nat k"
    by (intro exI[of _ "unat ?d"]) simp
next
  assume "\<exists>k < unat (new - old). e = old + of_nat k"
  then obtain k where k: "k < unat (new - old)" and e: "e = old + of_nat k"
    by blast
  have u: "unat (of_nat k :: u16) = k"
    using k by (intro le_unat_uoi[of _ "new - old"]) simp
  have "(of_nat k :: u16) < new - old"
    using k u by (simp add: word_less_nat_alt)
  then have "new - old - of_nat k - 1 < new - old"
    by (rule word_diff_pred_less)
  moreover have "new - e - 1 = new - old - of_nat k - 1"
    by (simp add: e)
  ultimately show "vring_need_event e new old"
    by (simp only: vring_need_event_def)
qed

section \<open>The layout computed\<close>

text \<open>
  A value below \<open>2 ^ 31\<close> survives the truncation to \<^verbatim>\<open>int\<close> and the widening back. For a
  ring of \<open>n\<close> entries (a power of two, at most \<open>2 ^ 15\<close>) and an alignment below \<open>2 ^ 30\<close> no step
  of \<open>vring_size\<close> leaves that range.
\<close>

lemma unat_ucast_32: "unat y < 2 ^ 32 \<Longrightarrow> unat (ucast y :: u32) = unat y" for y :: u64
  by (simp add: unsigned_ucast_eq take_bit_nat_eq_self)

lemma unat_scast_64:
  assumes "unat (x :: u32) < 2 ^ 31"
  shows "unat (scast x :: u64) = unat x"
proof -
  have "int (unat x) < int (2 ^ 31)"
    using assms by (simp only: of_nat_less_iff)
  then have lt: "int (unat x) < 2 ^ 31"
    by (simp only: of_nat_power of_nat_numeral)
  have "sint x = signed_take_bit 31 (int (unat x))"
    by (simp only: sint_uint uint_nat) simp
  also have "\<dots> = int (unat x)"
    using lt by (intro signed_take_bit_int_eq_self order_trans[OF _ of_nat_0_le_iff]) simp_all
  finally have "(scast x :: u64) = of_nat (unat x)"
    by (simp only: scast_eq of_int_of_nat_eq)
  moreover have "unat (of_nat (unat x) :: u64) = unat x"
    using assms by (intro unat_of_nat_less) simp
  ultimately show ?thesis
    by (simp only:)
qed

lemma unat_int_assign:
  assumes "unat (y :: u64) < 2 ^ 31"
  shows "unat (scast (ucast y :: u32) :: u64) = unat y"
  using assms by (simp add: unat_scast_64 unat_ucast_32)

definition round_up :: "nat \<Rightarrow> nat \<Rightarrow> nat" where
  "round_up x a = (x + a - 1) div a * a"

lemma round_up_ge: "0 < a \<Longrightarrow> x \<le> round_up x a"
proof -
  assume a: "0 < a"
  have "(x + a - 1) mod a < a"
    using a by simp
  moreover have "(x + a - 1) div a * a + (x + a - 1) mod a = x + a - 1"
    by (rule div_mult_mod_eq)
  ultimately show ?thesis
    unfolding round_up_def using a by linarith
qed

lemma round_up_less: "0 < a \<Longrightarrow> round_up x a < x + a"
  using div_times_less_eq_dividend[of "x + a - 1" a] unfolding round_up_def by linarith

lemma round_up_dvd: "a dvd round_up x a"
  by (simp add: round_up_def)

text \<open>There is no multiple of \<open>a\<close> between two values with the same next multiple.\<close>

lemma round_up_eqI:
  assumes "x \<le> y" "y \<le> round_up x a" "0 < a"
  shows "round_up y a = round_up x a"
proof -
  obtain q where q: "round_up x a = a * q"
    using round_up_dvd by blast
  obtain r where r: "round_up y a = a * r"
    using round_up_dvd by blast
  have "a * r < a * q + a" "a * q < a * r + a"
    using round_up_less[OF assms(3), of y] round_up_less[OF assms(3), of x]
      round_up_ge[OF assms(3), of y] assms(1,2) q r by linarith+
  then have "a * r < a * Suc q" "a * q < a * Suc r"
    by simp_all
  then have "r = q"
    by (simp only: mult_less_cancel1) linarith
  then show ?thesis using q r by simp
qed

lemma vring_size_nat:
  assumes num: "unat num = 2 ^ m" "m \<le> 15" and align: "align = 2 ^ k" "k \<le> 29"
  shows "unat (vring_size num align) = round_up (18 * 2 ^ m + 6) (2 ^ k) + 8 * 2 ^ m + 6"
proof -
  define n where "n = (2 :: nat) ^ m"
  have n: "n \<le> 2 ^ 15"
    unfolding n_def using num(2) by (rule power_increasing) simp
  have k: "(2 :: nat) ^ k \<le> 2 ^ 29"
    using align(2) by (rule power_increasing) simp
  have un: "unat (ucast num :: u64) = n"
    using num n by (simp add: unsigned_ucast_eq take_bit_nat_eq_self n_def)
  have ua: "unat align = 2 ^ k"
    using align by (simp add: unat_2_power)
  define s1 where "s1 = (ucast num :: u64) * sizeof_vring_desc"
  have s1: "unat s1 = 16 * n"
    using n un by (simp add: s1_def sizeof_defs unat_mult_no_overflow)
  define s2 where "s2 = (scast (ucast s1 :: u32) :: u64) +
    (sizeof_vring_avail + ucast num * sizeof_uint16 + sizeof_uint16)"
  have s2: "unat s2 = 18 * n + 6"
    using n un s1 unat_int_assign[of s1]
    by (simp add: s2_def sizeof_defs unat_word_ariths)
  define s3 where "s3 = ((scast (ucast s2 :: u32) :: u64) + align - 1) AND NOT (align - 1)"
  have "unat ((scast (ucast s2 :: u32) :: u64) + align - 1) = 18 * n + 6 + 2 ^ k - 1"
    using n k s2 ua unat_int_assign[of s2] by (simp add: unat_word_ariths unat_sub_if')
  then have s3: "unat s3 = round_up (18 * n + 6) (2 ^ k)"
    using align by (simp add: s3_def unat_and_not_mask round_up_def)
  have r: "round_up (18 * n + 6) (2 ^ k) < 2 ^ 30"
    using round_up_less[of "2 ^ k" "18 * n + 6"] n k by simp
  define s4 where "s4 = (scast (ucast s3 :: u32) :: u64) +
    (sizeof_vring_used + ucast num * sizeof_vring_used_elem + sizeof_uint16)"
  have s4: "unat s4 = round_up (18 * n + 6) (2 ^ k) + 8 * n + 6"
    using n un s3 r unat_int_assign[of s3]
    by (simp add: s4_def sizeof_defs unat_word_ariths)
  have "vring_size num align = ucast s4"
    by (simp add: vring_size_def s1_def s2_def s3_def s4_def Let_def)
  then show ?thesis
    using s4 r n by (simp add: unat_ucast_32 n_def)
qed

text \<open>
  The used ring starts after the available ring, its event cell included, exactly where
  \<open>vring_size\<close> expects it: for at least four entries and an alignment of at least eight no
  multiple of the alignment falls on the two bytes of the event cell.
\<close>

lemma round_up_event_cell:
  assumes "2 \<le> m" "3 \<le> k"
  shows "round_up (18 * 2 ^ m + 6) (2 ^ k) = round_up (18 * 2 ^ m + 4) (2 ^ k)"
proof (rule round_up_eqI)
  obtain n where n: "(2 :: nat) ^ m = 4 * n"
    using assms(1) le_imp_power_dvd[of 2 m "2 :: nat"] by (auto elim: dvdE)
  have "8 dvd round_up (18 * 2 ^ m + 4) (2 ^ k)"
    using dvd_trans[OF le_imp_power_dvd[of 3 k "2 :: nat"] round_up_dvd] assms(2) by simp
  then obtain r where r: "round_up (18 * 2 ^ m + 4) (2 ^ k) = 8 * r"
    by (rule dvdE)
  have "18 * 2 ^ m + 4 \<le> round_up (18 * 2 ^ m + 4) (2 ^ k)"
    by (rule round_up_ge) simp
  then have "8 * (9 * n) + 4 \<le> 8 * r"
    using n r by simp
  then have "8 * (9 * n) + 6 \<le> 8 * r"
    by presburger
  then show "18 * 2 ^ m + 6 \<le> round_up (18 * 2 ^ m + 4) (2 ^ k)"
    using n r by simp
qed simp_all

lemma vring_init_used_nat:
  assumes num: "unat num = 2 ^ m" "m \<le> 15" and align: "align = 2 ^ k" "k < 64"
    and p: "unat p = 2 ^ k * q" "unat p + 18 * 2 ^ m + 4 + 2 ^ k < 2 ^ 64"
  shows "unat (v_used_at (vring_init vr num p align)) = unat p + round_up (18 * 2 ^ m + 4) (2 ^ k)"
proof -
  define n where "n = (2 :: nat) ^ m"
  have n: "n \<le> 2 ^ 15"
    unfolding n_def using num(2) by (rule power_increasing) simp
  have un: "unat (ucast num :: u64) = n"
    using num n by (simp add: unsigned_ucast_eq take_bit_nat_eq_self n_def)
  have ua: "unat align = 2 ^ k"
    using align by (simp add: unat_2_power)
  define e where "e = p + ucast num * sizeof_vring_desc + sizeof_vring_avail +
    ucast num * sizeof_uint16 + align - 1"
  have "unat e = unat p + 18 * n + 4 + 2 ^ k - 1"
    using n un p(2) ua
    by (simp add: e_def sizeof_defs unat_word_ariths unat_sub_if' n_def)
  moreover have "v_used_at (vring_init vr num p align) = e AND NOT (align - 1)"
    by (simp add: vring_init_def e_def Let_def)
  ultimately have "unat (v_used_at (vring_init vr num p align)) =
      (2 ^ k * q + (18 * n + 4 + 2 ^ k - 1)) div 2 ^ k * 2 ^ k"
    using align p(1) by (simp add: unat_and_not_mask algebra_simps)
  also have "\<dots> = 2 ^ k * q + round_up (18 * n + 4) (2 ^ k)"
    unfolding round_up_def using div_mult_self4[of "2 ^ k" q "18 * n + 4 + 2 ^ k - 1"]
    by (simp add: distrib_right)
  finally show ?thesis
    using p(1) by (simp add: n_def)
qed

section \<open>Properties\<close>

text \<open>
  The event index asks for a notification exactly when it is one of the indices
  \<open>old, \<dots>, new_idx - 1\<close>, modulo \<open>2 ^ 16\<close>, published since the last one.
\<close>

lemma need_event_window:
  "vring_need_event event_idx new_idx old \<longleftrightarrow>
     (\<exists>k < unat (new_idx - old). event_idx = old + of_nat k)"
  by (rule vring_need_event_iff)

text \<open>
  C35: for a ring of \<open>2 ^ m\<close> entries (\<open>2 \<le> m \<le> 15\<close>) at a multiple of its alignment
  \<open>2 ^ k\<close> (\<open>3 \<le> k \<le> 29\<close>), \<open>vring_init\<close> lays out the descriptors, the available ring with its
  event cell and the used ring with its event cell one after the other without overlap, the
  used ring at a multiple of the alignment, and \<open>vring_size\<close> is where the used ring ends.
\<close>

theorem vring_layout:
  assumes "unat num = 2 ^ m" "2 \<le> m" "m \<le> 15" "align = 2 ^ k" "3 \<le> k" "k \<le> 29"
    and "2 ^ k dvd unat p" "unat p + 2 ^ 32 \<le> 2 ^ 64"
  shows "v_desc_at (vring_init vr num p align) = p \<and>
    unat p + 16 * 2 ^ m = unat (v_avail_at (vring_init vr num p align)) \<and>
    unat (v_avail_at (vring_init vr num p align)) + 4 + 2 * 2 ^ m + 2
      \<le> unat (v_used_at (vring_init vr num p align)) \<and>
    2 ^ k dvd unat (v_used_at (vring_init vr num p align)) \<and>
    unat p + unat (vring_size num align) =
      unat (v_used_at (vring_init vr num p align)) + 4 + 8 * 2 ^ m + 2"
proof -
  define n where "n = (2 :: nat) ^ m"
  have n: "n \<le> 2 ^ 15"
    unfolding n_def using assms(3) by (rule power_increasing) simp
  have k: "(2 :: nat) ^ k \<le> 2 ^ 29"
    using assms(6) by (rule power_increasing) simp
  obtain q where q: "unat p = 2 ^ k * q"
    using assms(7) by (rule dvdE)
  have used: "unat (v_used_at (vring_init vr num p align)) = unat p + round_up (18 * n + 6) (2 ^ k)"
    using vring_init_used_nat[OF assms(1,3,4) _ q, of vr] assms(6,8) n k
      round_up_event_cell[OF assms(2,5)] by (simp add: n_def)
  have size: "unat (vring_size num align) = round_up (18 * n + 6) (2 ^ k) + 8 * n + 6"
    using vring_size_nat[OF assms(1,3,4,6)] by (simp add: n_def)
  have un: "unat (ucast num :: u64) = n"
    using assms(1,3) n by (simp add: unsigned_ucast_eq take_bit_nat_eq_self n_def)
  have avail: "unat (v_avail_at (vring_init vr num p align)) = unat p + 16 * n"
    using n un assms(8) by (simp add: vring_init_def sizeof_defs unat_word_ariths Let_def)
  have "18 * n + 6 \<le> round_up (18 * n + 6) (2 ^ k)"
    by (rule round_up_ge) simp
  then show ?thesis
    using used size avail q round_up_dvd[of "2 ^ k" "18 * n + 6"]
    by (simp add: n_def vring_init_def Let_def)
qed

theorem vring_layout_witness:
  "v_desc_at (vring_init \<lparr>v_num = 0, v_desc_at = 0, v_avail_at = 0, v_used_at = 0, v_desc = [],
     v_avail = \<lparr>a_flags = 0, a_idx = 0, a_ring = []\<rparr>,
     v_used = \<lparr>u_flags = 0, u_idx = 0, u_ring = [], u_avail_event = 0\<rparr>\<rparr> 4 4096 16) = 4096 \<and>
   unat (vring_size 4 16) = 118"
  using vring_layout[of 4 2 16 4 4096 "\<lparr>v_num = 0, v_desc_at = 0, v_avail_at = 0, v_used_at = 0,
     v_desc = [], v_avail = \<lparr>a_flags = 0, a_idx = 0, a_ring = []\<rparr>,
     v_used = \<lparr>u_flags = 0, u_idx = 0, u_ring = [], u_avail_event = 0\<rparr>\<rparr>"]
  by (simp add: dvd_def vring_init_def sizeof_defs Let_def)

end
