(* ===== verification/Metal_IO.thy ===== *)
theory Metal_IO
  imports Prelude
begin

text \<open>
  The address translation of \<^verbatim>\<open>include/metal-compat.h\<close>: a shared memory region maps
  offsets to virtual addresses linearly and to physical addresses page by page. A read of
  \<^verbatim>\<open>physmap\<close> out of its bounds, a dereference of a null \<^verbatim>\<open>physmap\<close>, a shift by the width of the
  type or more and a search that does not end are \<^term>\<open>None\<close>. The member \<^verbatim>\<open>ops\<close> of the
  region (function pointers no code here calls) is left out.
\<close>

record metal_io_region =
  io_virt :: u64
  io_physmap :: "u64 list option"
  io_size :: u64
  io_page_shift :: u64
  io_page_mask :: u64
  io_mem_flags :: u32

record metal_sg =
  sg_virt :: u64
  sg_io :: metal_io_region
  sg_len :: u32

definition METAL_BAD_OFFSET :: u64 where "METAL_BAD_OFFSET = - 1"
definition METAL_BAD_PHYS :: u64 where "METAL_BAD_PHYS = - 1"

definition metal_io_region_size :: "metal_io_region \<Rightarrow> u64" where
  "metal_io_region_size io = io_size io"

definition metal_io_virt :: "metal_io_region \<Rightarrow> u64 \<Rightarrow> u64" where
  "metal_io_virt io offset = (if offset \<le> io_size io then io_virt io + offset else 0)"

definition metal_io_virt_to_offset :: "metal_io_region \<Rightarrow> u64 \<Rightarrow> u64" where
  "metal_io_virt_to_offset io virt =
     (let offset = virt - io_virt io
      in if offset < io_size io then offset else METAL_BAD_OFFSET)"

definition metal_io_phys :: "metal_io_region \<Rightarrow> u64 \<Rightarrow> u64 option" where
  "metal_io_phys io offset =
     (if 64 \<le> unat (io_page_shift io) then None
      else
        let page = drop_bit (unat (io_page_shift io)) offset
        in case io_physmap io of
             None \<Rightarrow> Some METAL_BAD_PHYS
           | Some physmap \<Rightarrow>
               if offset \<le> io_size io
               then Option.bind (array_get physmap (unat page)) (\<lambda>frame.
                 Some (if frame \<noteq> METAL_BAD_PHYS
                       then frame + (offset AND io_page_mask io) else METAL_BAD_PHYS))
               else Some METAL_BAD_PHYS)"

partial_function (option) metal_phys_search ::
    "metal_io_region \<Rightarrow> u64 \<Rightarrow> u64 \<Rightarrow> u64 option" where
  "metal_phys_search io phys offset =
     Option.bind (metal_io_phys io offset) (\<lambda>a.
       if a = phys then Some offset
       else
         let offset' = offset + (io_page_mask io + 1)
         in if offset' < io_size io then metal_phys_search io phys offset'
            else Some METAL_BAD_OFFSET)"

declare metal_phys_search.simps [code]

definition metal_io_phys_to_offset :: "metal_io_region \<Rightarrow> u64 \<Rightarrow> u64 option" where
  "metal_io_phys_to_offset io phys =
     Option.bind
       (if io_page_mask io = - 1
        then (case io_physmap io of
                None \<Rightarrow> None
              | Some physmap \<Rightarrow> Option.bind (array_get physmap 0) (\<lambda>frame. Some (phys - frame)))
        else Some (phys AND io_page_mask io))
       (\<lambda>offset. metal_phys_search io phys offset)"

definition metal_io_phys_to_virt :: "metal_io_region \<Rightarrow> u64 \<Rightarrow> u64 option" where
  "metal_io_phys_to_virt io phys =
     Option.bind (metal_io_phys_to_offset io phys) (\<lambda>offset. Some (metal_io_virt io offset))"

definition metal_io_virt_to_phys :: "metal_io_region \<Rightarrow> u64 \<Rightarrow> u64 option" where
  "metal_io_virt_to_phys io virt = metal_io_phys io (metal_io_virt_to_offset io virt)"

section \<open>Regions set up for paging\<close>

text \<open>
  A region as libmetal initialises one: pages of \<open>2 ^ s\<close> bytes, one distinct page-aligned
  frame for each page of the region, no frame at the very end of the address space.
\<close>

definition io_paged :: "metal_io_region \<Rightarrow> nat \<Rightarrow> u64 list \<Rightarrow> bool" where
  "io_paged io s frames \<longleftrightarrow>
     s < 64 \<and> unat (io_page_shift io) = s \<and> io_page_mask io = 2 ^ s - 1 \<and>
     io_physmap io = Some frames \<and> distinct frames \<and>
     unat (io_size io) \<le> length frames * 2 ^ s \<and> unat (io_size io) + 2 ^ s < 2 ^ 64 \<and>
     (\<forall>f \<in> set frames. 2 ^ s dvd unat f \<and> unat f + 2 ^ s < 2 ^ 64)"

lemma metal_io_phys_paged:
  assumes io: "io_paged io s frames"
    and off: "unat off = i * 2 ^ s + r" "r < 2 ^ s" "off < io_size io"
  shows "i < length frames" "metal_io_phys io off = Some (frames ! i + of_nat r)"
    "unat (frames ! i + of_nat r) = unat (frames ! i) + r"
proof -
  have lt: "i * 2 ^ s + r < length frames * 2 ^ s"
    using io off by (simp add: io_paged_def word_less_nat_alt)
  then have "i * 2 ^ s < length frames * 2 ^ s" by linarith
  then show i: "i < length frames" by simp
  then have f: "unat (frames ! i) + 2 ^ s < 2 ^ 64"
    using io by (auto simp: io_paged_def)
  have page: "unat (drop_bit s off) = i"
    using off by (simp add: unat_drop_bit_eq drop_bit_nat_def)
  have s: "s < 64"
    using io by (simp add: io_paged_def)
  have "unat (off AND (2 ^ s - 1)) = r"
    using off unat_and_mask[of "2 ^ s" s off] s by simp
  then have r: "off AND (2 ^ s - 1) = of_nat r"
    by (metis of_nat_unat ucast_id)
  have ur: "unat (of_nat r :: u64) = r"
    using off(2) s power_strict_increasing[of s 64 "2 :: nat"] by (intro unat_of_nat_less) simp
  show "unat (frames ! i + of_nat r) = unat (frames ! i) + r"
    using f ur off(2) by (intro unat_add_no_overflow[THEN trans]) simp_all
  have "frames ! i \<noteq> METAL_BAD_PHYS"
    using f by (auto simp: METAL_BAD_PHYS_def unsigned_minus_1_eq_mask mask_eq_exp_minus_1)
  then show "metal_io_phys io off = Some (frames ! i + of_nat r)"
    using io i order_less_imp_le[OF off(3)] page r s
    by (simp add: metal_io_phys_def io_paged_def Let_def)
qed

lemma metal_phys_search_paged:
  assumes io: "io_paged io s frames" and r: "r < 2 ^ s"
    and i: "i * 2 ^ s + r < unat (io_size io)" and "j \<le> i"
  shows "metal_phys_search io (frames ! i + of_nat r) (of_nat (j * 2 ^ s + r)) =
    Some (of_nat (i * 2 ^ s + r))"
  using \<open>j \<le> i\<close>
proof (induction j rule: inc_induct)
  case base
  have u: "unat (of_nat (i * 2 ^ s + r) :: u64) = i * 2 ^ s + r"
    using i unsigned_less[of "io_size io", where ?'a = nat] by (intro unat_of_nat_less) simp
  then have "metal_io_phys io (of_nat (i * 2 ^ s + r)) = Some (frames ! i + of_nat r)"
    using i by (intro metal_io_phys_paged[OF io _ r]) (simp_all only: word_less_nat_alt)
  then show ?case
    by (subst metal_phys_search.simps) simp
next
  case (step j)
  have "Suc j * 2 ^ s \<le> i * 2 ^ s"
    using step.hyps by (intro mult_le_mono1) simp
  then have jr: "j * 2 ^ s + r < i * 2 ^ s + r" "Suc j * 2 ^ s + r < unat (io_size io)"
    using i step.hyps by auto
  let ?off = "of_nat (j * 2 ^ s + r) :: u64"
  have u: "unat ?off = j * 2 ^ s + r"
    using jr i unsigned_less[of "io_size io", where ?'a = nat] by (intro unat_of_nat_less) simp
  have u': "unat (of_nat (Suc j * 2 ^ s + r) :: u64) = Suc j * 2 ^ s + r"
    using jr unsigned_less[of "io_size io", where ?'a = nat] by (intro unat_of_nat_less) simp
  have lt: "?off < io_size io"
    using jr i by (simp only: word_less_nat_alt u)
  note pj = metal_io_phys_paged[OF io u r lt]
  have ui: "unat (of_nat (i * 2 ^ s + r) :: u64) = i * 2 ^ s + r"
    using i unsigned_less[of "io_size io", where ?'a = nat] by (intro unat_of_nat_less) simp
  have pi: "i < length frames"
    using i by (intro metal_io_phys_paged[OF io ui r]) (simp only: word_less_nat_alt ui)
  have "frames ! j \<noteq> frames ! i"
    using io pi pj(1) step.hyps by (simp add: io_paged_def nth_eq_iff_index_eq)
  then have ne: "frames ! j + of_nat r \<noteq> frames ! i + of_nat r"
    by simp
  have nxt: "?off + (io_page_mask io + 1) = of_nat (Suc j * 2 ^ s + r)"
    using io by (simp add: io_paged_def)
  have "of_nat (Suc j * 2 ^ s + r) < io_size io"
    using jr(2) by (simp only: word_less_nat_alt u')
  then have "metal_phys_search io (frames ! i + of_nat r) ?off =
      metal_phys_search io (frames ! i + of_nat r) (of_nat (Suc j * 2 ^ s + r))"
    using pj(2) ne by (subst metal_phys_search.simps) (simp only: bind.simps Let_def nxt if_False if_True)
  then show ?case
    using step.IH by (simp only:)
qed

lemma io_paged_mask_not_all:
  "io_paged io s frames \<Longrightarrow> io_page_mask io \<noteq> - 1"
proof
  assume "io_paged io s frames" "io_page_mask io = - 1"
  then have "(2 :: u64) ^ s = 0" "s < 64"
    by (simp_all add: io_paged_def)
  then show False
    using unat_2_power[of s, where 'a = 64] by simp
qed

text \<open>Translating to a physical address and back is the identity on the region.\<close>

lemma metal_io_roundtrip_paged:
  assumes io: "io_paged io s frames" and off: "off < io_size io"
  shows "\<exists>p. metal_io_virt_to_phys io (io_virt io + off) = Some p \<and>
    metal_io_phys_to_virt io p = Some (io_virt io + off)"
proof -
  let ?i = "unat off div 2 ^ s" and ?r = "unat off mod 2 ^ s"
  have u: "unat off = ?i * 2 ^ s + ?r" and r: "?r < 2 ^ s"
    by (simp_all only: div_mult_mod_eq mod_less_divisor zero_less_power zero_less_numeral)
  note ph = metal_io_phys_paged[OF io u r off]
  let ?p = "frames ! ?i + of_nat ?r"
  have s: "s < 64" "io_page_mask io = 2 ^ s - 1" "2 ^ s dvd unat (frames ! ?i)"
    using io ph(1) by (simp_all add: io_paged_def)
  have "unat (?p AND (2 ^ s - 1)) = (unat (frames ! ?i) + ?r) mod 2 ^ s"
    using unat_and_mask[of "2 ^ s" s ?p] s ph(3) by simp
  also have "\<dots> = ?r"
    using s(3) by (auto elim!: dvdE)
  finally have "?p AND (2 ^ s - 1) = of_nat (0 * 2 ^ s + ?r)"
    by (metis add_0 mult_0 of_nat_unat ucast_id)
  moreover have "metal_phys_search io ?p (of_nat (0 * 2 ^ s + ?r)) = Some (of_nat (?i * 2 ^ s + ?r))"
    using off by (intro metal_phys_search_paged[OF io r])
      (simp_all only: word_less_nat_alt div_mult_mod_eq zero_le)
  moreover have "of_nat (?i * 2 ^ s + ?r) = off"
    by (simp only: u[symmetric] of_nat_unat ucast_id)
  ultimately have "metal_io_phys_to_offset io ?p = Some off"
    using io_paged_mask_not_all[OF io] s(2) by (simp add: metal_io_phys_to_offset_def)
  then have "metal_io_phys_to_virt io ?p = Some (io_virt io + off)"
    using off by (simp add: metal_io_phys_to_virt_def metal_io_virt_def less_imp_le)
  moreover have "metal_io_virt_to_phys io (io_virt io + off) = Some ?p"
    using ph(2) off by (simp add: metal_io_virt_to_phys_def metal_io_virt_to_offset_def)
  ultimately show ?thesis by blast
qed

section \<open>Properties\<close>

text \<open>A region of two pages, the frames in the opposite order of the pages.\<close>

definition two_pages :: metal_io_region where
  "two_pages = \<lparr>io_virt = 0x1000, io_physmap = Some [0x9000, 0x8000], io_size = 0x2000,
     io_page_shift = 12, io_page_mask = 0xFFF, io_mem_flags = 0\<rparr>"

lemma two_pages_paged: "io_paged two_pages 12 [0x9000, 0x8000]"
  by (simp add: io_paged_def two_pages_def dvd_def)

text \<open>
  In a region paged as libmetal pages one, the physical address of a virtual
  address of the region translates back to it, whatever the order of the frames: the search
  of \<open>metal_io_phys_to_offset\<close> ends and finds the right page.
\<close>

lemma metal_io_roundtrip:
  assumes "io_paged io s frames" "off < io_size io"
  shows "\<exists>p. metal_io_virt_to_phys io (io_virt io + off) = Some p \<and>
    metal_io_phys_to_virt io p = Some (io_virt io + off)"
  using assms by (rule metal_io_roundtrip_paged)

lemma metal_io_roundtrip_witness:
  "\<exists>p. metal_io_virt_to_phys two_pages (0x1000 + 0x1010) = Some p \<and>
    metal_io_phys_to_virt two_pages p = Some (0x1000 + 0x1010)"
  using metal_io_roundtrip[OF two_pages_paged, of "0x1010"] by (simp add: two_pages_def)

end
