(* ===== verification/Virtqueue.thy ===== *)
theory Virtqueue
  imports Virtio_Ring Metal_IO
begin

text \<open>
  The virtqueue of \<^verbatim>\<open>util/virtqueue.c\<close>, as it is built: \<^verbatim>\<open>VQUEUE_DEBUG\<close> is false, so the macros
  \<^verbatim>\<open>VQ_PARAM_CHK\<close>, \<^verbatim>\<open>VQASSERT\<close>, \<^verbatim>\<open>VQ_RING_ASSERT_*\<close>, \<^verbatim>\<open>VQUEUE_BUSY\<close> and \<^verbatim>\<open>VQUEUE_IDLE\<close> expand to nothing.
  Every operation takes the control block and returns the new one; \<^term>\<open>None\<close> is undefined
  behaviour (an array access out of bounds, a signed overflow) or a loop that does not end.
  The memory fences order the writes of one side as the other side sees them; here an operation
  is one step, and the fences have no counterpart. \<open>Virtqueue_Steps\<close> has the single accesses.
\<close>

section \<open>Data\<close>

definition VQUEUE_SUCCESS :: int where "VQUEUE_SUCCESS = 0"
definition VQ_ERROR_BASE :: int where "VQ_ERROR_BASE = - 3000"
definition ERROR_NO_MEM :: int where "ERROR_NO_MEM = VQ_ERROR_BASE - 4"
definition ERROR_VRING_NO_BUFF :: int where "ERROR_VRING_NO_BUFF = VQ_ERROR_BASE - 7"
definition VQ_RING_DESC_CHAIN_END :: u16 where "VQ_RING_DESC_CHAIN_END = 32768"
definition VIRTQUEUE_FLAG_EVENT_IDX :: u32 where "VIRTQUEUE_FLAG_EVENT_IDX = 2"
definition VIRTQUEUE_MAX_NAME_SZ :: nat where "VIRTQUEUE_MAX_NAME_SZ = 32"

record vq_desc_extra =
  x_cookie :: u64
  x_indirect :: u64
  x_indirect_paddr :: u32
  x_ndescs :: u16

text \<open>
  \<^verbatim>\<open>vq_dev\<close>, \<^verbatim>\<open>callback\<close> and \<^verbatim>\<open>notify\<close> are pointers (0 is null); the two functions behind the
  last two belong to the caller and are arguments of the operations that call them.
\<close>

record virtqueue =
  vq_dev :: addr
  vq_name :: string
  vq_queue_index :: u16
  vq_nentries :: u16
  vq_flags :: u32
  vq_alignment :: u32
  vq_ring_size :: u32
  vq_inuse :: u8
  vq_ring_mem :: u64
  vq_callback :: addr
  vq_notify :: addr
  vq_max_indirect_size :: u32
  vq_indirect_mem_size :: u32
  vq_ring :: vring
  vq_free_cnt :: u16
  vq_queued_cnt :: u16
  vq_shm_io :: metal_io_region
  vq_desc_head_idx :: u16
  vq_used_cons_idx :: u16
  vq_available_idx :: u16
  vq_padd :: u8
  vq_descx :: "vq_desc_extra list"

record vring_alloc_info =
  ai_vaddr :: u64
  ai_align :: u32
  ai_num_descs :: u16
  ai_pad :: u16

text \<open>Access to the parts of the ring through the control block.\<close>

abbreviation vq_desc :: "virtqueue \<Rightarrow> vring_desc list" where
  "vq_desc vq \<equiv> v_desc (vq_ring vq)"

abbreviation vq_avail :: "virtqueue \<Rightarrow> vring_avail" where
  "vq_avail vq \<equiv> v_avail (vq_ring vq)"

abbreviation vq_used :: "virtqueue \<Rightarrow> vring_used" where
  "vq_used vq \<equiv> v_used (vq_ring vq)"

abbreviation upd_desc :: "vring_desc list \<Rightarrow> virtqueue \<Rightarrow> virtqueue" where
  "upd_desc ds vq \<equiv> vq\<lparr>vq_ring := (vq_ring vq)\<lparr>v_desc := ds\<rparr>\<rparr>"

abbreviation upd_avail :: "vring_avail \<Rightarrow> virtqueue \<Rightarrow> virtqueue" where
  "upd_avail a vq \<equiv> vq\<lparr>vq_ring := (vq_ring vq)\<lparr>v_avail := a\<rparr>\<rparr>"

abbreviation upd_used :: "vring_used \<Rightarrow> virtqueue \<Rightarrow> virtqueue" where
  "upd_used u vq \<equiv> vq\<lparr>vq_ring := (vq_ring vq)\<lparr>v_used := u\<rparr>\<rparr>"

section \<open>Helpers\<close>

definition virtqueue_nused :: "virtqueue \<Rightarrow> u16" where
  "virtqueue_nused vq =
     (let used_idx = u_idx (vq_used vq)
      in used_idx - vq_used_cons_idx vq)"

definition vq_ring_update_avail :: "virtqueue \<Rightarrow> u16 \<Rightarrow> virtqueue option" where
  "vq_ring_update_avail vq desc_idx =
     (let a = vq_avail vq;
          avail_idx = a_idx a AND (vq_nentries vq - 1)
      in Option.bind (array_set (a_ring a) (unat avail_idx) desc_idx) (\<lambda>ring.
           Some ((upd_avail (a\<lparr>a_ring := ring, a_idx := a_idx a + 1\<rparr>) vq)
                   \<lparr>vq_queued_cnt := vq_queued_cnt vq + 1\<rparr>)))"

text \<open>
  The loop of \<open>vq_ring_add_buffer\<close>: iteration \<open>i\<close> fills the descriptor at \<open>idx\<close> from
  entry \<open>i\<close> of the scatter/gather list and goes on with the descriptor's successor.
\<close>

function vq_ring_add_buffer_loop ::
    "vring_desc list \<Rightarrow> u16 \<Rightarrow> metal_sg list \<Rightarrow> int \<Rightarrow> int \<Rightarrow> int \<Rightarrow>
     (vring_desc list \<times> u16) option" where
  "vq_ring_add_buffer_loop ds idx sg readable needed i =
     (if i < needed
      then
        Option.bind (array_get sg (nat i)) (\<lambda>s.
        Option.bind (array_get ds (unat idx)) (\<lambda>d.
        Option.bind (metal_io_virt_to_phys (sg_io s) (sg_virt s)) (\<lambda>phys.
          let flags1 = (if i < needed - 1 then 0 OR VRING_DESC_F_NEXT else 0);
              flags2 = (if readable \<le> i then flags1 OR VRING_DESC_F_WRITE else flags1);
              d' = d\<lparr>d_addr := phys, d_len := sg_len s, d_flags := flags2\<rparr>
          in vq_ring_add_buffer_loop (ds[unat idx := d']) (d_next d') sg readable needed (i + 1))))
      else Some (ds, idx))"
  by pat_completeness auto
termination
  by (relation "measure (\<lambda>(ds, idx, sg, readable, needed, i). nat (needed - i))") auto

declare vq_ring_add_buffer_loop.simps [simp del]

definition vq_ring_add_buffer ::
    "vring_desc list \<Rightarrow> u16 \<Rightarrow> metal_sg list \<Rightarrow> int \<Rightarrow> int \<Rightarrow> (vring_desc list \<times> u16) option" where
  "vq_ring_add_buffer desc head_idx sg readable writable =
     vq_ring_add_buffer_loop desc head_idx sg readable (readable + writable) 0"

text \<open>
  The loop of \<open>vq_ring_free_chain\<close>: from the descriptor at \<open>idx\<close> to the last one of its
  chain, counting \<open>ndescs\<close> down.
\<close>

partial_function (option) vq_ring_free_chain_loop ::
    "vring_desc list \<Rightarrow> u16 \<Rightarrow> u16 \<Rightarrow> (u16 \<times> u16) option" where
  "vq_ring_free_chain_loop ds idx ndescs =
     Option.bind (array_get ds (unat idx)) (\<lambda>d.
       if d_flags d AND VRING_DESC_F_NEXT \<noteq> 0
       then vq_ring_free_chain_loop ds (d_next d) (ndescs - 1)
       else Some (idx, ndescs))"

declare vq_ring_free_chain_loop.simps [code]

definition vq_ring_free_chain :: "virtqueue \<Rightarrow> u16 \<Rightarrow> virtqueue option" where
  "vq_ring_free_chain vq desc_idx =
     Option.bind (array_get (vq_desc vq) (unat desc_idx)) (\<lambda>dp.
     Option.bind (array_get (vq_descx vq) (unat desc_idx)) (\<lambda>dxp.
     let free_cnt = vq_free_cnt vq + x_ndescs dxp;
         ndescs1 = x_ndescs dxp - 1
     in Option.bind
          (if d_flags dp AND VRING_DESC_F_INDIRECT = 0
           then vq_ring_free_chain_loop (vq_desc vq) desc_idx ndescs1
           else Some (desc_idx, ndescs1))
          (\<lambda>(last_idx, ndescs).
     Option.bind (array_get (vq_desc vq) (unat last_idx)) (\<lambda>d_last.
       Some ((upd_desc ((vq_desc vq)[unat last_idx := d_last\<lparr>d_next := vq_desc_head_idx vq\<rparr>]) vq)
               \<lparr>vq_free_cnt := free_cnt,
                vq_descx := (vq_descx vq)[unat desc_idx := dxp\<lparr>x_ndescs := ndescs\<rparr>],
                vq_desc_head_idx := desc_idx\<rparr>)))))"

text \<open>The initial free chain: each descriptor points to the next, the last to the end mark.\<close>

function vq_ring_init_loop :: "vring_desc list \<Rightarrow> nat \<Rightarrow> nat \<Rightarrow> vring_desc list option" where
  "vq_ring_init_loop ds sz i =
     Option.bind (array_get ds i) (\<lambda>d.
       if Suc i < sz
       then vq_ring_init_loop (ds[i := d\<lparr>d_next := of_nat (Suc i)\<rparr>]) sz (Suc i)
       else Some (ds[i := d\<lparr>d_next := VQ_RING_DESC_CHAIN_END\<rparr>]))"
  by pat_completeness auto
termination
  by (relation "measure (\<lambda>(ds, sz, i). sz - i)") auto

declare vq_ring_init_loop.simps [simp del]

definition vq_ring_init :: "virtqueue \<Rightarrow> virtqueue option" where
  "vq_ring_init vq =
     (let sz = vq_nentries vq;
          vr = vring_init (vq_ring vq) (ucast sz) (vq_ring_mem vq) (scast (vq_alignment vq))
      in Option.bind (vq_ring_init_loop (v_desc vr) (unat sz) 0) (\<lambda>ds.
           Some (vq\<lparr>vq_ring := vr\<lparr>v_desc := ds\<rparr>\<rparr>)))"

definition vq_ring_enable_interrupt :: "virtqueue \<Rightarrow> u16 \<Rightarrow> (int \<times> virtqueue) option" where
  "vq_ring_enable_interrupt vq ndesc =
     (let a = vq_avail vq
      in Option.bind
           (if vq_flags vq AND VIRTQUEUE_FLAG_EVENT_IDX \<noteq> 0
            then Option.bind
                   (array_set (a_ring a) (unat (v_num (vq_ring vq))) (vq_used_cons_idx vq + ndesc))
                   (\<lambda>ring. Some (upd_avail (a\<lparr>a_ring := ring\<rparr>) vq))
            else Some (upd_avail (a\<lparr>a_flags := a_flags a AND NOT VRING_AVAIL_F_NO_INTERRUPT\<rparr>) vq))
           (\<lambda>vq'. if ndesc < virtqueue_nused vq' then Some (1, vq') else Some (0, vq')))"

definition vq_ring_must_notify_host :: "virtqueue \<Rightarrow> bool" where
  "vq_ring_must_notify_host vq =
     (if vq_flags vq AND VIRTQUEUE_FLAG_EVENT_IDX \<noteq> 0
      then
        let new_idx = a_idx (vq_avail vq);
            prev_idx = new_idx - vq_queued_cnt vq;
            event_idx = u_avail_event (vq_used vq)
        in vring_need_event event_idx new_idx prev_idx
      else u_flags (vq_used vq) AND VRING_USED_F_NO_NOTIFY = 0)"

text \<open>The caller's functions act on a state \<^typ>\<open>'w\<close> of the caller.\<close>

definition vq_ring_notify_host ::
    "(addr \<Rightarrow> virtqueue \<Rightarrow> 'w \<Rightarrow> 'w) \<Rightarrow> virtqueue \<Rightarrow> 'w \<Rightarrow> 'w" where
  "vq_ring_notify_host call vq w = (if vq_notify vq \<noteq> 0 then call (vq_notify vq) vq w else w)"

section \<open>Creation\<close>

definition strncpy :: "string \<Rightarrow> nat \<Rightarrow> string" where
  "strncpy src n = take n (takeWhile (\<lambda>c. c \<noteq> CHR 0x00) src @ replicate n (CHR 0x00))"

definition virtqueue_disable_cb :: "virtqueue \<Rightarrow> virtqueue option" where
  "virtqueue_disable_cb vq =
     (let a = vq_avail vq
      in if vq_flags vq AND VIRTQUEUE_FLAG_EVENT_IDX \<noteq> 0
         then Option.bind
                (array_set (a_ring a) (unat (v_num (vq_ring vq)))
                   (vq_used_cons_idx vq - vq_nentries vq - 1))
                (\<lambda>ring. Some (upd_avail (a\<lparr>a_ring := ring\<rparr>) vq))
         else Some (upd_avail (a\<lparr>a_flags := a_flags a OR VRING_AVAIL_F_NO_INTERRUPT\<rparr>) vq))"

text \<open>
  The control block after \<^verbatim>\<open>memset\<close> and the assignments up to \<open>vq_ring_init\<close>. The memory the
  ring lies in belongs to the caller: \<open>mem\<close> is what it holds when the queue is created.
\<close>

definition virtqueue_fields ::
    "addr \<Rightarrow> u16 \<Rightarrow> string \<Rightarrow> vring_alloc_info \<Rightarrow> addr \<Rightarrow> addr \<Rightarrow> metal_io_region \<Rightarrow> vring \<Rightarrow> virtqueue" where
  "virtqueue_fields virt_dev qid name ring callback notify shm_io mem =
     \<lparr>vq_dev = virt_dev, vq_name = strncpy name VIRTQUEUE_MAX_NAME_SZ,
      vq_queue_index = qid, vq_nentries = ai_num_descs ring, vq_flags = 0,
      vq_alignment = ai_align ring,
      vq_ring_size = vring_size (ucast (ai_num_descs ring)) (ucast (ai_align ring)),
      vq_inuse = 0, vq_ring_mem = ai_vaddr ring, vq_callback = callback, vq_notify = notify,
      vq_max_indirect_size = 0, vq_indirect_mem_size = 0,
      vq_ring = mem, vq_free_cnt = ai_num_descs ring, vq_queued_cnt = 0, vq_shm_io = shm_io,
      vq_desc_head_idx = 0, vq_used_cons_idx = 0, vq_available_idx = 0, vq_padd = 0,
      vq_descx = replicate (unat (ai_num_descs ring))
        \<lparr>x_cookie = 0, x_indirect = 0, x_indirect_paddr = 0, x_ndescs = 0\<rparr>\<rparr>"

text \<open>\<open>alloc\<close> tells whether the allocation of the control block succeeds.\<close>

definition virtqueue_create ::
    "addr \<Rightarrow> u16 \<Rightarrow> string \<Rightarrow> vring_alloc_info \<Rightarrow> addr \<Rightarrow> addr \<Rightarrow> metal_io_region \<Rightarrow> vring \<Rightarrow> bool \<Rightarrow>
     (int \<times> virtqueue option) option" where
  "virtqueue_create virt_dev qid name ring callback notify shm_io mem alloc =
     (if \<not> alloc then Some (ERROR_NO_MEM, None)
      else
        Option.bind (vq_ring_init (virtqueue_fields virt_dev qid name ring callback notify shm_io mem))
          (\<lambda>vq. Option.bind (virtqueue_disable_cb vq)
          (\<lambda>vq'. Some (VQUEUE_SUCCESS, Some vq'))))"

text \<open>\<open>virtqueue_free\<close>: the warning it prints, and the control block it frees.\<close>

definition virtqueue_free :: "virtqueue option \<Rightarrow> bool" where
  "virtqueue_free vq =
     (case vq of None \<Rightarrow> False | Some q \<Rightarrow> vq_free_cnt q \<noteq> vq_nentries q)"

section \<open>The driver's side\<close>

text \<open>An \<^verbatim>\<open>int\<close> sum that overflows is undefined.\<close>

definition c_int :: "int \<Rightarrow> bool" where
  "c_int x \<longleftrightarrow> - (2 ^ 31) \<le> x \<and> x < 2 ^ 31"

definition virtqueue_add_buffer ::
    "virtqueue \<Rightarrow> metal_sg list \<Rightarrow> int \<Rightarrow> int \<Rightarrow> u64 \<Rightarrow> (int \<times> virtqueue) option" where
  "virtqueue_add_buffer vq sg readable writable cookie =
     (let needed = readable + writable; head_idx = vq_desc_head_idx vq
      in if \<not> c_int needed then None
      else
        Option.bind (array_get (vq_descx vq) (unat head_idx)) (\<lambda>dxp.
        let vq1 = vq\<lparr>vq_descx := (vq_descx vq)[unat head_idx :=
              dxp\<lparr>x_cookie := cookie, x_ndescs := of_int needed\<rparr>]\<rparr>
        in Option.bind (vq_ring_add_buffer (vq_desc vq1) head_idx sg readable writable)
          (\<lambda>(ds, idx).
        let vq2 = (upd_desc ds vq1)
              \<lparr>vq_desc_head_idx := idx, vq_free_cnt := vq_free_cnt vq1 - of_int needed\<rparr>
        in Option.bind (vq_ring_update_avail vq2 head_idx) (\<lambda>vq3.
        Some (VQUEUE_SUCCESS, vq3)))))"

definition virtqueue_add_single_buffer ::
    "virtqueue \<Rightarrow> u64 \<Rightarrow> metal_sg \<Rightarrow> bool \<Rightarrow> bool \<Rightarrow> (int \<times> virtqueue) option" where
  "virtqueue_add_single_buffer vq cookie sg writable has_next =
     (let head_idx = vq_desc_head_idx vq
      in Option.bind (array_get (vq_descx vq) (unat head_idx)) (\<lambda>dxp.
         let vq1 = vq\<lparr>vq_descx := (vq_descx vq)[unat head_idx :=
               dxp\<lparr>x_cookie := cookie, x_ndescs := 1\<rparr>]\<rparr>
         in Option.bind (array_get (vq_desc vq1) (unat head_idx)) (\<lambda>dp.
         Option.bind (metal_io_virt_to_phys (sg_io sg) (sg_virt sg)) (\<lambda>phys.
         let idx = d_next dp;
             flags1 = (if has_next then 0 OR VRING_DESC_F_NEXT else 0);
             flags2 = (if writable then flags1 OR VRING_DESC_F_WRITE else flags1);
             dp' = dp\<lparr>d_addr := phys, d_len := sg_len sg, d_flags := flags2\<rparr>;
             vq2 = (upd_desc ((vq_desc vq1)[unat head_idx := dp']) vq1)
                   \<lparr>vq_desc_head_idx := idx, vq_free_cnt := vq_free_cnt vq1 - 1\<rparr>
         in Option.bind (vq_ring_update_avail vq2 head_idx) (\<lambda>vq3.
         Some (VQUEUE_SUCCESS, vq3))))))"

text \<open>
  The cookie returned (0 for a null queue and when nothing has been used), the length and
  index written through the two pointers (\<^term>\<open>None\<close> when they are left alone), and the new
  control block. The pointers \<open>len\<close> and \<open>idx\<close> may be null in C; what they would receive is
  returned in any case.
\<close>

fun virtqueue_get_buffer ::
    "virtqueue option \<Rightarrow> (u64 \<times> (u32 \<times> u16) option \<times> virtqueue option) option" where
  "virtqueue_get_buffer None = Some (0, None, None)"
| "virtqueue_get_buffer (Some vq) =
     (if vq_used_cons_idx vq = u_idx (vq_used vq) then Some (0, None, Some vq)
      else
        let used_idx = vq_used_cons_idx vq AND (vq_nentries vq - 1);
            vq1 = vq\<lparr>vq_used_cons_idx := vq_used_cons_idx vq + 1\<rparr>
        in Option.bind (array_get (u_ring (vq_used vq1)) (unat used_idx)) (\<lambda>uep.
           let desc_idx = ucast (e_id uep) :: u16
           in Option.bind (vq_ring_free_chain vq1 desc_idx) (\<lambda>vq2.
           Option.bind (array_get (vq_descx vq2) (unat desc_idx)) (\<lambda>dxp.
           Some (x_cookie dxp, Some (e_len uep, used_idx),
                 Some (vq2\<lparr>vq_descx := (vq_descx vq2)[unat desc_idx := dxp\<lparr>x_cookie := 0\<rparr>]\<rparr>))))))"

definition virtqueue_get_buffer_length :: "virtqueue \<Rightarrow> u16 \<Rightarrow> u32 option" where
  "virtqueue_get_buffer_length vq idx =
     Option.bind (array_get (vq_desc vq) (unat idx)) (\<lambda>d. Some (d_len d))"

definition virtqueue_enable_cb :: "virtqueue \<Rightarrow> (int \<times> virtqueue) option" where
  "virtqueue_enable_cb vq = vq_ring_enable_interrupt vq 0"

definition virtqueue_kick ::
    "(addr \<Rightarrow> virtqueue \<Rightarrow> 'w \<Rightarrow> 'w) \<Rightarrow> virtqueue \<Rightarrow> 'w \<Rightarrow> virtqueue \<times> 'w" where
  "virtqueue_kick call vq w =
     (let w' = (if vq_ring_must_notify_host vq then vq_ring_notify_host call vq w else w)
      in (vq\<lparr>vq_queued_cnt := 0\<rparr>, w'))"

definition virtqueue_notification ::
    "(addr \<Rightarrow> virtqueue \<Rightarrow> 'w \<Rightarrow> 'w) \<Rightarrow> virtqueue \<Rightarrow> 'w \<Rightarrow> 'w" where
  "virtqueue_notification call vq w = (if vq_callback vq \<noteq> 0 then call (vq_callback vq) vq w else w)"

section \<open>The device's side\<close>

text \<open>The buffer (0 when none is available) with its index and length, and the control block.\<close>

definition virtqueue_get_available_buffer ::
    "virtqueue \<Rightarrow> (u64 \<times> (u16 \<times> u32) option \<times> virtqueue) option" where
  "virtqueue_get_available_buffer vq =
     (if vq_available_idx vq = a_idx (vq_avail vq) then Some (0, None, vq)
      else
        let head_idx = vq_available_idx vq AND (vq_nentries vq - 1);
            vq1 = vq\<lparr>vq_available_idx := vq_available_idx vq + 1\<rparr>
        in Option.bind (array_get (a_ring (vq_avail vq1)) (unat head_idx)) (\<lambda>avail_idx.
           Option.bind (array_get (vq_desc vq1) (unat avail_idx)) (\<lambda>d.
           Option.bind (metal_io_phys_to_virt (vq_shm_io vq1) (d_addr d)) (\<lambda>buffer.
           Some (buffer, Some (avail_idx, d_len d), vq1)))))"

definition virtqueue_add_consumed_buffer ::
    "virtqueue \<Rightarrow> u16 \<Rightarrow> u32 \<Rightarrow> (int \<times> virtqueue) option" where
  "virtqueue_add_consumed_buffer vq head_idx len =
     (if vq_nentries vq < head_idx then Some (ERROR_VRING_NO_BUFF, vq)
      else
        let u = vq_used vq;
            used_idx = u_idx u AND (vq_nentries vq - 1)
        in Option.bind (array_set (u_ring u) (unat used_idx) \<lparr>e_id = ucast head_idx, e_len = len\<rparr>)
             (\<lambda>ring. Some (VQUEUE_SUCCESS, upd_used (u\<lparr>u_ring := ring, u_idx := u_idx u + 1\<rparr>) vq)))"

definition virtqueue_get_desc_size :: "virtqueue \<Rightarrow> u32 option" where
  "virtqueue_get_desc_size vq =
     (if vq_available_idx vq = a_idx (vq_avail vq) then Some 0
      else
        let head_idx = vq_available_idx vq AND (vq_nentries vq - 1)
        in Option.bind (array_get (a_ring (vq_avail vq)) (unat head_idx)) (\<lambda>avail_idx.
           Option.bind (array_get (vq_desc vq) (unat avail_idx)) (\<lambda>d. Some (d_len d))))"


text \<open>What \<^verbatim>\<open>virtqueue_dump\<close> prints: the name, and the numbers in the order of its format.\<close>

definition virtqueue_dump :: "virtqueue option \<Rightarrow> (string \<times> u16 list) option" where
  "virtqueue_dump vq0 =
     (case vq0 of
        None \<Rightarrow> None
      | Some vq \<Rightarrow> Some (vq_name vq,
          [vq_nentries vq, vq_free_cnt vq, virtqueue_nused vq, vq_queued_cnt vq, vq_desc_head_idx vq,
           a_idx (vq_avail vq), vq_used_cons_idx vq, u_idx (vq_used vq), a_flags (vq_avail vq),
           u_flags (vq_used vq)]))"

end
