(* ===== verification/Virtqueue_Inv.thy ===== *)
theory Virtqueue_Inv
  imports Virtqueue
begin

text \<open>
  The invariant of a virtqueue and its operations. The descriptors are split between the
  free chain, a list \<open>fs\<close> linked from \<^verbatim>\<open>vq_desc_head_idx\<close> and ended by the end mark, and the
  chains \<open>cs\<close> of the buffers the driver has added and not yet got back. Each operation is
  given its whole effect on the control block and on this split.
\<close>

section \<open>Chains\<close>

fun free_list :: "vring_desc list \<Rightarrow> u16 \<Rightarrow> u16 list \<Rightarrow> bool" where
  "free_list ds h [] \<longleftrightarrow> h = VQ_RING_DESC_CHAIN_END"
| "free_list ds h (x # xs) \<longleftrightarrow>
     h = x \<and> unat x < length ds \<and> free_list ds (d_next (ds ! unat x)) xs"

abbreviation has_next :: "vring_desc \<Rightarrow> bool" where
  "has_next d \<equiv> d_flags d AND VRING_DESC_F_NEXT \<noteq> 0"

abbreviation is_indirect :: "vring_desc \<Rightarrow> bool" where
  "is_indirect d \<equiv> d_flags d AND VRING_DESC_F_INDIRECT \<noteq> 0"

fun buf_chain :: "vring_desc list \<Rightarrow> u16 list \<Rightarrow> bool" where
  "buf_chain ds [] \<longleftrightarrow> False"
| "buf_chain ds [x] \<longleftrightarrow>
     unat x < length ds \<and> \<not> has_next (ds ! unat x) \<and> \<not> is_indirect (ds ! unat x)"
| "buf_chain ds (x # y # zs) \<longleftrightarrow>
     unat x < length ds \<and> has_next (ds ! unat x) \<and> \<not> is_indirect (ds ! unat x) \<and>
     d_next (ds ! unat x) = y \<and> buf_chain ds (y # zs)"

lemma free_list_cong:
  assumes "length ds' = length ds" "\<And>x. x \<in> set xs \<Longrightarrow> d_next (ds' ! unat x) = d_next (ds ! unat x)"
  shows "free_list ds' h xs \<longleftrightarrow> free_list ds h xs"
  using assms by (induction xs arbitrary: h) auto

lemma buf_chain_cong:
  assumes "length ds' = length ds" "\<And>x. x \<in> set c \<Longrightarrow> ds' ! unat x = ds ! unat x"
  shows "buf_chain ds' c \<longleftrightarrow> buf_chain ds c"
  using assms by (induction ds c rule: buf_chain.induct) auto

lemma free_list_head: "free_list ds h xs \<Longrightarrow> h = hd (xs @ [VQ_RING_DESC_CHAIN_END])"
  by (cases xs) auto

lemma free_list_in: "free_list ds h xs \<Longrightarrow> x \<in> set xs \<Longrightarrow> unat x < length ds"
  by (induction xs arbitrary: h) auto

lemma buf_chain_in: "buf_chain ds c \<Longrightarrow> x \<in> set c \<Longrightarrow> unat x < length ds"
  by (induction ds c rule: buf_chain.induct) auto

lemma buf_chain_nonempty: "buf_chain ds c \<Longrightarrow> c \<noteq> []"
  by auto

lemma buf_chain_head:
  "buf_chain ds c \<Longrightarrow> unat (hd c) < length ds \<and> \<not> is_indirect (ds ! unat (hd c))"
  by (induction ds c rule: buf_chain.induct) auto

text \<open>A chain put in front of the free chain by its last descriptor.\<close>

lemma free_list_prepend:
  assumes "buf_chain ds c" "distinct c" "free_list ds h fs" "set c \<inter> set fs = {}"
    and d: "ds' = ds[unat (last c) := (ds ! unat (last c))\<lparr>d_next := h\<rparr>]"
  shows "free_list ds' (hd c) (c @ fs)"
proof -
  have "last c \<notin> set fs"
    using assms(4) last_in_set[OF buf_chain_nonempty[OF assms(1)]] by blast
  then have tail: "free_list ds' h fs"
    using assms(3) unfolding d
    by (subst free_list_cong[of _ ds]) (simp, metis nth_list_update_neq unat_eq_iff, simp)
  have "free_list ds' (hd c) (c @ fs)" if "set c \<inter> set fs = {}"
    using assms(1,2) tail d that
  proof (induction ds c rule: buf_chain.induct)
    case (3 ds x y zs)
    then have "free_list ds' y (y # zs @ fs)"
      by (simp add: disjoint_iff)
    moreover have "x \<noteq> last (y # zs)"
      using "3.prems"(2) last_in_set[of "y # zs"] by auto
    ultimately show ?case
      using "3.prems" by (simp add: nth_list_update)
  qed (simp_all add: nth_list_update)
  then show ?thesis
    using assms(4) by blast
qed

section \<open>The loops\<close>

definition fill_desc ::
    "int \<Rightarrow> int \<Rightarrow> int \<Rightarrow> metal_sg \<Rightarrow> vring_desc \<Rightarrow> vring_desc" where
  "fill_desc readable needed i s d =
     d\<lparr>d_addr := the (metal_io_virt_to_phys (sg_io s) (sg_virt s)), d_len := sg_len s,
       d_flags := (if i < needed - 1 then VRING_DESC_F_NEXT else 0) OR
                  (if readable \<le> i then VRING_DESC_F_WRITE else 0)\<rparr>"

definition sg_mapped :: "metal_sg list \<Rightarrow> bool" where
  "sg_mapped sg \<longleftrightarrow> (\<forall>s \<in> set sg. metal_io_virt_to_phys (sg_io s) (sg_virt s) \<noteq> None)"

lemma fill_desc_simps [simp]:
  "d_next (fill_desc r n i s d) = d_next d"
  "\<not> is_indirect (fill_desc r n i s d)"
  "has_next (fill_desc r n i s d) \<longleftrightarrow> i < n - 1"
  by (auto simp: fill_desc_def VRING_DESC_F_NEXT_def VRING_DESC_F_WRITE_def
      VRING_DESC_F_INDIRECT_def)

lemma add_buffer_loop_spec:
  assumes "free_list ds h (xs @ ys)" "distinct xs" "0 \<le> i" "needed = i + int (length xs)"
    "needed \<le> int (length sg)" "sg_mapped sg"
  shows "\<exists>ds' idx. vq_ring_add_buffer_loop ds h sg readable needed i = Some (ds', idx) \<and>
    length ds' = length ds \<and> free_list ds idx ys \<and>
    (\<forall>x. x \<notin> set xs \<longrightarrow> ds' ! unat x = ds ! unat x) \<and>
    (\<forall>j < length xs. ds' ! unat (xs ! j) =
       fill_desc readable needed (i + int j) (sg ! (nat i + j)) (ds ! unat (xs ! j)))"
  using assms
proof (induction xs arbitrary: ds h i)
  case Nil
  then show ?case
    by (subst vq_ring_add_buffer_loop.simps) simp
next
  case (Cons x xs)
  let ?s = "sg ! nat i" and ?d = "ds ! unat x"
  have i: "i < needed" "nat i < length sg" and x: "h = x" "unat x < length ds"
    using Cons.prems by auto
  obtain phys where phys: "metal_io_virt_to_phys (sg_io ?s) (sg_virt ?s) = Some phys"
    using Cons.prems(6) nth_mem[OF i(2)] unfolding sg_mapped_def by blast
  let ?d' = "fill_desc readable needed i ?s ?d"
  let ?ds = "ds[unat x := ?d']"
  have step: "vq_ring_add_buffer_loop ds h sg readable needed i =
      vq_ring_add_buffer_loop ?ds (d_next ?d) sg readable needed (i + 1)"
    using i x phys
    by (subst vq_ring_add_buffer_loop.simps)
      (simp add: fill_desc_def Let_def or.commute)
  have "free_list ?ds (d_next ?d) (xs @ ys) = free_list ds (d_next ?d) (xs @ ys)"
    by (rule free_list_cong) (use x in \<open>auto simp: nth_list_update\<close>)
  then have fl: "free_list ?ds (d_next ?d) (xs @ ys)"
    using Cons.prems(1) by simp
  obtain ds' idx where IH:
      "vq_ring_add_buffer_loop ?ds (d_next ?d) sg readable needed (i + 1) = Some (ds', idx)"
      "length ds' = length ?ds" "free_list ?ds idx ys"
      "\<forall>z. z \<notin> set xs \<longrightarrow> ds' ! unat z = ?ds ! unat z"
      "\<forall>j < length xs. ds' ! unat (xs ! j) = fill_desc readable needed (i + 1 + int j)
         (sg ! (nat (i + 1) + j)) (?ds ! unat (xs ! j))"
    using Cons.IH[OF fl, of "i + 1"] Cons.prems by auto
  have "free_list ds idx ys"
    using IH(3) by (subst (asm) free_list_cong[of _ ds]) (use x in \<open>auto simp: nth_list_update\<close>)
  moreover have "ds' ! unat ((x # xs) ! j) = fill_desc readable needed (i + int j)
      (sg ! (nat i + j)) (ds ! unat ((x # xs) ! j))" if "j < length (x # xs)" for j
  proof (cases j)
    case 0
    then show ?thesis using IH(4) Cons.prems(2) x by simp
  next
    case (Suc k)
    then have "xs ! k \<noteq> x" using Cons.prems(2) that by auto
    then show ?thesis
      using IH(5) Suc that Cons.prems(3) by (simp add: nat_add_distrib algebra_simps)
  qed
  ultimately show ?case
    using step IH(1,2,4) by (auto simp: nth_list_update)
qed

text \<open>What the loop writes is the chain of a buffer.\<close>

lemma buf_chain_filled:
  assumes "free_list ds h (xs @ ys)" "xs \<noteq> []" "length ds' = length ds" "needed = i + int (length xs)"
    "\<forall>j < length xs. ds' ! unat (xs ! j) =
       fill_desc readable needed (i + int j) (sg ! (m + j)) (ds ! unat (xs ! j))"
  shows "buf_chain ds' xs"
  using assms
proof (induction xs arbitrary: h i m)
  case Nil
  then show ?case by simp
next
  case (Cons x xs)
  have x: "ds' ! unat x = fill_desc readable needed i (sg ! m) (ds ! unat x)"
    using Cons.prems(5) by force
  have rest: "\<forall>j < length xs. ds' ! unat (xs ! j) =
      fill_desc readable needed (i + 1 + int j) (sg ! (Suc m + j)) (ds ! unat (xs ! j))"
  proof (intro allI impI)
    fix j assume "j < length xs"
    then show "ds' ! unat (xs ! j) =
        fill_desc readable needed (i + 1 + int j) (sg ! (Suc m + j)) (ds ! unat (xs ! j))"
      using Cons.prems(5)[rule_format, of "Suc j"] by (simp add: algebra_simps)
  qed
  show ?case
  proof (cases xs)
    case Nil
    then show ?thesis using Cons.prems x by simp
  next
    case (Cons y zs)
    then have "buf_chain ds' xs"
      using Cons.IH[of "d_next (ds ! unat x)" "i + 1" "Suc m"] Cons.prems rest by simp
    then show ?thesis using Cons Cons.prems x by simp
  qed
qed

lemma free_chain_loop_spec:
  assumes "buf_chain ds c"
  shows "vq_ring_free_chain_loop ds (hd c) nd = Some (last c, nd - of_nat (length c - 1))"
  using assms
proof (induction ds c arbitrary: nd rule: buf_chain.induct)
  case (2 ds x)
  then show ?case by (subst vq_ring_free_chain_loop.simps) simp
next
  case (3 ds x y zs)
  then show ?case by (subst vq_ring_free_chain_loop.simps) (simp add: algebra_simps)
qed simp

section \<open>The invariant\<close>

text \<open>
  The geometry fixed at creation: a power of two of entries, at most \<open>2 ^ 15\<close> so that the end
  mark is no index, and arrays of that size (the available ring with its event cell).
\<close>

definition vq_wf :: "virtqueue \<Rightarrow> bool" where
  "vq_wf vq \<longleftrightarrow>
     (\<exists>k \<le> 15. vq_nentries vq = 2 ^ k) \<and>
     v_num (vq_ring vq) = ucast (vq_nentries vq) \<and>
     length (vq_desc vq) = unat (vq_nentries vq) \<and>
     length (vq_descx vq) = unat (vq_nentries vq) \<and>
     length (a_ring (vq_avail vq)) = unat (vq_nentries vq) + 1 \<and>
     length (u_ring (vq_used vq)) = unat (vq_nentries vq)"

definition chain_recorded :: "virtqueue \<Rightarrow> u16 list \<Rightarrow> bool" where
  "chain_recorded vq c \<longleftrightarrow>
     buf_chain (vq_desc vq) c \<and> unat (x_ndescs (vq_descx vq ! unat (hd c))) = length c"

definition vq_inv :: "virtqueue \<Rightarrow> u16 list \<Rightarrow> u16 list list \<Rightarrow> bool" where
  "vq_inv vq fs cs \<longleftrightarrow>
     vq_wf vq \<and>
     distinct (fs @ concat cs) \<and> set (fs @ concat cs) = {x. unat x < unat (vq_nentries vq)} \<and>
     free_list (vq_desc vq) (vq_desc_head_idx vq) fs \<and>
     unat (vq_free_cnt vq) = length fs \<and>
     (\<forall>c \<in> set cs. chain_recorded vq c)"

lemma vq_wf_entries:
  assumes "vq_wf vq"
  obtains k where "k \<le> 15" "vq_nentries vq = 2 ^ k" "unat (vq_nentries vq) = 2 ^ k"
proof -
  from assms obtain k where k: "k \<le> 15" "vq_nentries vq = 2 ^ k"
    by (auto simp: vq_wf_def)
  then have "unat (vq_nentries vq) = 2 ^ k"
    by (simp add: unat_2_power)
  with k that show ?thesis by blast
qed

lemma vq_wf_index:
  assumes "vq_wf vq"
  shows "unat (x AND (vq_nentries vq - 1)) = unat x mod unat (vq_nentries vq)"
    "0 < unat (vq_nentries vq)" "unat (vq_nentries vq) dvd 65536"
    "unat (vq_nentries vq) \<le> 32768"
proof -
  obtain k where k: "k \<le> 15" "vq_nentries vq = 2 ^ k" "unat (vq_nentries vq) = 2 ^ k"
    using assms by (rule vq_wf_entries)
  show "unat (x AND (vq_nentries vq - 1)) = unat x mod unat (vq_nentries vq)"
    using unat_and_mask[of "vq_nentries vq" k x] k by simp
  show "0 < unat (vq_nentries vq)"
    using k by simp
  show "unat (vq_nentries vq) dvd 65536"
    using le_imp_power_dvd[of k 16 "2 :: nat"] k by simp
  show "unat (vq_nentries vq) \<le> 32768"
    using power_increasing[of k 15 "2 :: nat"] k by simp
qed

lemma vq_inv_wf: "vq_inv vq fs cs \<Longrightarrow> vq_wf vq"
  by (simp add: vq_inv_def)

lemma vq_inv_total:
  assumes "vq_inv vq fs cs"
  shows "length fs + length (concat cs) = unat (vq_nentries vq)"
proof -
  let ?n = "unat (vq_nentries vq)"
  have "unat ` set (fs @ concat cs) = {..<?n}"
  proof -
    have "?n \<le> 65536"
      using vq_wf_index(4)[OF vq_inv_wf[OF assms]] by simp
    then have "m \<in> unat ` {x :: u16. unat x < ?n}" if "m < ?n" for m
      using that by (intro image_eqI[of _ _ "of_nat m"]) (simp_all add: unat_of_nat_less)
    then show ?thesis
      using assms by (auto simp: vq_inv_def)
  qed
  moreover have "card (unat ` set (fs @ concat cs)) = card (set (fs @ concat cs))"
    by (intro card_image inj_onI) simp
  moreover have "card (set (fs @ concat cs)) = length fs + length (concat cs)"
    using assms distinct_card[of "fs @ concat cs"] by (simp add: vq_inv_def)
  ultimately show ?thesis
    by simp
qed

lemma chains_le_descs: "\<forall>c \<in> set cs. c \<noteq> [] \<Longrightarrow> length cs \<le> length (concat cs)"
proof (induction cs)
  case (Cons c cs)
  then show ?case by (cases c) auto
qed simp

lemma vq_inv_chains_le: "vq_inv vq fs cs \<Longrightarrow> length fs + length cs \<le> unat (vq_nentries vq)"
  using vq_inv_total[of vq fs cs] chains_le_descs[of cs]
  by (force simp: vq_inv_def chain_recorded_def dest: buf_chain_nonempty)

lemma vq_inv_chain:
  assumes "vq_inv vq fs cs" "c \<in> set cs"
  shows "c \<noteq> []" "distinct c" "set c \<inter> set fs = {}" "buf_chain (vq_desc vq) c"
    "unat (x_ndescs (vq_descx vq ! unat (hd c))) = length c" "unat (hd c) < unat (vq_nentries vq)"
proof -
  show c: "c \<noteq> []" "buf_chain (vq_desc vq) c"
      "unat (x_ndescs (vq_descx vq ! unat (hd c))) = length c"
    using assms by (auto simp: vq_inv_def chain_recorded_def dest: buf_chain_nonempty)
  show "distinct c" "set c \<inter> set fs = {}"
    using assms by (auto simp: vq_inv_def distinct_concat_iff)
  show "unat (hd c) < unat (vq_nentries vq)"
    using buf_chain_head[OF c(2)] vq_inv_wf[OF assms(1)] by (simp add: vq_wf_def)
qed

text \<open>The head of the free chain is the end mark exactly when no descriptor is free.\<close>

lemma vq_inv_head:
  assumes "vq_inv vq fs cs"
  shows "vq_desc_head_idx vq = VQ_RING_DESC_CHAIN_END \<longleftrightarrow> vq_free_cnt vq = 0"
proof (cases fs)
  case Nil
  then show ?thesis using assms by (auto simp: vq_inv_def unat_eq_zero)
next
  case (Cons x xs)
  then have "unat x < unat (vq_nentries vq)" "vq_desc_head_idx vq = x" "vq_free_cnt vq \<noteq> 0"
    using assms by (auto simp: vq_inv_def)
  moreover have "unat VQ_RING_DESC_CHAIN_END = 32768"
    by (simp add: VQ_RING_DESC_CHAIN_END_def)
  ultimately show ?thesis
    using vq_wf_index(4)[OF vq_inv_wf[OF assms]] by auto
qed

section \<open>Publishing in the available ring\<close>

definition published :: "virtqueue \<Rightarrow> u16 \<Rightarrow> virtqueue" where
  "published vq h = (upd_avail ((vq_avail vq)
      \<lparr>a_ring := (a_ring (vq_avail vq))[unat (a_idx (vq_avail vq)) mod unat (vq_nentries vq) := h],
       a_idx := a_idx (vq_avail vq) + 1\<rparr>) vq)\<lparr>vq_queued_cnt := vq_queued_cnt vq + 1\<rparr>"

lemma update_avail_spec: "vq_wf vq \<Longrightarrow> vq_ring_update_avail vq h = Some (published vq h)"
  using vq_wf_index(1)[of vq "a_idx (vq_avail vq)"] vq_wf_index(2)[of vq]
    mod_less_divisor[of "unat (vq_nentries vq)" "unat (a_idx (vq_avail vq))"]
  by (simp add: vq_ring_update_avail_def published_def Let_def vq_wf_def less_Suc_eq)

lemma published_simps [simp]:
  "vq_desc (published vq h) = vq_desc vq" "vq_descx (published vq h) = vq_descx vq"
  "vq_used (published vq h) = vq_used vq" "vq_nentries (published vq h) = vq_nentries vq"
  "vq_desc_head_idx (published vq h) = vq_desc_head_idx vq"
  "vq_free_cnt (published vq h) = vq_free_cnt vq"
  "vq_used_cons_idx (published vq h) = vq_used_cons_idx vq"
  "vq_available_idx (published vq h) = vq_available_idx vq"
  "vq_shm_io (published vq h) = vq_shm_io vq"
  "vq_flags (published vq h) = vq_flags vq"
  "v_num (vq_ring (published vq h)) = v_num (vq_ring vq)"
  "a_idx (vq_avail (published vq h)) = a_idx (vq_avail vq) + 1"
  "a_flags (vq_avail (published vq h)) = a_flags (vq_avail vq)"
  "vq_queued_cnt (published vq h) = vq_queued_cnt vq + 1"
  by (simp_all add: published_def)

lemma published_ring [simp]:
  "a_ring (vq_avail (published vq h)) =
     (a_ring (vq_avail vq))[unat (a_idx (vq_avail vq)) mod unat (vq_nentries vq) := h]"
  by (simp add: published_def)

lemma vq_wf_published [simp]: "vq_wf (published vq h) \<longleftrightarrow> vq_wf vq"
  by (simp add: vq_wf_def)

lemma vq_inv_published [simp]: "vq_inv (published vq h) fs cs \<longleftrightarrow> vq_inv vq fs cs"
  by (simp add: vq_inv_def chain_recorded_def)

section \<open>Adding buffers\<close>

text \<open>The control block after descriptors \<open>xs\<close>, rewritten to \<open>ds\<close>, have left the free chain.\<close>

definition taken :: "virtqueue \<Rightarrow> u16 list \<Rightarrow> u16 list \<Rightarrow> vring_desc list \<Rightarrow> u64 \<Rightarrow> virtqueue" where
  "taken vq xs ys ds cookie =
     (upd_desc ds (vq\<lparr>vq_descx := (vq_descx vq)[unat (hd xs) := (vq_descx vq ! unat (hd xs))
            \<lparr>x_cookie := cookie, x_ndescs := of_nat (length xs)\<rparr>]\<rparr>))
       \<lparr>vq_desc_head_idx := hd (ys @ [VQ_RING_DESC_CHAIN_END]),
        vq_free_cnt := vq_free_cnt vq - of_nat (length xs)\<rparr>"

lemma taken_simps [simp]:
  "vq_desc (taken vq xs ys ds k) = ds" "vq_used (taken vq xs ys ds k) = vq_used vq"
  "vq_avail (taken vq xs ys ds k) = vq_avail vq"
  "vq_nentries (taken vq xs ys ds k) = vq_nentries vq"
  "vq_used_cons_idx (taken vq xs ys ds k) = vq_used_cons_idx vq"
  "vq_available_idx (taken vq xs ys ds k) = vq_available_idx vq"
  "vq_shm_io (taken vq xs ys ds k) = vq_shm_io vq"
  "vq_queued_cnt (taken vq xs ys ds k) = vq_queued_cnt vq"
  "vq_flags (taken vq xs ys ds k) = vq_flags vq"
  "v_num (vq_ring (taken vq xs ys ds k)) = v_num (vq_ring vq)"
  "length (vq_descx (taken vq xs ys ds k)) = length (vq_descx vq)"
  by (simp_all add: taken_def)

lemma vq_wf_taken: "vq_wf vq \<Longrightarrow> length ds = length (vq_desc vq) \<Longrightarrow> vq_wf (taken vq xs ys ds k)"
  by (simp add: vq_wf_def)

lemma taken_cookie:
  assumes "unat h < length (vq_descx vq)" "hd xs = h"
  shows "x_cookie (vq_descx (taken vq xs ys ds k) ! unat x) =
    (if x = h then k else x_cookie (vq_descx vq ! unat x))"
  using assms by (auto simp: taken_def nth_list_update)

lemma vq_inv_taken:
  assumes inv: "vq_inv vq (xs @ ys) cs" and ne: "xs \<noteq> []"
    and ds: "length ds = length (vq_desc vq)" "\<And>x. x \<notin> set xs \<Longrightarrow> ds ! unat x = vq_desc vq ! unat x"
    and chain: "buf_chain ds xs" and fl: "free_list (vq_desc vq) h ys"
  shows "vq_inv (taken vq xs ys ds k) ys (xs # cs)"
proof -
  have parts: "distinct (xs @ ys @ concat cs)" "set (xs @ ys @ concat cs) = {x. unat x < unat (vq_nentries vq)}"
      "unat (vq_free_cnt vq) = length xs + length ys"
    using inv by (auto simp: vq_inv_def)
  have le: "length xs + length ys \<le> unat (vq_nentries vq)"
    using vq_inv_total[OF inv] by simp
  have len: "unat (of_nat (length xs) :: u16) = length xs"
    using le vq_wf_index(4)[OF vq_inv_wf[OF inv]] by (intro unat_of_nat_less) simp
  have cnt: "unat (vq_free_cnt vq - of_nat (length xs)) = length ys"
    using parts(3) len by (simp add: unat_sub_if')
  have free: "free_list ds (hd (ys @ [VQ_RING_DESC_CHAIN_END])) ys"
  proof (subst free_list_cong[OF ds(1)])
    fix x assume "x \<in> set ys"
    then have "x \<notin> set xs" using parts(1) by auto
    then show "d_next (ds ! unat x) = d_next (vq_desc vq ! unat x)" by (simp add: ds(2))
  qed (use fl free_list_head[OF fl] in simp)
  have hx: "hd xs \<in> set xs" "unat (hd xs) < length (vq_descx vq)"
    using ne parts(2) vq_inv_wf[OF inv] hd_in_set[OF ne] by (auto simp: vq_wf_def)
  have old: "chain_recorded (taken vq xs ys ds k) c" if c: "c \<in> set cs" for c
  proof -
    have apart: "set c \<inter> set xs = {}" and "chain_recorded vq c" "c \<noteq> []"
      using c parts(1) inv by (auto simp: vq_inv_def chain_recorded_def dest: buf_chain_nonempty)
    moreover have "buf_chain ds c = buf_chain (vq_desc vq) c"
      using apart ds by (intro buf_chain_cong) auto
    moreover have "hd c \<noteq> hd xs"
      using apart \<open>c \<noteq> []\<close> hx(1) hd_in_set[of c] by (metis disjoint_iff)
    ultimately show ?thesis
      by (simp add: chain_recorded_def taken_def)
  qed
  have new: "chain_recorded (taken vq xs ys ds k) xs"
    using chain hx len by (simp add: chain_recorded_def taken_def)
  show ?thesis
    unfolding vq_inv_def
    using vq_wf_taken[OF vq_inv_wf[OF inv] ds(1)] parts(1,2) free cnt old new
    by (auto simp: taken_def)
qed

lemma add_buffer_spec:
  assumes inv: "vq_inv vq (xs @ ys) cs" and ne: "xs \<noteq> []"
    and n: "readable + writable = int (length xs)" "length xs \<le> length sg" and sg: "sg_mapped sg"
  shows "\<exists>ds. virtqueue_add_buffer vq sg readable writable k =
      Some (VQUEUE_SUCCESS, published (taken vq xs ys ds k) (hd xs)) \<and>
    vq_inv (taken vq xs ys ds k) ys (xs # cs) \<and> length ds = length (vq_desc vq) \<and>
    (\<forall>x. x \<notin> set xs \<longrightarrow> ds ! unat x = vq_desc vq ! unat x) \<and>
    (\<forall>j < length xs. ds ! unat (xs ! j) =
       fill_desc readable (int (length xs)) (int j) (sg ! j) (vq_desc vq ! unat (xs ! j)))"
proof -
  have wf: "vq_wf vq"
    using inv by (rule vq_inv_wf)
  have fl: "free_list (vq_desc vq) (vq_desc_head_idx vq) (xs @ ys)" and "distinct xs"
    using inv by (auto simp: vq_inv_def)
  then have head: "vq_desc_head_idx vq = hd xs"
    using ne by (cases xs) auto
  have le: "length xs \<le> 32768"
    using vq_inv_total[OF inv] vq_wf_index(4)[OF wf] by simp
  obtain ds idx where loop:
      "vq_ring_add_buffer_loop (vq_desc vq) (vq_desc_head_idx vq) sg readable (int (length xs)) 0 =
         Some (ds, idx)"
      "length ds = length (vq_desc vq)" "free_list (vq_desc vq) idx ys"
      "\<forall>x. x \<notin> set xs \<longrightarrow> ds ! unat x = vq_desc vq ! unat x"
      "\<forall>j < length xs. ds ! unat (xs ! j) =
         fill_desc readable (int (length xs)) (0 + int j) (sg ! (nat 0 + j)) (vq_desc vq ! unat (xs ! j))"
    using add_buffer_loop_spec[OF fl \<open>distinct xs\<close>, of 0 "int (length xs)" sg readable] n sg by auto
  have "unat (hd xs) < length (vq_descx vq)"
    using free_list_in[OF fl, of "hd xs"] ne wf by (simp add: vq_wf_def)
  moreover have "c_int (int (length xs))"
    using le by (simp add: c_int_def)
  moreover have idx: "idx = hd (ys @ [VQ_RING_DESC_CHAIN_END])"
    using loop(3) by (rule free_list_head)
  moreover have "vq_wf (taken vq xs ys ds k)"
    using wf loop(2) by (rule vq_wf_taken)
  ultimately have "virtqueue_add_buffer vq sg readable writable k =
      Some (VQUEUE_SUCCESS, published (taken vq xs ys ds k) (hd xs))"
    using loop(1) update_avail_spec[of "taken vq xs ys ds k" "hd xs"]
    by (simp add: virtqueue_add_buffer_def vq_ring_add_buffer_def Let_def head n(1) taken_def)
  moreover have "buf_chain ds xs"
    using buf_chain_filled[OF fl ne loop(2), of "int (length xs)" 0 readable sg 0] loop(5) by simp
  ultimately show ?thesis
    using vq_inv_taken[OF inv ne loop(2) _ _ loop(3)] loop(2,4,5) by auto
qed

lemma add_single_buffer_spec:
  assumes inv: "vq_inv vq (x # ys) cs" and sg: "metal_io_virt_to_phys (sg_io sg) (sg_virt sg) = Some p"
  shows "\<exists>ds. virtqueue_add_single_buffer vq k sg writable False =
      Some (VQUEUE_SUCCESS, published (taken vq [x] ys ds k) x) \<and>
    vq_inv (taken vq [x] ys ds k) ys ([x] # cs) \<and>
    ds = (vq_desc vq)[unat x := (vq_desc vq ! unat x)\<lparr>d_addr := p, d_len := sg_len sg,
      d_flags := (if writable then VRING_DESC_F_WRITE else 0)\<rparr>]"
proof -
  let ?ds = "(vq_desc vq)[unat x := (vq_desc vq ! unat x)\<lparr>d_addr := p, d_len := sg_len sg,
      d_flags := (if writable then VRING_DESC_F_WRITE else 0)\<rparr>]"
  have wf: "vq_wf vq"
    using inv by (rule vq_inv_wf)
  have fl: "vq_desc_head_idx vq = x" "unat x < length (vq_desc vq)"
      "free_list (vq_desc vq) (d_next (vq_desc vq ! unat x)) ys"
    using inv by (auto simp: vq_inv_def)
  moreover have "unat x < length (vq_descx vq)"
    using fl(2) wf by (simp add: vq_wf_def)
  moreover have "vq_wf (taken vq [x] ys ?ds k)"
    using wf by (intro vq_wf_taken) simp_all
  ultimately have "virtqueue_add_single_buffer vq k sg writable False =
      Some (VQUEUE_SUCCESS, published (taken vq [x] ys ?ds k) x)"
    using update_avail_spec[of "taken vq [x] ys ?ds k" x] sg free_list_head[OF fl(3)]
    by (cases writable) (simp_all add: virtqueue_add_single_buffer_def Let_def taken_def)
  moreover have "buf_chain ?ds [x]"
    using fl(2) by (simp add: VRING_DESC_F_NEXT_def VRING_DESC_F_WRITE_def VRING_DESC_F_INDIRECT_def)
  then have "vq_inv (taken vq [x] ys ?ds k) ys ([x] # cs)"
    using inv fl(2,3) by (intro vq_inv_taken) (auto simp: nth_list_update)
  ultimately show ?thesis by blast
qed

section \<open>Getting buffers back\<close>

text \<open>The control block after the chain \<open>c\<close> has gone back in front of the free chain.\<close>

definition given_back :: "virtqueue \<Rightarrow> u16 list \<Rightarrow> virtqueue" where
  "given_back vq c =
     (upd_desc ((vq_desc vq)[unat (last c) :=
          (vq_desc vq ! unat (last c))\<lparr>d_next := vq_desc_head_idx vq\<rparr>]) vq)
       \<lparr>vq_free_cnt := vq_free_cnt vq + of_nat (length c),
        vq_descx := (vq_descx vq)[unat (hd c) := (vq_descx vq ! unat (hd c))\<lparr>x_ndescs := 0\<rparr>],
        vq_desc_head_idx := hd c\<rparr>"

lemma free_chain_spec:
  assumes inv: "vq_inv vq fs cs" and c: "c \<in> set cs"
  shows "vq_ring_free_chain vq (hd c) = Some (given_back vq c)"
proof -
  note ch = vq_inv_chain[OF inv c]
  have wf: "vq_wf vq"
    using inv by (rule vq_inv_wf)
  have nd: "x_ndescs (vq_descx vq ! unat (hd c)) = of_nat (length c)"
    using ch(5) by (metis of_nat_unat ucast_id)
  have lst: "unat (last c) < length (vq_desc vq)"
    using buf_chain_in[OF ch(4)] last_in_set[OF ch(1)] by simp
  have len: "length c = Suc (length c - 1)"
    using ch(1) by (cases c) auto
  have "of_nat (length c) - 1 - of_nat (length c - 1) = (0 :: u16)"
    by (subst len) simp
  then have loop: "vq_ring_free_chain_loop (vq_desc vq) (hd c) (of_nat (length c) - 1) =
      Some (last c, 0)"
    using free_chain_loop_spec[OF ch(4), of "of_nat (length c) - 1"] by simp
  show ?thesis
    using buf_chain_head[OF ch(4)] wf ch(6) lst loop nd
    by (simp add: vq_ring_free_chain_def given_back_def vq_wf_def Let_def)
qed

lemma given_back_simps [simp]:
  "length (vq_desc (given_back vq c)) = length (vq_desc vq)"
  "vq_used (given_back vq c) = vq_used vq" "vq_avail (given_back vq c) = vq_avail vq"
  "vq_nentries (given_back vq c) = vq_nentries vq"
  "vq_used_cons_idx (given_back vq c) = vq_used_cons_idx vq"
  "vq_available_idx (given_back vq c) = vq_available_idx vq"
  "vq_shm_io (given_back vq c) = vq_shm_io vq" "vq_flags (given_back vq c) = vq_flags vq"
  "v_num (vq_ring (given_back vq c)) = v_num (vq_ring vq)"
  "length (vq_descx (given_back vq c)) = length (vq_descx vq)"
  "vq_desc_head_idx (given_back vq c) = hd c"
  by (simp_all add: given_back_def)

lemma given_back_cookie [simp]:
  "x_cookie (vq_descx (given_back vq c) ! unat x) = x_cookie (vq_descx vq ! unat x)"
proof (cases "unat (hd c) < length (vq_descx vq)")
  case True
  then show ?thesis by (simp add: given_back_def nth_list_update)
next
  case False
  then show ?thesis by (simp add: given_back_def list_update_beyond)
qed

lemma vq_inv_given_back:
  assumes inv: "vq_inv vq fs (cs1 @ c # cs2)"
  shows "vq_inv (given_back vq c) (c @ fs) (cs1 @ cs2)"
proof -
  have cin: "c \<in> set (cs1 @ c # cs2)" by simp
  note ch = vq_inv_chain[OF inv cin]
  have parts: "distinct (fs @ concat (cs1 @ c # cs2))"
      "set (fs @ concat (cs1 @ c # cs2)) = {x. unat x < unat (vq_nentries vq)}"
      "unat (vq_free_cnt vq) = length fs" "free_list (vq_desc vq) (vq_desc_head_idx vq) fs"
    using inv by (auto simp: vq_inv_def)
  have le: "length c + length fs \<le> 32768"
    using vq_inv_total[OF inv] vq_wf_index(4)[OF vq_inv_wf[OF inv]] by simp
  then have "unat (of_nat (length c) :: u16) = length c"
    by (intro unat_of_nat_less) simp
  then have cnt: "unat (vq_free_cnt vq + of_nat (length c)) = length c + length fs"
    using le parts(3) by (subst unat_add_no_overflow) simp_all
  have free: "free_list (vq_desc (given_back vq c)) (hd c) (c @ fs)"
    by (rule free_list_prepend[OF ch(4,2) parts(4) ch(3)]) (simp add: given_back_def)
  have old: "chain_recorded (given_back vq c) e" if e: "e \<in> set (cs1 @ cs2)" for e
  proof -
    have apart: "set e \<inter> set c = {}" and "chain_recorded vq e" "e \<noteq> []"
      using e parts(1) inv by (auto simp: vq_inv_def chain_recorded_def dest: buf_chain_nonempty)
    have "last c \<notin> set e" "hd e \<noteq> hd c"
      using apart last_in_set[OF ch(1)] hd_in_set[OF ch(1)] hd_in_set[OF \<open>e \<noteq> []\<close>]
      by (metis disjoint_iff)+
    moreover have "buf_chain (vq_desc (given_back vq c)) e = buf_chain (vq_desc vq) e"
      using \<open>last c \<notin> set e\<close>
      by (intro buf_chain_cong) (simp, simp add: given_back_def, metis nth_list_update_neq unat_eq_iff)
    ultimately show ?thesis
      using \<open>chain_recorded vq e\<close> by (simp add: chain_recorded_def given_back_def)
  qed
  have "vq_wf (given_back vq c)"
    using vq_inv_wf[OF inv] by (simp add: vq_wf_def)
  moreover have "unat (vq_free_cnt (given_back vq c)) = length (c @ fs)"
    using cnt by (simp add: given_back_def)
  moreover have "distinct ((c @ fs) @ concat (cs1 @ cs2))"
    "set ((c @ fs) @ concat (cs1 @ cs2)) = {x. unat x < unat (vq_nentries vq)}"
    using parts(1,2) by auto
  ultimately show ?thesis
    unfolding vq_inv_def using free old by simp
qed

text \<open>Taking a completed buffer: the entry \<open>e\<close> of the used ring at the consumer's index.\<close>

definition reaped :: "virtqueue \<Rightarrow> u16 list \<Rightarrow> virtqueue" where
  "reaped vq c =
     (let vq' = given_back (vq\<lparr>vq_used_cons_idx := vq_used_cons_idx vq + 1\<rparr>) c
      in vq'\<lparr>vq_descx := (vq_descx vq')[unat (hd c) := (vq_descx vq' ! unat (hd c))\<lparr>x_cookie := 0\<rparr>]\<rparr>)"

lemma reaped_simps [simp]:
  "vq_used (reaped vq c) = vq_used vq" "vq_avail (reaped vq c) = vq_avail vq"
  "vq_nentries (reaped vq c) = vq_nentries vq" "vq_used_cons_idx (reaped vq c) = vq_used_cons_idx vq + 1"
  "vq_available_idx (reaped vq c) = vq_available_idx vq" "vq_shm_io (reaped vq c) = vq_shm_io vq"
  "vq_flags (reaped vq c) = vq_flags vq"
  "length (vq_descx (reaped vq c)) = length (vq_descx vq)"
  by (simp_all add: reaped_def Let_def)

lemma vq_inv_cookie:
  "vq_inv (vq\<lparr>vq_descx := (vq_descx vq)[i := (vq_descx vq ! i)\<lparr>x_cookie := k\<rparr>]\<rparr>) fs cs =
    vq_inv vq fs cs"
proof -
  have "x_ndescs ((vq_descx vq)[i := (vq_descx vq ! i)\<lparr>x_cookie := k\<rparr>] ! j) = x_ndescs (vq_descx vq ! j)"
    for j
    by (cases "i < length (vq_descx vq)") (auto simp: nth_list_update list_update_beyond)
  then show ?thesis
    by (simp add: vq_inv_def vq_wf_def chain_recorded_def)
qed

lemma vq_inv_cons_idx: "vq_inv (vq\<lparr>vq_used_cons_idx := i\<rparr>) fs cs = vq_inv vq fs cs"
  by (simp add: vq_inv_def vq_wf_def chain_recorded_def)

lemma vq_inv_reaped: "vq_inv vq fs (cs1 @ c # cs2) \<Longrightarrow> vq_inv (reaped vq c) (c @ fs) (cs1 @ cs2)"
  unfolding reaped_def Let_def vq_inv_cookie
  by (rule vq_inv_given_back) (simp add: vq_inv_cons_idx)

lemma reaped_cookie:
  assumes "vq_inv vq fs cs" "c \<in> set cs"
  shows "x_cookie (vq_descx (reaped vq c) ! unat x) =
    (if x = hd c then 0 else x_cookie (vq_descx vq ! unat x))"
proof -
  have "unat (hd c) < length (vq_descx vq)"
    using vq_inv_chain(6)[OF assms] vq_inv_wf[OF assms(1)] by (simp add: vq_wf_def)
  then show ?thesis
    by (auto simp: reaped_def Let_def nth_list_update)
qed

lemma get_buffer_spec:
  assumes inv: "vq_inv vq fs cs" and c: "c \<in> set cs"
    and used: "vq_used_cons_idx vq \<noteq> u_idx (vq_used vq)"
    and e: "u_ring (vq_used vq) ! (unat (vq_used_cons_idx vq) mod unat (vq_nentries vq)) =
      \<lparr>e_id = ucast (hd c), e_len = len\<rparr>"
  shows "virtqueue_get_buffer (Some vq) =
    Some (x_cookie (vq_descx vq ! unat (hd c)),
          Some (len, vq_used_cons_idx vq AND (vq_nentries vq - 1)), Some (reaped vq c))"
proof -
  have wf: "vq_wf vq"
    using inv by (rule vq_inv_wf)
  let ?vq = "vq\<lparr>vq_used_cons_idx := vq_used_cons_idx vq + 1\<rparr>"
  have "vq_ring_free_chain ?vq (hd c) = Some (given_back ?vq c)"
    using inv c by (intro free_chain_spec[of _ fs cs]) (simp_all add: vq_inv_cons_idx)
  moreover have "unat (vq_used_cons_idx vq AND (vq_nentries vq - 1)) < length (u_ring (vq_used vq))"
    using wf vq_wf_index(1,2)[OF wf] by (simp add: vq_wf_def)
  moreover have "unat (hd c) < length (vq_descx vq)"
    using vq_inv_chain(6)[OF inv c] wf by (simp add: vq_wf_def)
  ultimately show ?thesis
    using used e vq_wf_index(1)[OF wf, of "vq_used_cons_idx vq"]
    by (simp add: reaped_def Let_def)
qed

lemma get_buffer_empty:
  "vq_used_cons_idx vq = u_idx (vq_used vq) \<Longrightarrow> virtqueue_get_buffer (Some vq) = Some (0, None, Some vq)"
  by simp

section \<open>The device's side\<close>

lemma get_available_spec:
  assumes wf: "vq_wf vq" and some: "vq_available_idx vq \<noteq> a_idx (vq_avail vq)"
    and h: "a_ring (vq_avail vq) ! (unat (vq_available_idx vq) mod unat (vq_nentries vq)) = h"
      "unat h < unat (vq_nentries vq)"
    and b: "metal_io_phys_to_virt (vq_shm_io vq) (d_addr (vq_desc vq ! unat h)) = Some b"
  shows "virtqueue_get_available_buffer vq =
    Some (b, Some (h, d_len (vq_desc vq ! unat h)), vq\<lparr>vq_available_idx := vq_available_idx vq + 1\<rparr>)"
proof -
  let ?i = "unat (vq_available_idx vq) mod unat (vq_nentries vq)"
  have "?i < length (a_ring (vq_avail vq))" "unat h < length (vq_desc vq)"
    using wf vq_wf_index(2)[OF wf] h(2) by (simp_all add: vq_wf_def less_Suc_eq)
  then show ?thesis
    using some h(1) b vq_wf_index(1)[OF wf, of "vq_available_idx vq"]
    by (simp add: virtqueue_get_available_buffer_def Let_def)
qed

definition consumed :: "virtqueue \<Rightarrow> u16 \<Rightarrow> u32 \<Rightarrow> virtqueue" where
  "consumed vq h len = upd_used ((vq_used vq)
     \<lparr>u_ring := (u_ring (vq_used vq))[unat (u_idx (vq_used vq)) mod unat (vq_nentries vq) :=
        \<lparr>e_id = ucast h, e_len = len\<rparr>],
      u_idx := u_idx (vq_used vq) + 1\<rparr>) vq"

lemma add_consumed_spec:
  assumes "vq_wf vq" "unat h \<le> unat (vq_nentries vq)"
  shows "virtqueue_add_consumed_buffer vq h len = Some (VQUEUE_SUCCESS, consumed vq h len)"
proof -
  have "unat (u_idx (vq_used vq)) mod unat (vq_nentries vq) < length (u_ring (vq_used vq))"
    using assms(1) vq_wf_index(2)[OF assms(1)] by (simp add: vq_wf_def)
  then show ?thesis
    using assms(2) vq_wf_index(1)[OF assms(1), of "u_idx (vq_used vq)"]
    by (simp add: virtqueue_add_consumed_buffer_def consumed_def Let_def word_less_nat_alt)
qed

lemma consumed_simps [simp]:
  "vq_desc (consumed vq h l) = vq_desc vq" "vq_descx (consumed vq h l) = vq_descx vq"
  "vq_avail (consumed vq h l) = vq_avail vq" "vq_nentries (consumed vq h l) = vq_nentries vq"
  "vq_available_idx (consumed vq h l) = vq_available_idx vq"
  "vq_used_cons_idx (consumed vq h l) = vq_used_cons_idx vq"
  "vq_shm_io (consumed vq h l) = vq_shm_io vq"
  "vq_desc_head_idx (consumed vq h l) = vq_desc_head_idx vq"
  "vq_free_cnt (consumed vq h l) = vq_free_cnt vq"
  "v_num (vq_ring (consumed vq h l)) = v_num (vq_ring vq)"
  "u_idx (vq_used (consumed vq h l)) = u_idx (vq_used vq) + 1"
  by (simp_all add: consumed_def)

lemma consumed_ring [simp]:
  "u_ring (vq_used (consumed vq h l)) =
     (u_ring (vq_used vq))[unat (u_idx (vq_used vq)) mod unat (vq_nentries vq) :=
        \<lparr>e_id = ucast h, e_len = l\<rparr>]"
  by (simp add: consumed_def)

lemma vq_wf_consumed [simp]: "vq_wf (consumed vq h l) \<longleftrightarrow> vq_wf vq"
  by (simp add: vq_wf_def)

section \<open>Creation\<close>

lemma ring_init_loop_spec:
  assumes "i < n" "n = length ds" "n \<le> 32768"
  shows "\<exists>ds'. vq_ring_init_loop ds n i = Some ds' \<and> length ds' = n \<and>
    (\<forall>j < i. ds' ! j = ds ! j) \<and>
    (\<forall>j. i \<le> j \<longrightarrow> j < n \<longrightarrow>
       d_next (ds' ! j) = (if Suc j < n then of_nat (Suc j) else VQ_RING_DESC_CHAIN_END))"
  using assms
proof (induction "n - i" arbitrary: ds i)
  case (Suc m)
  show ?case
  proof (cases "Suc i < n")
    case True
    let ?ds = "ds[i := (ds ! i)\<lparr>d_next := of_nat (Suc i)\<rparr>]"
    obtain ds' where IH: "vq_ring_init_loop ?ds n (Suc i) = Some ds'" "length ds' = n"
        "\<forall>j < Suc i. ds' ! j = ?ds ! j"
        "\<forall>j. Suc i \<le> j \<longrightarrow> j < n \<longrightarrow>
           d_next (ds' ! j) = (if Suc j < n then of_nat (Suc j) else VQ_RING_DESC_CHAIN_END)"
    proof -
      have "m = n - Suc i" "n = length ?ds"
        using Suc.hyps(2) Suc.prems(2) by simp_all
      from Suc.hyps(1)[OF this(1) True this(2) Suc.prems(3)] show ?thesis
        using that Suc.prems(2) by blast
    qed
    have "vq_ring_init_loop ds n i = Some ds'"
      using True Suc.prems IH(1) by (subst vq_ring_init_loop.simps) simp
    moreover have "d_next (ds' ! j) = (if Suc j < n then of_nat (Suc j) else VQ_RING_DESC_CHAIN_END)"
      if "i \<le> j" "j < n" for j
      using that IH(3,4) True Suc.prems by (cases "j = i") auto
    ultimately show ?thesis
      using IH(2,3) by auto
  next
    case False
    then show ?thesis
      using Suc.prems by (subst vq_ring_init_loop.simps) (auto simp: nth_list_update)
  qed
qed simp

lemma free_list_init:
  assumes "\<forall>j. i \<le> j \<longrightarrow> j < n \<longrightarrow>
      d_next (ds ! j) = (if Suc j < n then of_nat (Suc j) else VQ_RING_DESC_CHAIN_END)"
    "i < n" "n = length ds" "n \<le> 32768"
  shows "free_list ds (of_nat i) (map of_nat [i ..< n])"
  using assms
proof (induction "n - i" arbitrary: i)
  case (Suc m)
  have u: "unat (of_nat i :: u16) = i"
    using Suc.prems by (intro unat_of_nat_less) simp
  show ?case
  proof (cases "Suc i < n")
    case True
    then have "free_list ds (of_nat (Suc i)) (map of_nat [Suc i ..< n])"
      using Suc.hyps(1)[of "Suc i"] Suc.hyps(2) Suc.prems by auto
    then show ?thesis
      using True Suc.prems u by (simp add: upt_conv_Cons)
  next
    case False
    then have "[i ..< n] = [i]"
      using Suc.prems by (simp add: upt_conv_Cons)
    then show ?thesis
      using False Suc.prems u by simp
  qed
qed simp

text \<open>The memory handed to \<open>virtqueue_create\<close> is large enough for the ring.\<close>

definition ring_mem_ok :: "vring \<Rightarrow> nat \<Rightarrow> bool" where
  "ring_mem_ok mem n \<longleftrightarrow> length (v_desc mem) = n \<and> length (a_ring (v_avail mem)) = n + 1 \<and>
     length (u_ring (v_used mem)) = n"

lemma create_spec:
  assumes n: "ai_num_descs ring = 2 ^ k" "k \<le> 15" and mem: "ring_mem_ok mem (2 ^ k)"
  shows "\<exists>vq. virtqueue_create dev qid name ring cb nf io mem True = Some (VQUEUE_SUCCESS, Some vq) \<and>
    vq_inv vq (map of_nat [0 ..< 2 ^ k]) [] \<and> vq_nentries vq = 2 ^ k \<and> vq_shm_io vq = io \<and>
    vq_avail vq = (v_avail mem)\<lparr>a_flags := a_flags (v_avail mem) OR VRING_AVAIL_F_NO_INTERRUPT\<rparr> \<and>
    vq_used vq = v_used mem \<and> vq_flags vq = 0 \<and>
    vq_used_cons_idx vq = 0 \<and> vq_available_idx vq = 0 \<and> vq_queued_cnt vq = 0"
proof -
  have un: "unat (2 ^ k :: u16) = 2 ^ k"
    using n(2) by (simp add: unat_2_power)
  have le: "(2 :: nat) ^ k \<le> 32768"
    using power_increasing[OF n(2), of "2 :: nat"] by simp
  obtain ds where ds: "vq_ring_init_loop (v_desc mem) (2 ^ k) 0 = Some ds" "length ds = 2 ^ k"
      "\<forall>j. 0 \<le> j \<longrightarrow> j < 2 ^ k \<longrightarrow>
        d_next (ds ! j) = (if Suc j < 2 ^ k then of_nat (Suc j) else VQ_RING_DESC_CHAIN_END)"
    using ring_init_loop_spec[of 0 "2 ^ k" "v_desc mem", OF zero_less_power[OF zero_less_numeral] _ le]
      mem unfolding ring_mem_ok_def by metis
  have fl: "free_list ds 0 (map of_nat [0 ..< 2 ^ k])"
    using free_list_init[OF ds(3) zero_less_power[OF zero_less_numeral] ds(2)[symmetric] le]
    by simp
  have dist: "distinct (map (of_nat :: nat \<Rightarrow> u16) [0 ..< 2 ^ k])"
    using le by (auto simp: distinct_map intro!: inj_onI dest!: arg_cong[of _ _ unat] simp: unat_of_nat_less)
  have all: "set (map (of_nat :: nat \<Rightarrow> u16) [0 ..< 2 ^ k]) = {x. unat x < 2 ^ k}"
  proof
    show "set (map (of_nat :: nat \<Rightarrow> u16) [0 ..< 2 ^ k]) \<subseteq> {x. unat x < 2 ^ k}"
      using le by (auto simp: unat_of_nat_less)
    show "{x. unat x < 2 ^ k} \<subseteq> set (map (of_nat :: nat \<Rightarrow> u16) [0 ..< 2 ^ k])"
    proof
      fix x :: u16 assume "x \<in> {x. unat x < 2 ^ k}"
      then show "x \<in> set (map of_nat [0 ..< 2 ^ k])"
        by (intro image_eqI[of _ _ "unat x", THEN set_map[THEN equalityD2, THEN subsetD]]) simp_all
    qed
  qed
  show ?thesis
    using n ds(1,2) mem fl dist all un
    by (auto simp: virtqueue_create_def vq_ring_init_def virtqueue_fields_def virtqueue_disable_cb_def
        vring_init_def Let_def vq_inv_def vq_wf_def ring_mem_ok_def)
qed

section \<open>Notification and callbacks\<close>

lemma nused_pos: "0 < virtqueue_nused vq \<longleftrightarrow> vq_used_cons_idx vq \<noteq> u_idx (vq_used vq)"
  by (auto simp: virtqueue_nused_def word_neq_0_conv[symmetric])

lemma no_interrupt_nonzero [simp]: "VRING_AVAIL_F_NO_INTERRUPT \<noteq> 0"
  by (simp add: VRING_AVAIL_F_NO_INTERRUPT_def)

lemma no_interrupt_bit:
  "(x OR VRING_AVAIL_F_NO_INTERRUPT) AND VRING_AVAIL_F_NO_INTERRUPT \<noteq> 0"
  "(x AND NOT VRING_AVAIL_F_NO_INTERRUPT) AND VRING_AVAIL_F_NO_INTERRUPT = 0"
  by (simp_all add: bit.conj_disj_distrib2 or_eq_0_iff and.assoc VRING_AVAIL_F_NO_INTERRUPT_def)

section \<open>Properties\<close>

text \<open>
  C32: \<open>virtqueue_create\<close> over ring memory of the right size returns a control block
  in which every descriptor is on the free chain, in order, the chain ends with the end mark,
  the free count is the number of entries, and callbacks are off; with no memory for the
  control block it returns \<^verbatim>\<open>ERROR_NO_MEM\<close>.
\<close>

theorem virtqueue_create_inv:
  assumes "ai_num_descs ring = 2 ^ k" "k \<le> 15" "ring_mem_ok mem (2 ^ k)"
  shows "(\<exists>vq. virtqueue_create dev qid name ring cb nf io mem True = Some (VQUEUE_SUCCESS, Some vq) \<and>
      vq_inv vq (map of_nat [0 ..< 2 ^ k]) [] \<and> vq_nentries vq = 2 ^ k \<and>
      a_flags (vq_avail vq) AND VRING_AVAIL_F_NO_INTERRUPT \<noteq> 0) \<and>
    virtqueue_create dev qid name ring cb nf io mem False = Some (ERROR_NO_MEM, None)"
proof -
  obtain vq where "virtqueue_create dev qid name ring cb nf io mem True = Some (VQUEUE_SUCCESS, Some vq)"
    "vq_inv vq (map of_nat [0 ..< 2 ^ k]) []" "vq_nentries vq = 2 ^ k"
    "vq_avail vq = (v_avail mem)\<lparr>a_flags := a_flags (v_avail mem) OR VRING_AVAIL_F_NO_INTERRUPT\<rparr>"
    using create_spec[OF assms, of dev qid name cb nf io] by blast
  then show ?thesis
    by (simp add: virtqueue_create_def no_interrupt_bit)
qed

definition plain_mem :: "nat \<Rightarrow> vring" where
  "plain_mem n = \<lparr>v_num = 0, v_desc_at = 0, v_avail_at = 0, v_used_at = 0,
    v_desc = replicate n \<lparr>d_addr = 0, d_len = 0, d_flags = 0, d_next = 0\<rparr>,
    v_avail = \<lparr>a_flags = 0, a_idx = 0, a_ring = replicate (n + 1) 0\<rparr>,
    v_used = \<lparr>u_flags = 0, u_idx = 0, u_ring = replicate n \<lparr>e_id = 0, e_len = 0\<rparr>, u_avail_event = 0\<rparr>\<rparr>"

definition plain_io :: metal_io_region where
  "plain_io = \<lparr>io_virt = 4096, io_physmap = Some [65536], io_size = 4096, io_page_shift = 12,
     io_page_mask = 4095, io_mem_flags = 0\<rparr>"

definition plain_alloc :: "u16 \<Rightarrow> vring_alloc_info" where
  "plain_alloc n = \<lparr>ai_vaddr = 8192, ai_align = 16, ai_num_descs = n, ai_pad = 0\<rparr>"

definition plain_vq :: virtqueue where
  "plain_vq = the (snd (the (virtqueue_create 1 0 ''q'' (plain_alloc 4) 0 0 plain_io (plain_mem 4) True)))"

theorem virtqueue_create_inv_witness:
  "\<exists>vq. virtqueue_create 1 0 ''q'' (plain_alloc 4) 0 0 plain_io (plain_mem 4) True =
      Some (VQUEUE_SUCCESS, Some vq) \<and> vq_inv vq [0, 1, 2, 3] []"
  using virtqueue_create_inv[of "plain_alloc 4" 2 "plain_mem 4" 1 0 "''q''" 0 0 plain_io]
  by (auto simp: plain_alloc_def plain_mem_def ring_mem_ok_def upt_rec)

lemma plain_vq_inv: "vq_inv plain_vq [0, 1, 2, 3] []"
proof -
  have "\<exists>vq. virtqueue_create 1 0 ''q'' (plain_alloc 4) 0 0 plain_io (plain_mem 4) True =
      Some (VQUEUE_SUCCESS, Some vq) \<and> vq_inv vq (map of_nat [0 ..< 2 ^ 2]) []"
    using create_spec[of "plain_alloc 4" 2 "plain_mem 4" 1 0 "''q''" 0 0 plain_io]
    by (auto simp: plain_alloc_def plain_mem_def ring_mem_ok_def)
  then show ?thesis
    by (auto simp: plain_vq_def upt_rec)
qed

text \<open>
  C20: \<open>virtqueue_add_buffer\<close> for a buffer of as many segments as \<open>xs\<close>, the first free
  descriptors, fills those from the segments in order (the chain flag on all but the last,
  the write flag from the \<open>readable\<close>-th on), takes them off the free chain, records cookie and
  length at the head, publishes the head in the next slot of the available ring, changes no
  other descriptor, and keeps the invariant.
\<close>

theorem virtqueue_add_buffer_inv:
  assumes "vq_inv vq (xs @ ys) cs" "xs \<noteq> []"
    and "readable + writable = int (length xs)" "length xs \<le> length sg" "sg_mapped sg"
  shows "\<exists>vq'. virtqueue_add_buffer vq sg readable writable cookie = Some (VQUEUE_SUCCESS, vq') \<and>
    vq_inv vq' ys (xs # cs) \<and>
    (\<forall>j < length xs. vq_desc vq' ! unat (xs ! j) =
       fill_desc readable (int (length xs)) (int j) (sg ! j) (vq_desc vq ! unat (xs ! j))) \<and>
    (\<forall>x. x \<notin> set xs \<longrightarrow> vq_desc vq' ! unat x = vq_desc vq ! unat x) \<and>
    x_cookie (vq_descx vq' ! unat (List.hd xs)) = cookie \<and>
    a_idx (vq_avail vq') = a_idx (vq_avail vq) + 1 \<and>
    a_ring (vq_avail vq') ! (unat (a_idx (vq_avail vq)) mod unat (vq_nentries vq)) = List.hd xs"
proof -
  obtain ds where d: "virtqueue_add_buffer vq sg readable writable cookie =
        Some (VQUEUE_SUCCESS, published (taken vq xs ys ds cookie) (List.hd xs))"
      "vq_inv (taken vq xs ys ds cookie) ys (xs # cs)"
      "\<forall>x. x \<notin> set xs \<longrightarrow> ds ! unat x = vq_desc vq ! unat x"
      "\<forall>j < length xs. ds ! unat (xs ! j) =
         fill_desc readable (int (length xs)) (int j) (sg ! j) (vq_desc vq ! unat (xs ! j))"
    using add_buffer_spec[OF assms, of cookie] by blast
  have wf: "vq_wf vq" using assms(1) by (rule vq_inv_wf)
  have "unat (List.hd xs) < length (vq_descx vq)"
    using vq_inv_chain(6)[OF d(2), of xs] wf by (simp add: vq_wf_def)
  moreover have "unat (a_idx (vq_avail vq)) mod unat (vq_nentries vq) < length (a_ring (vq_avail vq))"
    using vq_wf_index(2)[OF wf] wf by (simp add: vq_wf_def less_SucI)
  ultimately show ?thesis
    using d taken_cookie[of "List.hd xs" vq xs] by (intro exI[of _ "published (taken vq xs ys ds cookie) (List.hd xs)"]) simp
qed

definition plain_sg :: "metal_sg list" where
  "plain_sg = [\<lparr>sg_virt = 4112, sg_io = plain_io, sg_len = 64\<rparr>, \<lparr>sg_virt = 4352, sg_io = plain_io, sg_len = 32\<rparr>]"

theorem virtqueue_add_buffer_inv_witness:
  "\<exists>vq'. virtqueue_add_buffer plain_vq plain_sg 1 1 77 = Some (VQUEUE_SUCCESS, vq') \<and>
    vq_inv vq' [2, 3] [[0, 1]] \<and> x_cookie (vq_descx vq' ! 0) = 77"
proof -
  have "sg_mapped plain_sg" by code_simp
  then show ?thesis
    using virtqueue_add_buffer_inv[of plain_vq "[0, 1]" "[2, 3]" "[]" 1 1 plain_sg 77] plain_vq_inv
    by (auto simp: plain_sg_def)
qed

text \<open>
  C21: \<open>virtqueue_get_buffer\<close>, when the device has given back the buffer with the chain
  \<open>c\<close>, returns its cookie and the length the device wrote, clears the cookie, and puts all the
  descriptors of the chain back at the front of the free chain, keeping the invariant.
\<close>

theorem virtqueue_get_buffer_inv:
  assumes "vq_inv vq fs (cs1 @ c # cs2)" "vq_used_cons_idx vq \<noteq> u_idx (vq_used vq)"
    and "u_ring (vq_used vq) ! (unat (vq_used_cons_idx vq) mod unat (vq_nentries vq)) =
      \<lparr>e_id = ucast (List.hd c), e_len = len\<rparr>"
  shows "\<exists>i vq'. virtqueue_get_buffer (Some vq) =
      Some (x_cookie (vq_descx vq ! unat (List.hd c)), Some (len, i), Some vq') \<and>
    vq_inv vq' (c @ fs) (cs1 @ cs2) \<and> vq_used_cons_idx vq' = vq_used_cons_idx vq + 1 \<and>
    x_cookie (vq_descx vq' ! unat (List.hd c)) = 0"
  using get_buffer_spec[OF assms(1) _ assms(2,3)] vq_inv_reaped[OF assms(1)] reaped_cookie[OF assms(1), of c "List.hd c"]
  by simp

theorem virtqueue_get_buffer_inv_witness:
  "\<exists>vq i vq'. vq_inv vq [2, 3] [[0, 1]] \<and>
    virtqueue_get_buffer (Some vq) = Some (77, Some (20, i), Some vq') \<and> vq_inv vq' [0, 1, 2, 3] []"
proof -
  have m: "sg_mapped plain_sg" by code_simp
  obtain ds where d: "vq_inv (taken plain_vq [0, 1] [2, 3] ds 77) [2, 3] [[0, 1]]"
    using add_buffer_spec[of plain_vq "[0, 1]" "[2, 3]" "[]" 1 1 plain_sg 77] plain_vq_inv m
    by (auto simp: plain_sg_def)
  define vq where "vq = consumed (taken plain_vq [0, 1] [2, 3] ds 77) 0 20"
  have inv: "vq_inv vq [2, 3] [[0, 1]]"
    using d vq_inv_wf[OF d] by (simp add: vq_def vq_inv_def chain_recorded_def)
  have p: "vq_wf plain_vq" "vq_nentries plain_vq = 4" "u_idx (vq_used plain_vq) = 0"
      "vq_used_cons_idx plain_vq = 0"
    using vq_inv_wf[OF plain_vq_inv] by code_simp+
  then have "length (u_ring (vq_used plain_vq)) = 4" "length (vq_descx plain_vq) = 4"
    by (simp_all add: vq_wf_def)
  then have "\<exists>i vq'. virtqueue_get_buffer (Some vq) = Some (77, Some (20, i), Some vq') \<and>
      vq_inv vq' [0, 1, 2, 3] []"
    using virtqueue_get_buffer_inv[of vq "[2, 3]" "[]" "[0, 1]" "[]" 20] inv p
      taken_cookie[of 0 plain_vq "[0, 1]" "[2, 3]" ds 77 0]
    by (auto simp: vq_def simp del: virtqueue_get_buffer.simps)
  then show ?thesis using inv by blast
qed

text \<open>
  The code as it is built does not check for a full ring: on a queue without a free
  descriptor, adding a buffer reads the array of the control block out of its bounds at the
  end mark of the free chain; \<^verbatim>\<open>ERROR_VRING_FULL\<close> is never returned.
\<close>

lemma virtqueue_full_not_checked:
  assumes "vq_inv vq [] cs"
  shows "virtqueue_add_buffer vq sg readable writable cookie = None \<and>
    virtqueue_add_single_buffer vq cookie s wr nxt = None"
proof -
  have "vq_desc_head_idx vq = VQ_RING_DESC_CHAIN_END"
    using assms by (simp add: vq_inv_def)
  moreover have "length (vq_descx vq) \<le> 32768"
    using vq_inv_wf[OF assms] vq_wf_index(4)[of vq] by (simp add: vq_wf_def)
  then have "array_get (vq_descx vq) (unat VQ_RING_DESC_CHAIN_END) = None"
    by (simp add: VQ_RING_DESC_CHAIN_END_def)
  ultimately show ?thesis
    by (simp only: virtqueue_add_buffer_def virtqueue_add_single_buffer_def Let_def bind.simps(1)
        if_cancel simp_thms)
qed

lemma virtqueue_full_not_checked_witness:
  "\<exists>vq. vq_inv vq [] [[0, 1, 2, 3]] \<and> virtqueue_add_buffer vq plain_sg 1 0 5 = None"
proof -
  let ?sg = "plain_sg @ plain_sg"
  have m: "sg_mapped ?sg" by code_simp
  obtain ds where "vq_inv (taken plain_vq [0, 1, 2, 3] [] ds 77) [] [[0, 1, 2, 3]]"
    using add_buffer_spec[of plain_vq "[0, 1, 2, 3]" "[]" "[]" 2 2 ?sg 77] plain_vq_inv m
    by (auto simp: plain_sg_def)
  then show ?thesis
    using virtqueue_full_not_checked by blast
qed

text \<open>
  \<open>virtqueue_add_consumed_buffer\<close> takes every head index up to and including the
  number of entries, though the last of these is not the index of a descriptor; above that it
  returns \<^verbatim>\<open>ERROR_VRING_NO_BUFF\<close> and changes nothing.
\<close>

lemma virtqueue_consumed_bound:
  assumes "vq_wf vq"
  shows "virtqueue_add_consumed_buffer vq h len =
    (if unat h \<le> unat (vq_nentries vq) then Some (VQUEUE_SUCCESS, consumed vq h len)
     else Some (ERROR_VRING_NO_BUFF, vq))"
  using add_consumed_spec[OF assms, of h len]
  by (auto simp: virtqueue_add_consumed_buffer_def word_less_nat_alt)

lemma virtqueue_consumed_bound_witness:
  "virtqueue_add_consumed_buffer plain_vq 4 9 = Some (VQUEUE_SUCCESS, consumed plain_vq 4 9) \<and>
   virtqueue_add_consumed_buffer plain_vq 5 9 = Some (ERROR_VRING_NO_BUFF, plain_vq)"
proof -
  have "vq_nentries plain_vq = 4" by code_simp
  then show ?thesis
    using virtqueue_consumed_bound[OF vq_inv_wf[OF plain_vq_inv], of 4 9]
      virtqueue_consumed_bound[OF vq_inv_wf[OF plain_vq_inv], of 5 9] by simp
qed

text \<open>
  C34: a kick calls the notify function of a queue that has one exactly when the other
  side asked for it: with the event index, when that index is one of the entries queued since
  the last kick; without it, unless the no-notify bit is set. It resets the count of queued
  entries in any case.
\<close>

theorem virtqueue_kick_notifies:
  "virtqueue_kick call vq w =
     (vq\<lparr>vq_queued_cnt := 0\<rparr>,
      if vq_notify vq \<noteq> 0 \<and>
         (if vq_flags vq AND VIRTQUEUE_FLAG_EVENT_IDX \<noteq> 0
          then \<exists>k < unat (vq_queued_cnt vq).
            u_avail_event (vq_used vq) = a_idx (vq_avail vq) - vq_queued_cnt vq + of_nat k
          else u_flags (vq_used vq) AND VRING_USED_F_NO_NOTIFY = 0)
      then call (vq_notify vq) vq w else w)"
  by (auto simp: virtqueue_kick_def vq_ring_must_notify_host_def vq_ring_notify_host_def
      vring_need_event_iff Let_def)

text \<open>
  Turning callbacks on reports whether used entries are already waiting, so that
  none is missed between the last look and the callback; turning them off sets the bit that
  turning them on clears.
\<close>

lemma virtqueue_enable_reports_pending:
  assumes "vq_flags vq = 0"
  shows "\<exists>vq'. virtqueue_enable_cb vq =
      Some (if vq_used_cons_idx vq \<noteq> u_idx (vq_used vq) then 1 else 0, vq') \<and>
    a_flags (vq_avail vq') AND VRING_AVAIL_F_NO_INTERRUPT = 0 \<and>
    (\<exists>vq''. virtqueue_disable_cb vq' = Some vq'' \<and>
       a_flags (vq_avail vq'') AND VRING_AVAIL_F_NO_INTERRUPT \<noteq> 0)"
  using nused_pos[of "upd_avail ((vq_avail vq)\<lparr>a_flags := a_flags (vq_avail vq) AND NOT VRING_AVAIL_F_NO_INTERRUPT\<rparr>) vq"]
  by (simp add: virtqueue_enable_cb_def vq_ring_enable_interrupt_def virtqueue_disable_cb_def assms
      no_interrupt_bit Let_def)

lemma virtqueue_enable_reports_pending_witness:
  "\<exists>vq'. virtqueue_enable_cb plain_vq = Some (0, vq')"
proof -
  have "vq_flags plain_vq = 0" "vq_used_cons_idx plain_vq = u_idx (vq_used plain_vq)"
    by code_simp+
  then show ?thesis
    using virtqueue_enable_reports_pending[of plain_vq] by auto
qed

end
