(* ===== verification/Virtqueue_Protocol.thy ===== *)
theory Virtqueue_Protocol
  imports Virtqueue_Inv
begin

text \<open>
  The two sides of a virtqueue over one ring. First the interface both rings share: a
  producer index that runs freely modulo \<open>2 ^ 16\<close> over a power of two of slots, and its
  consequences for the entries between a consumer's index and the producer's. Then the
  system of a driver and a device, and its refinement of a specification without indices or
  descriptors: a pool of free descriptors, a queue of submitted buffers, the buffers the
  device holds, and a queue of completed buffers.
\<close>

section \<open>Rings with free-running indices\<close>

definition in_flight :: "nat \<Rightarrow> u16 \<Rightarrow> (nat \<Rightarrow> 'e) \<Rightarrow> u16 \<Rightarrow> 'e list \<Rightarrow> bool" where
  "in_flight n pidx slot cons xs \<longleftrightarrow>
     unat (pidx - cons) = length xs \<and> (\<forall>i < length xs. slot ((unat cons + i) mod n) = xs ! i)"

lemma in_flight_Nil [simp]: "in_flight n p sl c [] \<longleftrightarrow> p = c"
  by (simp add: in_flight_def unat_eq_zero)

lemma mod_65536: "n dvd 65536 \<Longrightarrow> (x mod 65536 + i) mod n = (x + i) mod n" for n x i :: nat
  by (metis mod_add_left_eq mod_mod_cancel)

lemma mod_add_neq:
  fixes x i m n :: nat
  assumes "i < m" "m < n"
  shows "(x + i) mod n \<noteq> (x + m) mod n"
proof
  assume "(x + i) mod n = (x + m) mod n"
  then have "n dvd (x + m) - (x + i)"
    using assms by (subst (asm) eq_commute) (simp only: mod_eq_dvd_iff_nat add_le_cancel_left less_imp_le)
  then have "n dvd m - i" by simp
  then show False
    using assms by (auto dest: dvd_imp_le)
qed

lemma in_flight_consume:
  assumes "in_flight n p sl c (x # xs)" "n dvd 65536"
  shows "c \<noteq> p" "sl (unat c mod n) = x" "in_flight n p sl (c + 1) xs"
proof -
  have u: "unat (p - c) = Suc (length xs)" and s: "\<And>i. i < Suc (length xs) \<Longrightarrow>
      sl ((unat c + i) mod n) = (x # xs) ! i"
    using assms(1) by (auto simp: in_flight_def)
  show "c \<noteq> p" using u by auto
  show "sl (unat c mod n) = x" using s[of 0] by simp
  have "p - c \<noteq> 0" using u by auto
  then have "unat (p - c - 1) = length xs"
    using u by (simp add: unat_minus_one)
  moreover have "p - (c + 1) = p - c - 1" by simp
  ultimately have "unat (p - (c + 1)) = length xs" by (simp only:)
  moreover have "sl ((unat (c + 1) + i) mod n) = xs ! i" if "i < length xs" for i
    using s[of "Suc i"] that mod_65536[OF assms(2), of "Suc (unat c)" i]
    by (simp add: unat_add_1_mod)
  ultimately show "in_flight n p sl (c + 1) xs"
    by (simp add: in_flight_def)
qed

text \<open>The producer's next slot is past the entries in flight.\<close>

lemma in_flight_end:
  assumes "in_flight n p sl c xs" "n dvd 65536"
  shows "unat p mod n = (unat c + length xs) mod n"
proof -
  have "unat (c + (p - c)) = (unat c + length xs) mod 65536"
    using assms(1) by (simp only: unat_word_ariths(1) in_flight_def) simp
  then have "unat p = (unat c + length xs) mod 65536" by simp
  then show ?thesis
    using mod_65536[OF assms(2), of "unat c + length xs" 0] by simp
qed

lemma in_flight_beyond:
  assumes "in_flight n p sl c xs" "n dvd 65536" "length xs < n"
    and "\<And>j. j < n \<Longrightarrow> j \<noteq> unat p mod n \<Longrightarrow> sl' j = sl j"
  shows "in_flight n p sl' c xs"
proof -
  have "sl' ((unat c + i) mod n) = xs ! i" if "i < length xs" for i
    using assms(1,3) that mod_add_neq[OF that assms(3), of "unat c"]
    by (simp add: in_flight_end[OF assms(1,2)] assms(4) in_flight_def)
  then show ?thesis
    using assms(1) by (simp add: in_flight_def)
qed

locale idx_ring =
  fixes wf :: "'s \<Rightarrow> bool" and entries :: "'s \<Rightarrow> nat" and pidx :: "'s \<Rightarrow> u16"
    and slot :: "'s \<Rightarrow> nat \<Rightarrow> 'e" and ok :: "'s \<Rightarrow> 'e \<Rightarrow> bool" and publish :: "'s \<Rightarrow> 'e \<Rightarrow> 's"
  assumes entries_pos: "wf s \<Longrightarrow> 0 < entries s"
    and entries_dvd: "wf s \<Longrightarrow> entries s dvd 65536"
    and entries_le: "wf s \<Longrightarrow> entries s \<le> 32768"
    and wf_publish: "wf s \<Longrightarrow> ok s e \<Longrightarrow> wf (publish s e)"
    and entries_publish: "wf s \<Longrightarrow> ok s e \<Longrightarrow> entries (publish s e) = entries s"
    and prod_publish: "wf s \<Longrightarrow> ok s e \<Longrightarrow> pidx (publish s e) = pidx s + 1"
    and slot_publish: "wf s \<Longrightarrow> ok s e \<Longrightarrow> j < entries s \<Longrightarrow>
      slot (publish s e) j = (if j = unat (pidx s) mod entries s then e else slot s j)"
begin

text \<open>Publishing in a ring that is not full appends to the entries in flight.\<close>

lemma publish_in_flight:
  assumes wf: "wf s" and ok: "ok s e" and fl: "in_flight (entries s) (pidx s) (slot s) c xs"
    and room: "length xs < entries s"
  shows "in_flight (entries s) (pidx (publish s e)) (slot (publish s e)) c (xs @ [e])"
proof -
  let ?n = "entries s"
  have u: "unat (pidx s - c) = length xs"
    using fl by (simp add: in_flight_def)
  have "pidx (publish s e) - c = (pidx s - c) + 1"
    by (simp add: prod_publish[OF wf ok])
  then have len: "unat (pidx (publish s e) - c) = Suc (length xs)"
    using u room entries_le[OF wf] by (simp only: unat_add_1_mod) simp
  have p: "unat (pidx s) mod ?n = (unat c + length xs) mod ?n"
    using fl entries_dvd[OF wf] by (rule in_flight_end)
  have "slot (publish s e) ((unat c + i) mod ?n) = (xs @ [e]) ! i" if "i < Suc (length xs)" for i
  proof (cases "i = length xs")
    case True
    then show ?thesis
      using p entries_pos[OF wf] by (simp add: slot_publish[OF wf ok])
  next
    case False
    then have i: "i < length xs" using that by simp
    then have "(unat c + i) mod ?n \<noteq> (unat c + length xs) mod ?n"
      using room by (intro mod_add_neq)
    then show ?thesis
      using p i fl entries_pos[OF wf]
      by (simp add: slot_publish[OF wf ok] in_flight_def nth_append)
  qed
  then show ?thesis
    using len by (simp add: in_flight_def)
qed

end

lemma vq_wf_ring:
  "vq_wf vq \<Longrightarrow> length (a_ring (vq_avail vq)) = Suc (unat (vq_nentries vq))"
  "vq_wf vq \<Longrightarrow> length (u_ring (vq_used vq)) = unat (vq_nentries vq)"
  by (simp_all add: vq_wf_def)

interpretation avail: idx_ring vq_wf "\<lambda>vq. unat (vq_nentries vq)" "\<lambda>vq. a_idx (vq_avail vq)"
    "\<lambda>vq j. a_ring (vq_avail vq) ! j" "\<lambda>_ _. True" "\<lambda>vq h. the (vq_ring_update_avail vq h)"
  by unfold_locales
    (simp_all add: update_avail_spec vq_wf_index nth_list_update vq_wf_ring less_Suc_eq)

lemma used_publish:
  "vq_wf vq \<Longrightarrow> unat h \<le> unat (vq_nentries vq) \<Longrightarrow>
    snd (the (virtqueue_add_consumed_buffer vq h len)) = consumed vq h len"
  by (simp add: add_consumed_spec)

interpretation used: idx_ring vq_wf "\<lambda>vq. unat (vq_nentries vq)" "\<lambda>vq. u_idx (vq_used vq)"
    "\<lambda>vq j. u_ring (vq_used vq) ! j"
    "\<lambda>vq e. ucast (ucast (e_id e) :: u16) = e_id e \<and>
       unat (ucast (e_id e) :: u16) \<le> unat (vq_nentries vq)"
    "\<lambda>vq e. snd (the (virtqueue_add_consumed_buffer vq (ucast (e_id e)) (e_len e)))"
  by unfold_locales
    (simp_all add: used_publish vq_wf_index nth_list_update vq_wf_ring)

section \<open>The two sides\<close>

text \<open>
  A driver and a device, each with its own control block over the same ring: what an
  operation of one side writes to the descriptors and to the two rings, the other side sees.
  \<open>s_held\<close> is what the device has taken and not yet given back, its client's own knowledge.
\<close>

record vq_sys =
  s_drv :: virtqueue
  s_dev :: virtqueue
  s_held :: "u16 list"

definition share :: "virtqueue \<Rightarrow> virtqueue \<Rightarrow> virtqueue" where
  "share from vq = vq\<lparr>vq_ring := (vq_ring vq)
     \<lparr>v_desc := vq_desc from, v_avail := vq_avail from, v_used := vq_used from\<rparr>\<rparr>"

lemma share_simps [simp]:
  "vq_desc (share f vq) = vq_desc f" "vq_avail (share f vq) = vq_avail f"
  "vq_used (share f vq) = vq_used f" "vq_nentries (share f vq) = vq_nentries vq"
  "vq_descx (share f vq) = vq_descx vq" "vq_desc_head_idx (share f vq) = vq_desc_head_idx vq"
  "vq_free_cnt (share f vq) = vq_free_cnt vq" "vq_used_cons_idx (share f vq) = vq_used_cons_idx vq"
  "vq_available_idx (share f vq) = vq_available_idx vq" "vq_shm_io (share f vq) = vq_shm_io vq"
  "vq_flags (share f vq) = vq_flags vq" "v_num (vq_ring (share f vq)) = v_num (vq_ring vq)"
  by (simp_all add: share_def)

datatype vq_event =
    Submit "metal_sg list" int int u64
  | Take u64 u16 u32
  | Complete u16 u32
  | Reap u64 u32
  | Enable_Cb int
  | Disable_Cb
  | Kick bool

text \<open>
  The steps. Their guards are what the caller of an operation must see to, because the code
  as it is built checks none of it: a buffer has a descriptor at least, fits in the free
  ones, and has an address on both sides; a completed buffer is one the device holds. An event
  carries what the operation returns: for \<open>Enable_Cb\<close> whether there is something to get, for
  \<open>Kick\<close> whether the other side's \<^verbatim>\<open>notify\<close> was called.
\<close>

definition submit_ok :: "vq_sys \<Rightarrow> metal_sg list \<Rightarrow> int \<Rightarrow> int \<Rightarrow> bool" where
  "submit_ok s sg readable writable \<longleftrightarrow>
     0 \<le> readable \<and> 0 \<le> writable \<and> 0 < readable + writable \<and>
     readable + writable \<le> int (unat (vq_free_cnt (s_drv s))) \<and>
     readable + writable \<le> int (length sg) \<and> sg_mapped sg \<and>
     (\<forall>g \<in> set sg. metal_io_phys_to_virt (vq_shm_io (s_dev s))
        (the (metal_io_virt_to_phys (sg_io g) (sg_virt g))) \<noteq> None)"

inductive vq_step :: "vq_sys \<Rightarrow> vq_event \<Rightarrow> vq_sys \<Rightarrow> bool" where
  submit: "submit_ok s sg r w \<Longrightarrow>
    virtqueue_add_buffer (s_drv s) sg r w k = Some (VQUEUE_SUCCESS, d) \<Longrightarrow>
    vq_step s (Submit sg r w k) (s\<lparr>s_drv := d, s_dev := share d (s_dev s)\<rparr>)"
| take: "virtqueue_get_available_buffer (s_dev s) = Some (b, Some (h, len), d) \<Longrightarrow>
    vq_step s (Take b h len) (s\<lparr>s_drv := share d (s_drv s), s_dev := d, s_held := h # s_held s\<rparr>)"
| complete: "h \<in> set (s_held s) \<Longrightarrow>
    virtqueue_add_consumed_buffer (s_dev s) h len = Some (VQUEUE_SUCCESS, d) \<Longrightarrow>
    vq_step s (Complete h len)
      (s\<lparr>s_drv := share d (s_drv s), s_dev := d, s_held := remove1 h (s_held s)\<rparr>)"
| reap: "virtqueue_get_buffer (Some (s_drv s)) = Some (k, Some (len, i), Some d) \<Longrightarrow>
    vq_step s (Reap k len) (s\<lparr>s_drv := d, s_dev := share d (s_dev s)\<rparr>)"
| enable: "virtqueue_enable_cb (s_drv s) = Some (r, d) \<Longrightarrow>
    vq_step s (Enable_Cb r) (s\<lparr>s_drv := d, s_dev := share d (s_dev s)\<rparr>)"
| disable: "virtqueue_disable_cb (s_drv s) = Some d \<Longrightarrow>
    vq_step s Disable_Cb (s\<lparr>s_drv := d, s_dev := share d (s_dev s)\<rparr>)"
| kick: "virtqueue_kick (\<lambda>_ _ (n::nat). n + 1) (s_drv s) 0 = (d, n) \<Longrightarrow>
    vq_step s (Kick (n \<noteq> 0)) (s\<lparr>s_drv := d, s_dev := share d (s_dev s)\<rparr>)"

inductive_cases vq_step_elims:
  "vq_step s (Submit sg r w k) s'" "vq_step s (Take b h len) s'" "vq_step s (Complete h len) s'"
  "vq_step s (Reap k len) s'" "vq_step s (Enable_Cb r) s'" "vq_step s Disable_Cb s'" "vq_step s (Kick b) s'"

inductive vq_run :: "vq_sys \<Rightarrow> vq_event list \<Rightarrow> vq_sys \<Rightarrow> bool" where
  run_Nil: "vq_run s [] s"
| run_snoc: "vq_run s es s' \<Longrightarrow> vq_step s' e s'' \<Longrightarrow> vq_run s (es @ [e]) s''"

section \<open>The specification\<close>

text \<open>
  A buffer: the descriptors it occupies, its cookie, and its segments as the device is to see
  them (address, length, writable). The queue: the free descriptors, the submitted buffers
  in their order, the ones the device holds, and the completed ones in their order, each with
  the length the device reported.
\<close>

record vq_buf =
  b_chain :: "u16 list"
  b_cookie :: u64
  b_segs :: "(u64 \<times> u32 \<times> bool) list"

abbreviation b_head :: "vq_buf \<Rightarrow> u16" where "b_head b \<equiv> hd (b_chain b)"

record vq_abs =
  q_free :: "u16 set"
  q_pending :: "vq_buf list"
  q_held :: "vq_buf list"
  q_done :: "(vq_buf \<times> u32) list"

definition segments :: "metal_io_region \<Rightarrow> metal_sg list \<Rightarrow> int \<Rightarrow> int \<Rightarrow> (u64 \<times> u32 \<times> bool) list" where
  "segments io sg readable writable =
     map (\<lambda>j. (the (metal_io_phys_to_virt io (the (metal_io_virt_to_phys (sg_io (sg ! j)) (sg_virt (sg ! j))))),
               sg_len (sg ! j), readable \<le> int j)) [0 ..< nat (readable + writable)]"

inductive abs_step :: "metal_io_region \<Rightarrow> vq_abs \<Rightarrow> vq_event \<Rightarrow> vq_abs \<Rightarrow> bool" for io where
  a_submit: "distinct c \<Longrightarrow> set c \<subseteq> q_free a \<Longrightarrow> int (length c) = r + w \<Longrightarrow> c \<noteq> [] \<Longrightarrow>
    b = \<lparr>b_chain = c, b_cookie = k, b_segs = segments io sg r w\<rparr> \<Longrightarrow>
    abs_step io a (Submit sg r w k) (a\<lparr>q_free := q_free a - set c, q_pending := q_pending a @ [b]\<rparr>)"
| a_take: "q_pending a = b # bs \<Longrightarrow> b_segs b = (adr, len, wr) # sgs \<Longrightarrow>
    abs_step io a (Take adr (b_head b) len) (a\<lparr>q_pending := bs, q_held := b # q_held a\<rparr>)"
| a_complete: "q_held a = bs1 @ b # bs2 \<Longrightarrow>
    abs_step io a (Complete (b_head b) len)
      (a\<lparr>q_held := bs1 @ bs2, q_done := q_done a @ [(b, len)]\<rparr>)"
| a_reap: "q_done a = (b, len) # ds \<Longrightarrow>
    abs_step io a (Reap (b_cookie b) len) (a\<lparr>q_free := set (b_chain b) \<union> q_free a, q_done := ds\<rparr>)"
| a_enable: "abs_step io a (Enable_Cb (if q_done a = [] then 0 else 1)) a"
| a_disable: "abs_step io a Disable_Cb a"
| a_kick: "abs_step io a (Kick notified) a"

inductive abs_run :: "metal_io_region \<Rightarrow> vq_abs \<Rightarrow> vq_event list \<Rightarrow> vq_abs \<Rightarrow> bool" for io where
  a_Nil: "abs_run io a [] a"
| a_snoc: "abs_run io a es a' \<Longrightarrow> abs_step io a' e a'' \<Longrightarrow> abs_run io a (es @ [e]) a''"

section \<open>The relation\<close>

definition bufs :: "vq_abs \<Rightarrow> vq_buf list" where
  "bufs a = q_pending a @ q_held a @ map fst (q_done a)"

definition seg_ok :: "vring_desc list \<Rightarrow> metal_io_region \<Rightarrow> u16 \<Rightarrow> u64 \<times> u32 \<times> bool \<Rightarrow> bool" where
  "seg_ok ds io x seg \<longleftrightarrow>
     (let d = ds ! unat x; (adr, len, wr) = seg
      in metal_io_phys_to_virt io (d_addr d) = Some adr \<and> d_len d = len \<and>
         (d_flags d AND VRING_DESC_F_WRITE \<noteq> 0 \<longleftrightarrow> wr))"

definition buf_ok :: "virtqueue \<Rightarrow> metal_io_region \<Rightarrow> vq_buf \<Rightarrow> bool" where
  "buf_ok vq io b \<longleftrightarrow> list_all2 (seg_ok (vq_desc vq) io) (b_chain b) (b_segs b) \<and>
     x_cookie (vq_descx vq ! unat (b_head b)) = b_cookie b"

definition used_elem :: "vq_buf \<times> u32 \<Rightarrow> vring_used_elem" where
  "used_elem p = \<lparr>e_id = ucast (b_head (fst p)), e_len = snd p\<rparr>"

definition same_ring :: "vq_sys \<Rightarrow> bool" where
  "same_ring s \<longleftrightarrow> vq_desc (s_dev s) = vq_desc (s_drv s) \<and> vq_avail (s_dev s) = vq_avail (s_drv s) \<and>
     vq_used (s_dev s) = vq_used (s_drv s) \<and> vq_nentries (s_dev s) = vq_nentries (s_drv s)"

definition sim :: "vq_sys \<Rightarrow> vq_abs \<Rightarrow> bool" where
  "sim s a \<longleftrightarrow>
     (let drv = s_drv s; dev = s_dev s; n = unat (vq_nentries drv)
      in same_ring s \<and> vq_wf dev \<and> vq_flags drv = 0 \<and>
         (\<exists>fs. set fs = q_free a \<and> vq_inv drv fs (map b_chain (bufs a))) \<and>
         (\<forall>b \<in> set (bufs a). buf_ok drv (vq_shm_io dev) b) \<and>
         s_held s = map b_head (q_held a) \<and>
         in_flight n (a_idx (vq_avail drv)) (\<lambda>j. a_ring (vq_avail drv) ! j)
           (vq_available_idx dev) (map b_head (q_pending a)) \<and>
         in_flight n (u_idx (vq_used drv)) (\<lambda>j. u_ring (vq_used drv) ! j)
           (vq_used_cons_idx drv) (map used_elem (q_done a)))"

end
