(* ===== verification/Virtqueue_Refinement.thy ===== *)
theory Virtqueue_Refinement
  imports Virtqueue_Protocol "HOL-Library.Multiset"
begin

text \<open>
  The two sides of a virtqueue refine the specification of \<open>Virtqueue_Protocol\<close>: every step
  of an operation is the specification's step on the buffers, and where the specification
  can move the operation does not fail.
\<close>

section \<open>The invariant under the other side's writes\<close>

lemma mset_concat_cong: "mset cs = mset cs' \<Longrightarrow> mset (concat cs) = mset (concat cs')"
proof -
  assume "mset cs = mset cs'"
  then have "sum_mset (image_mset mset (mset cs)) = sum_mset (image_mset mset (mset cs'))"
    by simp
  then show ?thesis
    by (simp add: mset_concat sum_mset_sum_list[symmetric])
qed

lemma vq_inv_perm:
  assumes "vq_inv vq fs cs" "mset cs = mset cs'"
  shows "vq_inv vq fs cs'"
proof -
  have m: "mset (fs @ concat cs) = mset (fs @ concat cs')"
    using mset_concat_cong[OF assms(2)] by simp
  have "distinct (fs @ concat cs')" "set (fs @ concat cs') = set (fs @ concat cs)" "set cs' = set cs"
    using mset_eq_imp_distinct_iff[OF m] mset_eq_setD[OF m] mset_eq_setD[OF assms(2)] assms(1)
    by (auto simp only: vq_inv_def)
  then show ?thesis
    using assms(1) by (auto simp only: vq_inv_def)
qed

lemma vq_inv_cong:
  assumes "vq_inv vq fs cs" "vq_wf vq'" "vq_desc vq' = vq_desc vq" "vq_descx vq' = vq_descx vq"
    "vq_nentries vq' = vq_nentries vq" "vq_desc_head_idx vq' = vq_desc_head_idx vq"
    "vq_free_cnt vq' = vq_free_cnt vq"
  shows "vq_inv vq' fs cs"
  using assms by (simp add: vq_inv_def chain_recorded_def)

lemma vq_wf_share:
  assumes "vq_wf f" "vq_wf vq" "vq_nentries f = vq_nentries vq"
  shows "vq_wf (share f vq)"
  using assms by (simp add: vq_wf_def)

section \<open>The segments under the driver's operations\<close>

lemma buf_ok_cong:
  assumes "buf_ok vq io b" "\<And>x. x \<in> set (b_chain b) \<Longrightarrow> seg_ok (vq_desc vq') io x = seg_ok (vq_desc vq) io x"
    "x_cookie (vq_descx vq' ! unat (b_head b)) = x_cookie (vq_descx vq ! unat (b_head b))"
  shows "buf_ok vq' io b"
  using assms by (auto simp: buf_ok_def list_all2_conv_all_nth)

lemma buf_ok_same:
  assumes "vq_desc vq' = vq_desc vq" "vq_descx vq' = vq_descx vq"
  shows "buf_ok vq' io b = buf_ok vq io b"
  by (simp add: buf_ok_def assms)

lemma seg_ok_same: "ds' ! unat x = ds ! unat x \<Longrightarrow> seg_ok ds' io x = seg_ok ds io x"
  by (rule ext) (simp add: seg_ok_def)

lemma seg_ok_next: "seg_ok (ds[i := (ds ! i)\<lparr>d_next := n\<rparr>]) io x = seg_ok ds io x"
  by (rule ext, cases "i < length ds"; cases "unat x = i")
    (simp_all add: seg_ok_def Let_def list_update_beyond not_less)

lemma fill_desc_write: "d_flags (fill_desc r n i s d) AND VRING_DESC_F_WRITE \<noteq> 0 \<longleftrightarrow> r \<le> i"
  by (simp add: fill_desc_def VRING_DESC_F_NEXT_def VRING_DESC_F_WRITE_def)

lemma segments_ok:
  assumes "int (length xs) = r + w" "length xs \<le> length sg" "sg_mapped sg"
    "\<forall>g \<in> set sg. metal_io_phys_to_virt io (the (metal_io_virt_to_phys (sg_io g) (sg_virt g))) \<noteq> None"
    "\<forall>j < length xs. ds ! unat (xs ! j) =
       fill_desc r (int (length xs)) (int j) (sg ! j) (ds0 ! unat (xs ! j))"
  shows "list_all2 (seg_ok ds io) xs (segments io sg r w)"
proof -
  have n: "nat (r + w) = length xs" using assms(1) by simp
  have "seg_ok ds io (xs ! j) (segments io sg r w ! j)" if j: "j < length xs" for j
  proof -
    have d: "ds ! unat (xs ! j) = fill_desc r (int (length xs)) (int j) (sg ! j) (ds0 ! unat (xs ! j))"
      using assms(5) j by blast
    have "sg ! j \<in> set sg" using j assms(2) by (intro nth_mem) simp
    then have "metal_io_phys_to_virt io (the (metal_io_virt_to_phys (sg_io (sg ! j)) (sg_virt (sg ! j)))) \<noteq> None"
      using assms(4) by blast
    then obtain v where v:
        "metal_io_phys_to_virt io (the (metal_io_virt_to_phys (sg_io (sg ! j)) (sg_virt (sg ! j)))) = Some v"
      by blast
    have "d_addr (ds ! unat (xs ! j)) = the (metal_io_virt_to_phys (sg_io (sg ! j)) (sg_virt (sg ! j)))"
        "d_len (ds ! unat (xs ! j)) = sg_len (sg ! j)"
      by (simp_all add: d fill_desc_def)
    moreover have "d_flags (ds ! unat (xs ! j)) AND VRING_DESC_F_WRITE \<noteq> 0 \<longleftrightarrow> r \<le> int j"
      by (simp only: d fill_desc_write)
    ultimately show ?thesis
      using v j by (simp add: seg_ok_def segments_def n)
  qed
  then show ?thesis
    by (simp add: list_all2_conv_all_nth segments_def n)
qed

section \<open>Parts of the relation\<close>

lemma simD:
  assumes "sim s a"
  obtains fs where "same_ring s" "vq_wf (s_dev s)" "vq_flags (s_drv s) = 0" "set fs = q_free a"
    "vq_inv (s_drv s) fs (map b_chain (bufs a))"
    "\<forall>b \<in> set (bufs a). buf_ok (s_drv s) (vq_shm_io (s_dev s)) b"
    "s_held s = map b_head (q_held a)"
    "in_flight (unat (vq_nentries (s_drv s))) (a_idx (vq_avail (s_drv s)))
       (\<lambda>j. a_ring (vq_avail (s_drv s)) ! j) (vq_available_idx (s_dev s)) (map b_head (q_pending a))"
    "in_flight (unat (vq_nentries (s_drv s))) (u_idx (vq_used (s_drv s)))
       (\<lambda>j. u_ring (vq_used (s_drv s)) ! j) (vq_used_cons_idx (s_drv s)) (map used_elem (q_done a))"
  using assms unfolding sim_def Let_def by blast

lemma simI:
  assumes "same_ring s" "vq_wf (s_dev s)" "vq_flags (s_drv s) = 0" "set fs = q_free a"
    "vq_inv (s_drv s) fs (map b_chain (bufs a))"
    "\<And>b. b \<in> set (bufs a) \<Longrightarrow> buf_ok (s_drv s) (vq_shm_io (s_dev s)) b"
    "s_held s = map b_head (q_held a)"
    "in_flight (unat (vq_nentries (s_drv s))) (a_idx (vq_avail (s_drv s)))
       (\<lambda>j. a_ring (vq_avail (s_drv s)) ! j) (vq_available_idx (s_dev s)) (map b_head (q_pending a))"
    "in_flight (unat (vq_nentries (s_drv s))) (u_idx (vq_used (s_drv s)))
       (\<lambda>j. u_ring (vq_used (s_drv s)) ! j) (vq_used_cons_idx (s_drv s)) (map used_elem (q_done a))"
  shows "sim s a"
  using assms unfolding sim_def Let_def by blast

text \<open>What a driver's control block must keep for the device's share of the relation.\<close>

lemma sim_drv:
  assumes "same_ring s" "vq_wf (s_dev s)" "vq_wf d" "vq_nentries d = vq_nentries (s_drv s)"
  shows "same_ring (s\<lparr>s_drv := d, s_dev := share d (s_dev s)\<rparr>)" "vq_wf (share d (s_dev s))"
  using assms by (simp_all add: same_ring_def vq_wf_share)

lemma sim_dev:
  assumes "same_ring s" "vq_wf (s_drv s)" "vq_wf d" "vq_nentries d = vq_nentries (s_dev s)"
  shows "same_ring (s\<lparr>s_drv := share d (s_drv s), s_dev := d, s_held := hs\<rparr>)" "vq_wf (share d (s_drv s))"
  using assms by (simp_all add: same_ring_def vq_wf_share)

lemma bufs_length:
  assumes "vq_inv vq fs (map b_chain (bufs a))"
  shows "length fs + length (q_pending a) + length (q_held a) + length (q_done a) \<le> unat (vq_nentries vq)"
  using vq_inv_chains_le[OF assms] by (simp add: bufs_def)

section \<open>The driver's steps\<close>

lemma sim_submit:
  assumes sim: "sim s a" and ok: "submit_ok s sg r w"
  shows "\<exists>d a'. virtqueue_add_buffer (s_drv s) sg r w k = Some (VQUEUE_SUCCESS, d) \<and>
    abs_step (vq_shm_io (s_dev s)) a (Submit sg r w k) a' \<and>
    sim (s\<lparr>s_drv := d, s_dev := share d (s_dev s)\<rparr>) a'"
proof -
  let ?drv = "s_drv s" and ?io = "vq_shm_io (s_dev s)"
  obtain fs where R: "same_ring s" "vq_wf (s_dev s)" "vq_flags ?drv = 0" "set fs = q_free a"
    "vq_inv ?drv fs (map b_chain (bufs a))"
    "\<forall>b \<in> set (bufs a). buf_ok ?drv ?io b" "s_held s = map b_head (q_held a)"
    "in_flight (unat (vq_nentries ?drv)) (a_idx (vq_avail ?drv))
       (\<lambda>j. a_ring (vq_avail ?drv) ! j) (vq_available_idx (s_dev s)) (map b_head (q_pending a))"
    "in_flight (unat (vq_nentries ?drv)) (u_idx (vq_used ?drv))
       (\<lambda>j. u_ring (vq_used ?drv) ! j) (vq_used_cons_idx ?drv) (map used_elem (q_done a))"
    by (rule simD[OF sim])
  define xs ys where "xs = take (nat (r + w)) fs" and "ys = drop (nat (r + w)) fs"
  have free: "unat (vq_free_cnt ?drv) = length fs" and dfs: "distinct fs"
    using R(5) by (simp_all add: vq_inv_def)
  have fs: "fs = xs @ ys" and len: "int (length xs) = r + w" and ne: "xs \<noteq> []"
    using ok free by (auto simp: xs_def ys_def submit_ok_def)
  have inv: "vq_inv ?drv (xs @ ys) (map b_chain (bufs a))"
    using R(5) by (simp only: fs)
  have sg: "r + w = int (length xs)" "length xs \<le> length sg" "sg_mapped sg"
      "\<forall>g \<in> set sg. metal_io_phys_to_virt ?io (the (metal_io_virt_to_phys (sg_io g) (sg_virt g))) \<noteq> None"
    using ok len by (auto simp: submit_ok_def)
  obtain ds where d: "virtqueue_add_buffer ?drv sg r w k =
        Some (VQUEUE_SUCCESS, published (taken ?drv xs ys ds k) (hd xs))"
      "vq_inv (taken ?drv xs ys ds k) ys (xs # map b_chain (bufs a))"
      "length ds = length (vq_desc ?drv)" "\<forall>x. x \<notin> set xs \<longrightarrow> ds ! unat x = vq_desc ?drv ! unat x"
      "\<forall>j < length xs. ds ! unat (xs ! j) =
        fill_desc r (int (length xs)) (int j) (sg ! j) (vq_desc ?drv ! unat (xs ! j))"
    using add_buffer_spec[OF inv ne sg(1-3)] by blast
  define t where "t = taken ?drv xs ys ds k"
  define d' where "d' = published t (hd xs)"
  define b where "b = \<lparr>b_chain = xs, b_cookie = k, b_segs = segments ?io sg r w\<rparr>"
  define a' where "a' = a\<lparr>q_free := q_free a - set xs, q_pending := q_pending a @ [b]\<rparr>"
  have step: "abs_step ?io a (Submit sg r w k) a'"
    unfolding a'_def using dfs fs R(4) len ne by (intro a_submit) (auto simp: b_def)
  have heads: "hd xs \<in> set xs" using ne by simp
  have hd_lt: "unat (hd xs) < length (vq_descx ?drv)"
    using vq_inv_chain(6)[OF d(2), of xs] vq_inv_wf[OF inv] by (simp add: vq_wf_def)
  have disj: "set c \<inter> set (xs @ ys) = {}" "c \<noteq> []" if "c \<in> set (map b_chain (bufs a))" for c
    using vq_inv_chain[OF inv that] by blast+
  have old: "buf_ok d' ?io b'" if b': "b' \<in> set (bufs a)" for b'
  proof (rule buf_ok_cong[where vq = ?drv])
    show "buf_ok ?drv ?io b'" using R(6) b' by blast
    have c: "b_chain b' \<in> set (map b_chain (bufs a))" using b' by simp
    show "seg_ok (vq_desc d') ?io x = seg_ok (vq_desc ?drv) ?io x" if "x \<in> set (b_chain b')" for x
      using disj(1)[OF c] that d(4) by (intro seg_ok_same) (auto simp: d'_def t_def)
    have "b_head b' \<in> set (b_chain b')" using disj(2)[OF c] by simp
    then have "b_head b' \<noteq> hd xs" using disj(1)[OF c] heads by auto
    then show "x_cookie (vq_descx d' ! unat (b_head b')) = x_cookie (vq_descx ?drv ! unat (b_head b'))"
      by (simp add: d'_def t_def taken_cookie[OF hd_lt refl])
  qed
  have new: "buf_ok d' ?io b"
    using segments_ok[OF len sg(2-4) d(5)]
    by (simp add: buf_ok_def b_def d'_def t_def taken_cookie[OF hd_lt refl])
  have mset: "mset (xs # map b_chain (bufs a)) = mset (map b_chain (bufs a'))"
    by (simp add: a'_def b_def bufs_def)
  have inv': "vq_inv d' ys (map b_chain (bufs a'))"
    using vq_inv_perm[OF d(2) mset] by (simp add: d'_def t_def)
  have room: "length (map b_head (q_pending a)) < unat (vq_nentries ?drv)"
    using bufs_length[OF R(5)] fs ne by (cases xs) auto
  have wft: "vq_wf t" using d(2) by (simp add: t_def vq_inv_def)
  have av: "in_flight (unat (vq_nentries d')) (a_idx (vq_avail d')) (\<lambda>j. a_ring (vq_avail d') ! j)
      (vq_available_idx (s_dev s)) (map b_head (q_pending a) @ [hd xs])"
    using avail.publish_in_flight[OF wft TrueI, where e = "hd xs"] R(8) room
    by (simp add: t_def d'_def update_avail_spec[OF wft[unfolded t_def]] del: published_ring)
  have "sim (s\<lparr>s_drv := d', s_dev := share d' (s_dev s)\<rparr>) a'"
  proof (rule simI)
    show "set ys = q_free a'" using fs dfs R(4) by (auto simp: a'_def)
    show "buf_ok (s_drv (s\<lparr>s_drv := d', s_dev := share d' (s_dev s)\<rparr>))
        (vq_shm_io (s_dev (s\<lparr>s_drv := d', s_dev := share d' (s_dev s)\<rparr>))) b'" if "b' \<in> set (bufs a')" for b'
      using that old new by (auto simp: bufs_def a'_def)
    show "same_ring (s\<lparr>s_drv := d', s_dev := share d' (s_dev s)\<rparr>)"
      using sim_drv(1)[OF R(1,2)] inv' by (simp add: vq_inv_wf d'_def t_def)
    show "vq_wf (s_dev (s\<lparr>s_drv := d', s_dev := share d' (s_dev s)\<rparr>))"
      using sim_drv(2)[OF R(1,2)] inv' by (simp add: vq_inv_wf d'_def t_def)
  qed (use inv' av R(3,7,9) in \<open>simp_all add: a'_def b_def d'_def t_def\<close>)
  then show ?thesis
    using d(1) step by (auto simp: d'_def t_def)
qed

lemma distinct_middle:
  "distinct (xs @ ys @ zs) \<Longrightarrow> S \<subseteq> set xs \<union> set zs \<Longrightarrow> x \<in> set ys \<Longrightarrow> x \<notin> S"
  by auto

text \<open>What the driver gets: the first completed buffer.\<close>

lemma sim_get:
  assumes sim: "sim s a" and dn: "q_done a = (b, len) # ds"
  shows "virtqueue_get_buffer (Some (s_drv s)) = Some (b_cookie b,
      Some (len, vq_used_cons_idx (s_drv s) AND (vq_nentries (s_drv s) - 1)),
      Some (reaped (s_drv s) (b_chain b)))"
proof (rule simD[OF sim])
  let ?drv = "s_drv s"
  fix fs
  assume R: "vq_inv ?drv fs (map b_chain (bufs a))"
    "\<forall>b \<in> set (bufs a). buf_ok ?drv (vq_shm_io (s_dev s)) b"
    "in_flight (unat (vq_nentries ?drv)) (u_idx (vq_used ?drv))
       (\<lambda>j. u_ring (vq_used ?drv) ! j) (vq_used_cons_idx ?drv) (map used_elem (q_done a))"
  have bin: "b \<in> set (bufs a)" by (simp add: bufs_def dn)
  then have cin: "b_chain b \<in> set (map b_chain (bufs a))" by simp
  note cons = in_flight_consume[OF R(3)[unfolded dn list.map] vq_wf_index(3)[OF vq_inv_wf[OF R(1)]]]
  show ?thesis
    using get_buffer_spec[OF R(1) cin cons(1)] cons(2) R(2) bin
    by (simp add: used_elem_def buf_ok_def)
qed

lemma sim_reap:
  assumes sim: "sim s a" and dn: "q_done a = (b, len) # ds"
  shows "\<exists>d i a'. virtqueue_get_buffer (Some (s_drv s)) = Some (b_cookie b, Some (len, i), Some d) \<and>
    abs_step (vq_shm_io (s_dev s)) a (Reap (b_cookie b) len) a' \<and>
    sim (s\<lparr>s_drv := d, s_dev := share d (s_dev s)\<rparr>) a'"
proof -
  let ?drv = "s_drv s" and ?io = "vq_shm_io (s_dev s)"
  obtain fs where R: "same_ring s" "vq_wf (s_dev s)" "vq_flags ?drv = 0" "set fs = q_free a"
    "vq_inv ?drv fs (map b_chain (bufs a))"
    "\<forall>b \<in> set (bufs a). buf_ok ?drv ?io b" "s_held s = map b_head (q_held a)"
    "in_flight (unat (vq_nentries ?drv)) (a_idx (vq_avail ?drv))
       (\<lambda>j. a_ring (vq_avail ?drv) ! j) (vq_available_idx (s_dev s)) (map b_head (q_pending a))"
    "in_flight (unat (vq_nentries ?drv)) (u_idx (vq_used ?drv))
       (\<lambda>j. u_ring (vq_used ?drv) ! j) (vq_used_cons_idx ?drv) (map used_elem (q_done a))"
    by (rule simD[OF sim])
  have wf: "vq_wf ?drv" using R(5) by (rule vq_inv_wf)
  define bs where "bs = q_pending a @ q_held a"
  have bufs: "bufs a = bs @ b # map fst ds" by (simp add: bufs_def bs_def dn)
  have bin: "b \<in> set (bufs a)" and cin: "b_chain b \<in> set (map b_chain (bufs a))"
    by (simp_all add: bufs)
  have fl: "in_flight (unat (vq_nentries ?drv)) (u_idx (vq_used ?drv)) (\<lambda>j. u_ring (vq_used ?drv) ! j)
      (vq_used_cons_idx ?drv) (used_elem (b, len) # map used_elem ds)"
    using R(9) by (simp add: dn)
  note cons = in_flight_consume[OF fl vq_wf_index(3)[OF wf]]
  note get = sim_get[OF sim dn]
  define d where "d = reaped ?drv (b_chain b)"
  define a' where "a' = a\<lparr>q_free := set (b_chain b) \<union> q_free a, q_done := ds\<rparr>"
  have step: "abs_step ?io a (Reap (b_cookie b) len) a'"
    unfolding a'_def by (rule a_reap[OF dn])
  have bufs': "bufs a' = bs @ map fst ds" by (simp add: bufs_def a'_def bs_def)
  have inv: "vq_inv ?drv fs (map b_chain bs @ b_chain b # map b_chain (map fst ds))"
    using R(5) by (simp add: bufs)
  have inv': "vq_inv d (b_chain b @ fs) (map b_chain (bufs a'))"
    using vq_inv_reaped[OF inv] by (simp add: d_def bufs')
  have dist: "distinct (concat (map b_chain bs) @ b_chain b @ concat (map b_chain (map fst ds)))"
    using inv by (simp add: vq_inv_def)
  have old: "buf_ok d ?io b'" if b': "b' \<in> set (bufs a')" for b'
  proof (rule buf_ok_cong[where vq = ?drv])
    have b'': "b' \<in> set (bufs a)" using b' by (auto simp: bufs bufs')
    then show "buf_ok ?drv ?io b'" using R(6) by blast
    show "seg_ok (vq_desc d) ?io x = seg_ok (vq_desc ?drv) ?io x" for x
      by (simp add: d_def reaped_def given_back_def Let_def seg_ok_next)
    have "b_head b' \<in> set (b_chain b')" "b_head b \<in> set (b_chain b)"
      using vq_inv_chain(1)[OF R(5)] b'' bin by auto
    moreover have "set (b_chain b') \<subseteq> set (concat (map b_chain bs)) \<union> set (concat (map b_chain (map fst ds)))"
      using b' by (auto simp: bufs' simp del: map_map)
    ultimately have "b_head b' \<noteq> b_head b"
      using distinct_middle[OF dist] by metis
    then show "x_cookie (vq_descx d ! unat (b_head b')) = x_cookie (vq_descx ?drv ! unat (b_head b'))"
      by (simp add: d_def reaped_cookie[OF R(5) cin])
  qed
  have "sim (s\<lparr>s_drv := d, s_dev := share d (s_dev s)\<rparr>) a'"
  proof (rule simI)
    show "set (b_chain b @ fs) = q_free a'" by (simp add: a'_def R(4))
    show "same_ring (s\<lparr>s_drv := d, s_dev := share d (s_dev s)\<rparr>)"
      using sim_drv(1)[OF R(1,2) vq_inv_wf[OF inv']] by (simp add: d_def)
    show "vq_wf (s_dev (s\<lparr>s_drv := d, s_dev := share d (s_dev s)\<rparr>))"
      using sim_drv(2)[OF R(1,2) vq_inv_wf[OF inv']] by (simp add: d_def)
  qed (use inv' old R(3,7,8) cons(3) in \<open>simp_all add: a'_def d_def\<close>)
  then show ?thesis
    using get step by (auto simp: d_def)
qed

section \<open>The device's steps\<close>

lemma sim_take:
  assumes sim: "sim s a" and pd: "q_pending a = b # bs"
  shows "\<exists>adr len wr sgs d a'. b_segs b = (adr, len, wr) # sgs \<and>
    virtqueue_get_available_buffer (s_dev s) = Some (adr, Some (b_head b, len), d) \<and>
    abs_step (vq_shm_io (s_dev s)) a (Take adr (b_head b) len) a' \<and>
    sim (s\<lparr>s_drv := share d (s_drv s), s_dev := d, s_held := b_head b # s_held s\<rparr>) a'"
proof -
  let ?drv = "s_drv s" and ?dev = "s_dev s" and ?io = "vq_shm_io (s_dev s)"
  obtain fs where R: "same_ring s" "vq_wf ?dev" "vq_flags ?drv = 0" "set fs = q_free a"
    "vq_inv ?drv fs (map b_chain (bufs a))"
    "\<forall>b \<in> set (bufs a). buf_ok ?drv ?io b" "s_held s = map b_head (q_held a)"
    "in_flight (unat (vq_nentries ?drv)) (a_idx (vq_avail ?drv))
       (\<lambda>j. a_ring (vq_avail ?drv) ! j) (vq_available_idx (s_dev s)) (map b_head (q_pending a))"
    "in_flight (unat (vq_nentries ?drv)) (u_idx (vq_used ?drv))
       (\<lambda>j. u_ring (vq_used ?drv) ! j) (vq_used_cons_idx ?drv) (map used_elem (q_done a))"
    by (rule simD[OF sim])
  have wf: "vq_wf ?drv" using R(5) by (rule vq_inv_wf)
  have same: "vq_desc ?dev = vq_desc ?drv" "vq_avail ?dev = vq_avail ?drv"
      "vq_used ?dev = vq_used ?drv" "vq_nentries ?dev = vq_nentries ?drv"
    using R(1) by (auto simp: same_ring_def)
  have bin: "b \<in> set (bufs a)" and cin: "b_chain b \<in> set (map b_chain (bufs a))"
    by (simp_all add: bufs_def pd)
  note ch = vq_inv_chain[OF R(5) cin]
  have fl: "in_flight (unat (vq_nentries ?drv)) (a_idx (vq_avail ?drv)) (\<lambda>j. a_ring (vq_avail ?drv) ! j)
      (vq_available_idx ?dev) (b_head b # map b_head bs)"
    using R(8) by (simp add: pd)
  note cons = in_flight_consume[OF fl vq_wf_index(3)[OF wf]]
  have bok: "list_all2 (seg_ok (vq_desc ?drv) ?io) (b_chain b) (b_segs b)"
    using R(6) bin by (simp add: buf_ok_def)
  with ch(1) obtain adr len wr sgs where sg: "b_segs b = (adr, len, wr) # sgs"
      "seg_ok (vq_desc ?drv) ?io (b_head b) (adr, len, wr)"
    by (cases "b_chain b") (auto simp: list_all2_Cons1)
  have d: "metal_io_phys_to_virt ?io (d_addr (vq_desc ?dev ! unat (b_head b))) = Some adr"
      "d_len (vq_desc ?dev ! unat (b_head b)) = len"
    using sg(2) by (simp_all add: seg_ok_def Let_def same)
  define dev' where "dev' = ?dev\<lparr>vq_available_idx := vq_available_idx ?dev + 1\<rparr>"
  have get: "virtqueue_get_available_buffer ?dev = Some (adr, Some (b_head b, len), dev')"
    using get_available_spec[OF R(2) _ _ _ d(1)] cons(1,2) ch(6) by (simp add: dev'_def same d[unfolded same])
  define a' where "a' = a\<lparr>q_pending := bs, q_held := b # q_held a\<rparr>"
  have step: "abs_step ?io a (Take adr (b_head b) len) a'"
    unfolding a'_def by (rule a_take[OF pd sg(1)])
  have mset: "mset (map b_chain (bufs a)) = mset (map b_chain (bufs a'))"
    and bset: "set (bufs a') = set (bufs a)"
    by (auto simp: bufs_def a'_def pd)
  have sh: "vq_desc (share dev' ?drv) = vq_desc ?drv" "vq_avail (share dev' ?drv) = vq_avail ?drv"
      "vq_used (share dev' ?drv) = vq_used ?drv"
    by (simp_all add: dev'_def same)
  have wf': "vq_wf dev'" using R(2) by (simp add: dev'_def vq_wf_def)
  have ne: "vq_nentries dev' = vq_nentries ?dev" "vq_shm_io dev' = ?io"
    by (simp_all add: dev'_def)
  note wfs = sim_dev[OF R(1) wf wf' ne(1)]
  have "sim (s\<lparr>s_drv := share dev' ?drv, s_dev := dev', s_held := b_head b # s_held s\<rparr>) a'"
  proof (rule simI)
    show "same_ring (s\<lparr>s_drv := share dev' ?drv, s_dev := dev', s_held := b_head b # s_held s\<rparr>)"
      by (rule wfs)
    show "vq_inv (s_drv (s\<lparr>s_drv := share dev' ?drv, s_dev := dev', s_held := b_head b # s_held s\<rparr>))
        fs (map b_chain (bufs a'))"
      using vq_inv_cong[OF vq_inv_perm[OF R(5) mset] wfs(2)] sh by simp
    show "buf_ok (s_drv (s\<lparr>s_drv := share dev' ?drv, s_dev := dev', s_held := b_head b # s_held s\<rparr>))
        (vq_shm_io (s_dev (s\<lparr>s_drv := share dev' ?drv, s_dev := dev', s_held := b_head b # s_held s\<rparr>))) b'"
      if "b' \<in> set (bufs a')" for b'
      using that R(6) sh ne(2) by (simp add: bset buf_ok_def)
  qed (use wf' R(3,4,7,9) cons(3) sh in \<open>simp_all add: a'_def dev'_def\<close>)
  then show ?thesis
    using get step sg(1) by blast
qed

lemma sim_complete:
  assumes sim: "sim s a" and hd: "q_held a = bs1 @ b # bs2" and first: "b_head b \<notin> b_head ` set bs1"
  shows "\<exists>d a'. virtqueue_add_consumed_buffer (s_dev s) (b_head b) len = Some (VQUEUE_SUCCESS, d) \<and>
    abs_step (vq_shm_io (s_dev s)) a (Complete (b_head b) len) a' \<and>
    sim (s\<lparr>s_drv := share d (s_drv s), s_dev := d, s_held := remove1 (b_head b) (s_held s)\<rparr>) a'"
proof -
  let ?drv = "s_drv s" and ?dev = "s_dev s" and ?io = "vq_shm_io (s_dev s)"
  obtain fs where R: "same_ring s" "vq_wf ?dev" "vq_flags ?drv = 0" "set fs = q_free a"
    "vq_inv ?drv fs (map b_chain (bufs a))"
    "\<forall>b \<in> set (bufs a). buf_ok ?drv ?io b" "s_held s = map b_head (q_held a)"
    "in_flight (unat (vq_nentries ?drv)) (a_idx (vq_avail ?drv))
       (\<lambda>j. a_ring (vq_avail ?drv) ! j) (vq_available_idx (s_dev s)) (map b_head (q_pending a))"
    "in_flight (unat (vq_nentries ?drv)) (u_idx (vq_used ?drv))
       (\<lambda>j. u_ring (vq_used ?drv) ! j) (vq_used_cons_idx ?drv) (map used_elem (q_done a))"
    by (rule simD[OF sim])
  have wf: "vq_wf ?drv" using R(5) by (rule vq_inv_wf)
  have same: "vq_desc ?dev = vq_desc ?drv" "vq_avail ?dev = vq_avail ?drv"
      "vq_used ?dev = vq_used ?drv" "vq_nentries ?dev = vq_nentries ?drv"
    using R(1) by (auto simp: same_ring_def)
  have cin: "b_chain b \<in> set (map b_chain (bufs a))"
    by (simp add: bufs_def hd)
  have lt: "unat (b_head b) \<le> unat (vq_nentries ?dev)"
    using vq_inv_chain(6)[OF R(5) cin] by (simp add: same)
  define dev' where "dev' = consumed ?dev (b_head b) len"
  have add: "virtqueue_add_consumed_buffer ?dev (b_head b) len = Some (VQUEUE_SUCCESS, dev')"
    unfolding dev'_def by (rule add_consumed_spec[OF R(2) lt])
  define a' where "a' = a\<lparr>q_held := bs1 @ bs2, q_done := q_done a @ [(b, len)]\<rparr>"
  have step: "abs_step ?io a (Complete (b_head b) len) a'"
    unfolding a'_def by (rule a_complete[OF hd])
  have room: "length (map used_elem (q_done a)) < unat (vq_nentries ?dev)"
    using bufs_length[OF R(5)] by (simp add: hd same)
  have "in_flight (unat (vq_nentries ?dev)) (u_idx (vq_used ?dev)) (\<lambda>j. u_ring (vq_used ?dev) ! j)
      (vq_used_cons_idx ?drv) (map used_elem (q_done a))"
    using R(9) by (simp add: same)
  then have us: "in_flight (unat (vq_nentries ?dev)) (u_idx (vq_used dev')) (\<lambda>j. u_ring (vq_used dev') ! j)
      (vq_used_cons_idx ?drv) (map used_elem (q_done a'))"
    using used.publish_in_flight[OF R(2), where e = "used_elem (b, len)"] room lt
    by (simp add: a'_def used_elem_def used_publish[OF R(2)] dev'_def del: consumed_ring)
  have mset: "mset (map b_chain (bufs a)) = mset (map b_chain (bufs a'))"
    and bset: "set (bufs a') = set (bufs a)"
    by (auto simp: bufs_def a'_def hd)
  have sh: "vq_desc (share dev' ?drv) = vq_desc ?drv" "vq_avail (share dev' ?drv) = vq_avail ?drv"
    by (simp_all add: dev'_def same)
  have wf': "vq_wf dev'" using R(2) by (simp add: dev'_def)
  have ne: "vq_nentries dev' = vq_nentries ?dev" "vq_shm_io dev' = ?io"
    "vq_available_idx dev' = vq_available_idx ?dev"
    by (simp_all add: dev'_def)
  note wfs = sim_dev[OF R(1) wf wf' ne(1)]
  have held: "remove1 (b_head b) (s_held s) = map b_head (bs1 @ bs2)"
    using first by (simp add: R(7) hd remove1_append)
  let ?s' = "s\<lparr>s_drv := share dev' ?drv, s_dev := dev', s_held := remove1 (b_head b) (s_held s)\<rparr>"
  have "sim ?s' a'"
  proof (rule simI)
    show "same_ring ?s'" by (rule wfs)
    show "vq_inv (s_drv ?s') fs (map b_chain (bufs a'))"
      using vq_inv_cong[OF vq_inv_perm[OF R(5) mset] wfs(2)] sh by simp
    show "buf_ok (s_drv ?s') (vq_shm_io (s_dev ?s')) b'" if "b' \<in> set (bufs a')" for b'
      using that R(6) sh ne(2) by (simp add: bset buf_ok_def)
  qed (use wf' R(3,4,8) us sh ne held same in \<open>simp_all add: a'_def\<close>)
  then show ?thesis
    using add step by blast
qed

section \<open>Callbacks and kicks\<close>

text \<open>
  Without the event index the driver's callback flag is one bit of the available ring, and a
  kick clears the count of what was queued: none of it touches a buffer.
\<close>

definition flagged :: "virtqueue \<Rightarrow> u16 \<Rightarrow> virtqueue" where
  "flagged vq fl = upd_avail ((vq_avail vq)\<lparr>a_flags := fl\<rparr>) vq"

lemma cb_flagged:
  assumes "vq_flags vq = 0"
  shows "virtqueue_disable_cb vq = Some (flagged vq (a_flags (vq_avail vq) OR VRING_AVAIL_F_NO_INTERRUPT))"
    "virtqueue_enable_cb vq =
       Some (if vq_used_cons_idx vq = u_idx (vq_used vq) then 0 else 1,
         flagged vq (a_flags (vq_avail vq) AND NOT VRING_AVAIL_F_NO_INTERRUPT))"
  by (simp_all add: virtqueue_disable_cb_def virtqueue_enable_cb_def vq_ring_enable_interrupt_def
      flagged_def assms Let_def nused_pos)

lemma kick_result:
  "virtqueue_kick (\<lambda>_ _ (n::nat). n + 1) vq 0 =
     (vq\<lparr>vq_queued_cnt := 0\<rparr>, if vq_ring_must_notify_host vq \<and> vq_notify vq \<noteq> 0 then 1 else 0)"
  by (simp add: virtqueue_kick_def vq_ring_notify_host_def Let_def)

lemma sim_quiet:
  assumes sim: "sim s a" and wf: "vq_wf (s_drv s) \<Longrightarrow> vq_wf d"
    and eqs: "vq_desc d = vq_desc (s_drv s)" "vq_descx d = vq_descx (s_drv s)"
      "vq_used d = vq_used (s_drv s)" "vq_nentries d = vq_nentries (s_drv s)"
      "vq_desc_head_idx d = vq_desc_head_idx (s_drv s)" "vq_free_cnt d = vq_free_cnt (s_drv s)"
      "vq_used_cons_idx d = vq_used_cons_idx (s_drv s)" "vq_flags d = vq_flags (s_drv s)"
      "a_idx (vq_avail d) = a_idx (vq_avail (s_drv s))"
      "a_ring (vq_avail d) = a_ring (vq_avail (s_drv s))"
  shows "sim (s\<lparr>s_drv := d, s_dev := share d (s_dev s)\<rparr>) a"
proof (rule simD[OF sim])
  fix fs
  assume R: "same_ring s" "vq_wf (s_dev s)" "vq_flags (s_drv s) = 0" "set fs = q_free a"
    "vq_inv (s_drv s) fs (map b_chain (bufs a))"
    "\<forall>b \<in> set (bufs a). buf_ok (s_drv s) (vq_shm_io (s_dev s)) b" "s_held s = map b_head (q_held a)"
    "in_flight (unat (vq_nentries (s_drv s))) (a_idx (vq_avail (s_drv s)))
       (\<lambda>j. a_ring (vq_avail (s_drv s)) ! j) (vq_available_idx (s_dev s)) (map b_head (q_pending a))"
    "in_flight (unat (vq_nentries (s_drv s))) (u_idx (vq_used (s_drv s)))
       (\<lambda>j. u_ring (vq_used (s_drv s)) ! j) (vq_used_cons_idx (s_drv s)) (map used_elem (q_done a))"
  let ?s' = "s\<lparr>s_drv := d, s_dev := share d (s_dev s)\<rparr>"
  have wfd: "vq_wf d" using wf vq_inv_wf[OF R(5)] by blast
  note wfs = sim_drv[OF R(1,2) wfd eqs(4)]
  show "sim ?s' a"
  proof (rule simI)
    show "same_ring ?s'" "vq_wf (s_dev ?s')" using wfs by simp_all
    show "vq_inv (s_drv ?s') fs (map b_chain (bufs a))"
      using vq_inv_cong[OF R(5) wfd] eqs by simp
    show "buf_ok (s_drv ?s') (vq_shm_io (s_dev ?s')) b'" if "b' \<in> set (bufs a)" for b'
      using that R(6) buf_ok_same[OF eqs(1,2)] by simp
  qed (use R eqs in simp_all)
qed

section \<open>The simulation\<close>

lemma vq_step_io: "vq_step s e s' \<Longrightarrow> vq_shm_io (s_dev s') = vq_shm_io (s_dev s)"
  by (induction rule: vq_step.induct)
    (auto simp: virtqueue_get_available_buffer_def virtqueue_add_consumed_buffer_def Let_def
      split: if_splits bind_splits)

lemma sim_pending:
  assumes "sim s a" "virtqueue_get_available_buffer (s_dev s) = Some (b, Some r, d)"
  shows "q_pending a \<noteq> []"
proof
  assume "q_pending a = []"
  then have "vq_available_idx (s_dev s) = a_idx (vq_avail (s_dev s))"
    using assms(1) by (auto elim!: simD simp: same_ring_def)
  then show False
    using assms(2) by (simp add: virtqueue_get_available_buffer_def)
qed

lemma sim_done:
  assumes "sim s a" "virtqueue_get_buffer (Some (s_drv s)) = Some (k, Some r, d)"
  shows "q_done a \<noteq> []"
proof
  assume "q_done a = []"
  then have "vq_used_cons_idx (s_drv s) = u_idx (vq_used (s_drv s))"
    using assms(1) by (auto elim!: simD)
  then show False
    using assms(2) by simp
qed

lemma sim_nothing_done:
  assumes "sim s a"
  shows "vq_used_cons_idx (s_drv s) = u_idx (vq_used (s_drv s)) \<longleftrightarrow> q_done a = []"
proof (rule simD[OF assms])
  assume "in_flight (unat (vq_nentries (s_drv s))) (u_idx (vq_used (s_drv s)))
    (\<lambda>j. u_ring (vq_used (s_drv s)) ! j) (vq_used_cons_idx (s_drv s)) (map used_elem (q_done a))"
  then have "unat (u_idx (vq_used (s_drv s)) - vq_used_cons_idx (s_drv s)) = length (q_done a)"
    by (simp add: in_flight_def)
  then have "u_idx (vq_used (s_drv s)) - vq_used_cons_idx (s_drv s) = 0 \<longleftrightarrow> q_done a = []"
    by (metis length_0_conv unat_eq_0)
  then show ?thesis by auto
qed

lemma sim_step:
  assumes sim: "sim s a" and step: "vq_step s e s'"
  shows "\<exists>a'. abs_step (vq_shm_io (s_dev s)) a e a' \<and> sim s' a'"
  using step
proof cases
  case (submit sg r w k d)
  then show ?thesis using sim_submit[OF sim, of sg r w k] by auto
next
  case (take b h len d)
  then obtain bf bs where "q_pending a = bf # bs"
    using sim_pending[OF sim] by (cases "q_pending a") auto
  from sim_take[OF sim this] take show ?thesis by auto
next
  case (complete h len d)
  then have "h \<in> b_head ` set (q_held a)"
    using sim by (auto elim!: simD)
  then have "\<exists>b \<in> set (q_held a). b_head b = h" by auto
  from split_list_first_prop[OF this] obtain bs1 b bs2 where
      b: "q_held a = bs1 @ b # bs2" "b_head b = h" "\<forall>y \<in> set bs1. b_head y \<noteq> h"
    by auto
  then have "b_head b \<notin> b_head ` set bs1" by auto
  with sim_complete[OF sim b(1), of len] b(2) complete show ?thesis by auto
next
  case (reap k len i d)
  then obtain b l ds where "q_done a = (b, l) # ds"
    using sim_done[OF sim] by (cases "q_done a") auto
  from sim_reap[OF sim this] reap show ?thesis by auto
next
  case (enable r d)
  have "vq_flags (s_drv s) = 0" using sim by (auto elim!: simD)
  then have d: "d = flagged (s_drv s) (a_flags (vq_avail (s_drv s)) AND NOT VRING_AVAIL_F_NO_INTERRUPT)"
      and r: "r = (if q_done a = [] then 0 else 1)"
    using enable cb_flagged(2)[of "s_drv s"] by (simp_all add: sim_nothing_done[OF sim])
  have "sim s' a"
    unfolding enable by (rule sim_quiet[OF sim]) (simp_all add: d flagged_def vq_wf_def)
  then show ?thesis using enable(1) a_enable r by metis
next
  case (disable d)
  have "vq_flags (s_drv s) = 0" using sim by (auto elim!: simD)
  then have d: "d = flagged (s_drv s) (a_flags (vq_avail (s_drv s)) OR VRING_AVAIL_F_NO_INTERRUPT)"
    using disable cb_flagged(1)[of "s_drv s"] by auto
  have "sim s' a"
    unfolding disable by (rule sim_quiet[OF sim]) (simp_all add: d flagged_def vq_wf_def)
  then show ?thesis using disable a_disable by blast
next
  case (kick d n)
  have d: "d = s_drv s\<lparr>vq_queued_cnt := 0\<rparr>"
    using kick by (simp add: virtqueue_kick_def Let_def)
  have "sim s' a"
    unfolding kick by (rule sim_quiet[OF sim]) (simp_all add: d vq_wf_def)
  then show ?thesis using kick a_kick by blast
qed

lemma vq_run_io: "vq_run s es s' \<Longrightarrow> vq_shm_io (s_dev s') = vq_shm_io (s_dev s)"
  by (induction rule: vq_run.induct) (simp_all add: vq_step_io)

lemma sim_run:
  assumes "vq_run s es s'" "sim s a"
  shows "\<exists>a'. abs_run (vq_shm_io (s_dev s)) a es a' \<and> sim s' a'"
  using assms
proof (induction rule: vq_run.induct)
  case (run_Nil s)
  then show ?case using a_Nil by blast
next
  case (run_snoc s es s' e s'')
  then obtain a' where a': "abs_run (vq_shm_io (s_dev s)) a es a'" "sim s' a'"
    by blast
  obtain a'' where "abs_step (vq_shm_io (s_dev s')) a' e a''" "sim s'' a''"
    using sim_step[OF a'(2) run_snoc.hyps(2)] by blast
  then show ?case
    using a' vq_run_io[OF run_snoc.hyps(1)] a_snoc by metis
qed

end
