(* ===== verification/Virtqueue_Trace.thy ===== *)
theory Virtqueue_Trace
  imports Virtqueue_Refinement
begin

text \<open>
  Runs of a virtqueue from its creation: what the refinement gives for the sequence of the
  operations' results, and that no operation the callers may make fails.
\<close>

section \<open>Creating the two sides\<close>

text \<open>Both sides create their control block over the same memory, the driver first.\<close>

definition vq_sys_create ::
    "addr \<Rightarrow> u16 \<Rightarrow> string \<Rightarrow> vring_alloc_info \<Rightarrow> vring_alloc_info \<Rightarrow> addr \<Rightarrow> addr \<Rightarrow>
     metal_io_region \<Rightarrow> metal_io_region \<Rightarrow> vring \<Rightarrow> vq_sys option" where
  "vq_sys_create dev qid name ring ring' cb nf io io' mem =
     Option.bind (virtqueue_create dev qid name ring cb nf io mem True) (\<lambda>(r, drv).
     Option.bind drv (\<lambda>drv.
     Option.bind (virtqueue_create dev qid name ring' cb nf io' (vq_ring drv) True) (\<lambda>(r', dv).
     Option.bind dv (\<lambda>dv.
       Some \<lparr>s_drv = share dv drv, s_dev = dv, s_held = []\<rparr>))))"

definition abs_init :: "nat \<Rightarrow> vq_abs" where
  "abs_init n = \<lparr>q_free = set (map of_nat [0 ..< n]), q_pending = [], q_held = [], q_done = []\<rparr>"

definition fresh_mem :: "vring \<Rightarrow> nat \<Rightarrow> bool" where
  "fresh_mem mem n \<longleftrightarrow> ring_mem_ok mem n \<and> a_idx (v_avail mem) = 0 \<and> u_idx (v_used mem) = 0"

lemma create_mem_ok:
  assumes "vq_inv vq fs cs" "unat (vq_nentries vq) = n"
  shows "ring_mem_ok (vq_ring vq) n"
  using assms by (simp add: ring_mem_ok_def vq_inv_def vq_wf_def)

lemma sys_create_spec:
  assumes n: "ai_num_descs ring = 2 ^ k" "ai_num_descs ring' = 2 ^ k" "k \<le> 15"
    and mem: "fresh_mem mem (2 ^ k)"
  shows "\<exists>s. vq_sys_create dev qid name ring ring' cb nf io io' mem = Some s \<and>
    sim s (abs_init (2 ^ k)) \<and> vq_shm_io (s_dev s) = io' \<and> vq_nentries (s_drv s) = 2 ^ k"
proof -
  have m: "ring_mem_ok mem (2 ^ k)" "a_idx (v_avail mem) = 0" "u_idx (v_used mem) = 0"
    using mem by (simp_all add: fresh_mem_def)
  obtain drv where d: "virtqueue_create dev qid name ring cb nf io mem True = Some (VQUEUE_SUCCESS, Some drv)"
      "vq_inv drv (map of_nat [0 ..< 2 ^ k]) []" "vq_nentries drv = 2 ^ k"
      "vq_avail drv = (v_avail mem)\<lparr>a_flags := a_flags (v_avail mem) OR VRING_AVAIL_F_NO_INTERRUPT\<rparr>"
      "vq_used drv = v_used mem" "vq_flags drv = 0" "vq_used_cons_idx drv = 0"
    using create_spec[OF n(1,3) m(1)] by blast
  have un: "unat (2 ^ k :: u16) = 2 ^ k"
    using n(3) unat_2_power[of k, where 'a = 16] by simp
  have m': "ring_mem_ok (vq_ring drv) (2 ^ k)"
    using create_mem_ok[OF d(2)] by (simp add: d(3) un)
  obtain dv where v: "virtqueue_create dev qid name ring' cb nf io' (vq_ring drv) True =
        Some (VQUEUE_SUCCESS, Some dv)"
      "vq_inv dv (map of_nat [0 ..< 2 ^ k]) []" "vq_nentries dv = 2 ^ k" "vq_shm_io dv = io'"
      "vq_avail dv = (vq_avail drv)\<lparr>a_flags := a_flags (vq_avail drv) OR VRING_AVAIL_F_NO_INTERRUPT\<rparr>"
      "vq_used dv = vq_used drv" "vq_available_idx dv = 0"
    using create_spec[OF n(2,3) m'] by blast
  let ?s = "\<lparr>s_drv = share dv drv, s_dev = dv, s_held = []\<rparr>"
  have wf: "vq_wf dv" "vq_wf (share dv drv)"
    using v(2) d(2) by (simp_all add: vq_inv_wf vq_wf_share d(3) v(3))
  have heads: "vq_desc_head_idx drv = vq_desc_head_idx dv"
    using free_list_head d(2) v(2) by (metis vq_inv_def)
  have inv: "vq_inv (share dv drv) (map of_nat [0 ..< 2 ^ k]) []"
    using d(2) v(2) wf(2) by (simp add: vq_inv_def d(3) v(3) heads)
  have "sim ?s (abs_init (2 ^ k))"
    by (rule simI[where fs = "map of_nat [0 ..< 2 ^ k]"])
      (use inv wf d v m in \<open>simp_all add: abs_init_def bufs_def same_ring_def\<close>)
  then show ?thesis
    by (simp add: vq_sys_create_def d(1) v(1,4) d(3))
qed

section \<open>Executing a run\<close>

text \<open>The steps as a function, for evaluation.\<close>

fun exec_step :: "vq_sys \<Rightarrow> vq_event \<Rightarrow> vq_sys option" where
  "exec_step s (Submit sg r w k) =
     (if submit_ok s sg r w
      then Option.bind (virtqueue_add_buffer (s_drv s) sg r w k) (\<lambda>(rc, d).
             if rc = VQUEUE_SUCCESS then Some (s\<lparr>s_drv := d, s_dev := share d (s_dev s)\<rparr>) else None)
      else None)"
| "exec_step s (Take b h len) =
     Option.bind (virtqueue_get_available_buffer (s_dev s)) (\<lambda>(b', r, d).
       if b' = b \<and> r = Some (h, len)
       then Some (s\<lparr>s_drv := share d (s_drv s), s_dev := d, s_held := h # s_held s\<rparr>) else None)"
| "exec_step s (Complete h len) =
     (if h \<in> set (s_held s)
      then Option.bind (virtqueue_add_consumed_buffer (s_dev s) h len) (\<lambda>(rc, d).
             if rc = VQUEUE_SUCCESS
             then Some (s\<lparr>s_drv := share d (s_drv s), s_dev := d, s_held := remove1 h (s_held s)\<rparr>)
             else None)
      else None)"
| "exec_step s (Reap k len) =
     Option.bind (virtqueue_get_buffer (Some (s_drv s))) (\<lambda>(k', r, d).
       case (r, d) of
         (Some (len', i), Some d') \<Rightarrow>
           if k' = k \<and> len' = len then Some (s\<lparr>s_drv := d', s_dev := share d' (s_dev s)\<rparr>) else None
       | _ \<Rightarrow> None)"
| "exec_step s (Enable_Cb r') =
     Option.bind (virtqueue_enable_cb (s_drv s)) (\<lambda>(r, d).
       if r = r' then Some (s\<lparr>s_drv := d, s_dev := share d (s_dev s)\<rparr>) else None)"
| "exec_step s Disable_Cb =
     Option.bind (virtqueue_disable_cb (s_drv s)) (\<lambda>d. Some (s\<lparr>s_drv := d, s_dev := share d (s_dev s)\<rparr>))"
| "exec_step s (Kick notified) =
     (let (d, n) = virtqueue_kick (\<lambda>_ _ (n::nat). n + 1) (s_drv s) 0
      in if notified = (n \<noteq> 0) then Some (s\<lparr>s_drv := d, s_dev := share d (s_dev s)\<rparr>) else None)"

lemma exec_step: "exec_step s e = Some s' \<Longrightarrow> vq_step s e s'"
proof (induction s e rule: exec_step.induct)
  case (4 s k len)
  then obtain i d where "virtqueue_get_buffer (Some (s_drv s)) = Some (k, Some (len, i), Some d)"
      "s' = s\<lparr>s_drv := d, s_dev := share d (s_dev s)\<rparr>"
    by (auto simp del: virtqueue_get_buffer.simps split: if_splits bind_splits option.splits)
  then show ?case by (simp only: reap)
next
  case (7 s notified)
  obtain d n where k: "virtqueue_kick (\<lambda>_ _ (n::nat). n + 1) (s_drv s) 0 = (d, n)"
    by (rule prod.exhaust)
  from 7 show ?case
    using kick[OF k] by (simp only: exec_step.simps k Let_def split_conv option.inject option.distinct split: if_splits)
qed (auto simp del: virtqueue_get_buffer.simps split: if_splits bind_splits option.splits
    intro: vq_step.intros)

fun exec_run :: "vq_sys \<Rightarrow> vq_event list \<Rightarrow> vq_sys option" where
  "exec_run s [] = Some s"
| "exec_run s (e # es) = Option.bind (exec_step s e) (\<lambda>s'. exec_run s' es)"

lemma vq_run_Cons: "vq_step s e s' \<Longrightarrow> vq_run s' es s'' \<Longrightarrow> vq_run s (e # es) s''"
  by (rotate_tac, induction rule: vq_run.induct)
    (auto intro: vq_run.intros run_snoc[where es = "[]", simplified] run_snoc[where es = "e # es" for es, simplified])

lemma exec_run: "exec_run s es = Some s' \<Longrightarrow> vq_run s es s'"
  by (induction s es rule: exec_run.induct)
    (auto intro: run_Nil vq_run_Cons exec_step split: bind_splits)

section \<open>What a run does\<close>

text \<open>The results of a run's operations, each kind in its order.\<close>

fun submitted :: "metal_io_region \<Rightarrow> vq_event list \<Rightarrow> (u64 \<times> u64 \<times> u32) list" where
  "submitted io [] = []"
| "submitted io (Submit sg r w k # es) =
     (let (adr, len, _) = hd (segments io sg r w) in (k, adr, len)) # submitted io es"
| "submitted io (_ # es) = submitted io es"

fun taken_by_dev :: "vq_event list \<Rightarrow> (u64 \<times> u32) list" where
  "taken_by_dev [] = []"
| "taken_by_dev (Take adr h len # es) = (adr, len) # taken_by_dev es"
| "taken_by_dev (_ # es) = taken_by_dev es"

fun completed :: "vq_event list \<Rightarrow> u32 list" where
  "completed [] = []"
| "completed (Complete h len # es) = len # completed es"
| "completed (_ # es) = completed es"

fun reaped_by_drv :: "vq_event list \<Rightarrow> (u64 \<times> u32) list" where
  "reaped_by_drv [] = []"
| "reaped_by_drv (Reap k len # es) = (k, len) # reaped_by_drv es"
| "reaped_by_drv (_ # es) = reaped_by_drv es"

lemma submitted_append: "submitted io (es @ es') = submitted io es @ submitted io es'"
  by (induction io es rule: submitted.induct) (simp_all add: Let_def split: prod.split)

lemma taken_append: "taken_by_dev (es @ es') = taken_by_dev es @ taken_by_dev es'"
  by (induction es rule: taken_by_dev.induct) simp_all

lemma completed_append: "completed (es @ es') = completed es @ completed es'"
  by (induction es rule: completed.induct) simp_all

lemma reaped_append: "reaped_by_drv (es @ es') = reaped_by_drv es @ reaped_by_drv es'"
  by (induction es rule: reaped_by_drv.induct) simp_all

lemmas trace_append = submitted_append taken_append completed_append reaped_append

definition first_seg :: "vq_buf \<Rightarrow> u64 \<times> u32" where
  "first_seg b = (let (adr, len, _) = hd (b_segs b) in (adr, len))"

text \<open>The history of the specification: what went in is what came out and what is inside.\<close>

lemma abs_run_history:
  assumes "abs_run io a es a'" "q_pending a = []" "q_held a = []" "q_done a = []"
  shows "taken_by_dev es @ map first_seg (q_pending a') = map snd (submitted io es)"
    "map snd (reaped_by_drv es) @ map snd (q_done a') = completed es"
    "mset (map fst (reaped_by_drv es)) + mset (map b_cookie (bufs a')) = mset (map fst (submitted io es))"
  using assms
proof (induction rule: abs_run.induct)
  case (a_snoc a es a' e a'')
  {
    case 1
    note IH = a_snoc.IH(1)[OF 1]
    from a_snoc.hyps(2) IH show ?case
      by (cases rule: abs_step.cases) (auto simp: trace_append first_seg_def Let_def split: prod.splits)
  next
    case 2
    note IH = a_snoc.IH(2)[OF 2]
    from a_snoc.hyps(2) IH show ?case
      by (cases rule: abs_step.cases) (auto simp: trace_append)
  next
    case 3
    note IH = a_snoc.IH(3)[OF 3]
    from a_snoc.hyps(2) IH show ?case
      by (cases rule: abs_step.cases) (auto simp: trace_append bufs_def Let_def ac_simps split: prod.splits)
  }
qed (simp_all add: bufs_def)

section \<open>Runs from creation\<close>

lemma vq_inv_counts:
  "vq_inv vq fs cs \<Longrightarrow> unat (vq_free_cnt vq) + length (concat cs) = unat (vq_nentries vq)"
  using vq_inv_total[of vq fs cs] by (simp add: vq_inv_def)

lemma sim_held_head:
  assumes "sim s a" "h \<in> set (s_held s)"
  shows "unat h \<le> unat (vq_nentries (s_dev s)) \<and> vq_wf (s_dev s)"
proof (rule simD[OF assms(1)])
  fix fs
  assume R: "same_ring s" "vq_wf (s_dev s)" "vq_inv (s_drv s) fs (map b_chain (bufs a))"
    "s_held s = map b_head (q_held a)"
  obtain b where b: "b \<in> set (q_held a)" "b_head b = h"
    using assms(2) R(4) by auto
  then have "b_chain b \<in> set (map b_chain (bufs a))" by (simp add: bufs_def)
  from vq_inv_chain(6)[OF R(3) this] show ?thesis
    using b R(1,2) by (simp add: same_ring_def)
qed

lemma abs_run_prefix:
  assumes "abs_run io (abs_init n) es a"
  shows "taken_by_dev es @ map first_seg (q_pending a) = map snd (submitted io es)"
    "map snd (reaped_by_drv es) @ map snd (q_done a) = completed es"
    "mset (map fst (reaped_by_drv es)) + mset (map b_cookie (bufs a)) = mset (map fst (submitted io es))"
  using abs_run_history[OF assms] by (simp_all add: abs_init_def)

lemma created_run:
  assumes "vq_sys_create dev qid name ring ring' cb nf io io' mem = Some s0"
    "ai_num_descs ring = 2 ^ k" "ai_num_descs ring' = 2 ^ k" "k \<le> 15" "fresh_mem mem (2 ^ k)"
    "vq_run s0 es s"
  shows "\<exists>a. abs_run io' (abs_init (2 ^ k)) es a \<and> sim s a"
proof -
  have "sim s0 (abs_init (2 ^ k))" "vq_shm_io (s_dev s0) = io'"
    using sys_create_spec[OF assms(2-5), of dev qid name cb nf io io'] assms(1) by auto
  then show ?thesis using sim_run[OF assms(6)] by metis
qed

lemma available_defined:
  assumes "sim s a"
  shows "virtqueue_get_available_buffer (s_dev s) \<noteq> None"
proof (cases "q_pending a")
  case Nil
  then have "vq_available_idx (s_dev s) = a_idx (vq_avail (s_dev s))"
    using assms by (auto elim!: simD simp: same_ring_def)
  then show ?thesis by (simp add: virtqueue_get_available_buffer_def)
qed (use sim_take[OF assms] in blast)

text \<open>
  One run, evaluated: a ring of four descriptors, a shared page, two buffers submitted, the
  first of them (of two segments) completed and reaped.
\<close>

definition run_io :: metal_io_region where
  "run_io = \<lparr>io_virt = 4096, io_physmap = Some [65536], io_size = 4096, io_page_shift = 12,
     io_page_mask = 4095, io_mem_flags = 0\<rparr>"

definition run_sg :: "metal_sg list" where
  "run_sg = [\<lparr>sg_virt = 4112, sg_io = run_io, sg_len = 64\<rparr>, \<lparr>sg_virt = 4352, sg_io = run_io, sg_len = 32\<rparr>]"

definition run_alloc :: vring_alloc_info where
  "run_alloc = \<lparr>ai_vaddr = 8192, ai_align = 16, ai_num_descs = 4, ai_pad = 0\<rparr>"

definition run_mem :: vring where
  "run_mem = \<lparr>v_num = 0, v_desc_at = 0, v_avail_at = 0, v_used_at = 0,
    v_desc = replicate 4 \<lparr>d_addr = 0, d_len = 0, d_flags = 0, d_next = 0\<rparr>,
    v_avail = \<lparr>a_flags = 0, a_idx = 0, a_ring = replicate 5 0\<rparr>,
    v_used = \<lparr>u_flags = 0, u_idx = 0, u_ring = replicate 4 \<lparr>e_id = 0, e_len = 0\<rparr>, u_avail_event = 0\<rparr>\<rparr>"

definition run_start :: vq_sys where
  "run_start = the (vq_sys_create 1 0 ''rx'' run_alloc run_alloc 0 1 run_io run_io run_mem)"

definition run_events :: "vq_event list" where
  "run_events = [Submit run_sg 1 1 77, Kick True, Take 4112 0 64, Submit run_sg 0 1 78, Complete 0 20,
     Enable_Cb 1, Take 4112 2 64, Reap 77 20, Enable_Cb 0]"

lemma run_facts:
  "vq_sys_create 1 0 ''rx'' run_alloc run_alloc 0 1 run_io run_io run_mem = Some run_start"
  "ai_num_descs run_alloc = 2 ^ 2" "fresh_mem run_mem (2 ^ 2)"
  "vq_run run_start run_events (the (exec_run run_start run_events))"
proof -
  have "vq_sys_create 1 0 ''rx'' run_alloc run_alloc 0 1 run_io run_io run_mem \<noteq> None"
    by code_simp
  then show "vq_sys_create 1 0 ''rx'' run_alloc run_alloc 0 1 run_io run_io run_mem = Some run_start"
    by (simp add: run_start_def)
  show "ai_num_descs run_alloc = 2 ^ 2" "fresh_mem run_mem (2 ^ 2)"
    by (simp_all add: run_alloc_def fresh_mem_def ring_mem_ok_def run_mem_def)
  have "exec_run run_start run_events \<noteq> None" by code_simp
  then show "vq_run run_start run_events (the (exec_run run_start run_events))"
    by (intro exec_run) simp
qed

section \<open>Properties\<close>

text \<open>
  C1: a virtqueue created over fresh ring memory and driven from both sides in any
  order of operations refines the specification of buffers: every run of the system is a run
  of the specification with the same events (the addresses and lengths the device is given,
  the cookies and lengths the driver gets back), and the two end in related states.
\<close>

theorem virtqueue_refines:
  assumes "vq_sys_create dev qid name ring ring' cb nf io io' mem = Some s0"
    and "ai_num_descs ring = 2 ^ k" "ai_num_descs ring' = 2 ^ k" "k \<le> 15" "fresh_mem mem (2 ^ k)"
    and "vq_run s0 es s"
  shows "\<exists>a. abs_run io' (abs_init (2 ^ k)) es a \<and> sim s a"
  using created_run[OF assms] .

theorem virtqueue_refines_witness:
  "\<exists>a. abs_run run_io (abs_init (2 ^ 2)) run_events a \<and> sim (the (exec_run run_start run_events)) a"
  using virtqueue_refines[OF run_facts(1,2,2) _ run_facts(3,4)] by simp

text \<open>
  C2: in every run the device is given the buffers in the order they were submitted,
  each with the address and length of its first segment; the driver gets completions back in
  the order the device reported them, with the lengths it reported; and every cookie the
  driver gets back is one it submitted, each at most as often as it was submitted.
\<close>

theorem virtqueue_order:
  assumes "vq_sys_create dev qid name ring ring' cb nf io io' mem = Some s0"
    and "ai_num_descs ring = 2 ^ k" "ai_num_descs ring' = 2 ^ k" "k \<le> 15" "fresh_mem mem (2 ^ k)"
    and "vq_run s0 es s"
  shows "(\<exists>rest. map snd (submitted io' es) = taken_by_dev es @ rest) \<and>
    (\<exists>rest. completed es = map snd (reaped_by_drv es) @ rest) \<and>
    mset (map fst (reaped_by_drv es)) \<subseteq># mset (map fst (submitted io' es))"
proof -
  obtain a where "abs_run io' (abs_init (2 ^ k)) es a"
    using created_run[OF assms] by blast
  note hist = abs_run_prefix[OF this]
  show ?thesis
    by (simp only: hist[symmetric] mset_subset_eq_add_left) blast
qed

theorem virtqueue_order_witness:
  "(\<exists>rest. map snd (submitted run_io run_events) = taken_by_dev run_events @ rest) \<and>
   (\<exists>rest. completed run_events = map snd (reaped_by_drv run_events) @ rest) \<and>
   mset (map fst (reaped_by_drv run_events)) \<subseteq># mset (map fst (submitted run_io run_events))"
  by (rule virtqueue_order[OF run_facts(1,2,2) _ run_facts(3,4)]) simp

text \<open>
  C7: in every state a run reaches, no operation a side may make fails: a buffer that
  fits in the free descriptors is accepted, looking for an available buffer, looking for a
  used one and giving back a buffer the device holds are all defined.
\<close>

theorem virtqueue_progress:
  assumes "vq_sys_create dev qid name ring ring' cb nf io io' mem = Some s0"
    and "ai_num_descs ring = 2 ^ k" "ai_num_descs ring' = 2 ^ k" "k \<le> 15" "fresh_mem mem (2 ^ k)"
    and "vq_run s0 es s"
  shows "(submit_ok s sg r w \<longrightarrow> (\<exists>d. virtqueue_add_buffer (s_drv s) sg r w c = Some (VQUEUE_SUCCESS, d))) \<and>
    virtqueue_get_available_buffer (s_dev s) \<noteq> None \<and>
    virtqueue_get_buffer (Some (s_drv s)) \<noteq> None \<and>
    (h \<in> set (s_held s) \<longrightarrow>
      (\<exists>d. virtqueue_add_consumed_buffer (s_dev s) h len = Some (VQUEUE_SUCCESS, d)))"
proof -
  obtain a where sim: "sim s a"
    using created_run[OF assms] by blast
  note av = available_defined[OF sim]
  have us: "virtqueue_get_buffer (Some (s_drv s)) \<noteq> None"
  proof (cases "q_done a")
    case Nil
    then have "vq_used_cons_idx (s_drv s) = u_idx (vq_used (s_drv s))"
      using sim by (auto elim!: simD)
    then show ?thesis by (simp add: get_buffer_empty)
  next
    case (Cons d ds)
    then show ?thesis using sim_reap[OF sim, of "fst d" "snd d" ds] by fastforce
  qed
  have "\<exists>d. virtqueue_add_consumed_buffer (s_dev s) h len = Some (VQUEUE_SUCCESS, d)"
    if "h \<in> set (s_held s)"
    using sim_held_head[OF sim that] add_consumed_spec simD[OF sim] by metis
  then show ?thesis
    using av us sim_submit[OF sim] by blast
qed

theorem virtqueue_progress_witness:
  "submit_ok run_start run_sg 1 1 \<and>
   (\<exists>d. virtqueue_add_buffer (s_drv run_start) run_sg 1 1 5 = Some (VQUEUE_SUCCESS, d)) \<and>
   virtqueue_get_available_buffer (s_dev run_start) \<noteq> None"
proof -
  have ok: "submit_ok run_start run_sg 1 1" by code_simp
  show ?thesis
    using virtqueue_progress[OF run_facts(1,2,2) _ run_facts(3) run_Nil, of run_sg 1 1 5] ok by simp
qed

text \<open>
  C8: no descriptor is lost: in every state a run reaches, the free descriptors the
  driver counts and the descriptors of the buffers in flight are all the descriptors of the
  ring, and when as many buffers were reaped as submitted, every descriptor is free again.
\<close>

theorem virtqueue_no_leak:
  assumes "vq_sys_create dev qid name ring ring' cb nf io io' mem = Some s0"
    and "ai_num_descs ring = 2 ^ k" "ai_num_descs ring' = 2 ^ k" "k \<le> 15" "fresh_mem mem (2 ^ k)"
    and "vq_run s0 es s"
  shows "\<exists>a. abs_run io' (abs_init (2 ^ k)) es a \<and>
      unat (vq_free_cnt (s_drv s)) + (\<Sum>b \<leftarrow> bufs a. length (b_chain b)) = unat (vq_nentries (s_drv s)) \<and>
      (length (reaped_by_drv es) = length (submitted io' es) \<longrightarrow>
         vq_free_cnt (s_drv s) = vq_nentries (s_drv s))"
proof -
  obtain a where run: "abs_run io' (abs_init (2 ^ k)) es a" and sim: "sim s a"
    using created_run[OF assms] by blast
  have tot: "unat (vq_free_cnt (s_drv s)) + (\<Sum>b \<leftarrow> bufs a. length (b_chain b)) = unat (vq_nentries (s_drv s))"
    by (rule simD[OF sim]) (drule vq_inv_counts, simp add: length_concat comp_def)
  have "length (reaped_by_drv es) + length (bufs a) = length (submitted io' es)"
    using arg_cong[OF abs_run_prefix(3)[OF run], of size] by simp
  then show ?thesis
    using run tot by (auto intro!: exI[of _ a])
qed

theorem virtqueue_no_leak_witness:
  "\<exists>a. abs_run run_io (abs_init (2 ^ 2)) run_events a \<and>
     unat (vq_free_cnt (s_drv (the (exec_run run_start run_events)))) + (\<Sum>b \<leftarrow> bufs a. length (b_chain b)) =
       unat (vq_nentries (s_drv (the (exec_run run_start run_events))))"
  using virtqueue_no_leak[OF run_facts(1,2,2) _ run_facts(3,4)] by auto

text \<open>
  When both sides map the same paged region, what the device is given for a buffer
  are the driver's own addresses: each segment of the scatter/gather list with its virtual
  address, its length, and writable from the \<open>readable\<close>-th on.
\<close>

lemma virtqueue_segments_addresses:
  assumes "io_paged io p frames" "nat (readable + writable) \<le> length sg"
    and "\<forall>g \<in> set sg. sg_io g = io \<and> sg_virt g - io_virt io < io_size io"
  shows "segments io sg readable writable =
    map (\<lambda>j. (sg_virt (sg ! j), sg_len (sg ! j), readable \<le> int j)) [0 ..< nat (readable + writable)]"
proof -
  have "the (metal_io_phys_to_virt io (the (metal_io_virt_to_phys (sg_io g) (sg_virt g)))) = sg_virt g"
    if "g \<in> set sg" for g
  proof -
    have g: "sg_io g = io" "sg_virt g - io_virt io < io_size io"
      using assms(3) that by auto
    have "io_virt io + (sg_virt g - io_virt io) = sg_virt g" by simp
    then show ?thesis
      using metal_io_roundtrip_paged[OF assms(1) g(2)] g(1) by auto
  qed
  then show ?thesis
    using assms(2) by (auto simp: segments_def)
qed

lemma virtqueue_segments_addresses_witness:
  "segments run_io run_sg 1 1 = [(4112, 64, False), (4352, 32, True)]"
proof -
  have "io_paged run_io 12 [65536]"
    by (simp add: io_paged_def run_io_def dvd_def)
  moreover have "\<forall>g \<in> set run_sg. sg_io g = run_io \<and> sg_virt g - io_virt run_io < io_size run_io"
    by (simp add: run_sg_def run_io_def)
  ultimately show ?thesis
    using virtqueue_segments_addresses[of run_io 12 "[65536]" 1 1 run_sg]
    by (simp add: run_sg_def upt_rec)
qed

definition single_after_single :: "virtqueue option" where
  "single_after_single =
     Option.bind (virtqueue_add_single_buffer (s_drv run_start) 77 (run_sg ! 0) False True) (\<lambda>(_, d1).
     Option.bind (virtqueue_add_single_buffer d1 78 (run_sg ! 1) True False) (\<lambda>(_, d2).
     Option.bind (virtqueue_add_consumed_buffer d2 0 64) (\<lambda>(_, d3).
     Option.bind (virtqueue_get_buffer (Some d3)) (\<lambda>(_, _, d4). d4))))"

text \<open>
  \<open>virtqueue_add_single_buffer\<close> with \<open>has_next\<close> publishes its descriptor as a buffer of
  its own, yet marks it as continued by the next free descriptor. When the device gives that
  buffer back while the next one is still in flight, reaping it puts the next one's descriptor
  back on the free chain: the queue of four descriptors below counts three free and one in
  flight, and the descriptor in flight (1, cookie 78) follows the head of the free chain.
\<close>

lemma virtqueue_has_next_frees_other:
  "\<exists>vq. single_after_single = Some vq \<and> vq_free_cnt vq = 3 \<and>
     vq_desc_head_idx vq = 0 \<and> d_next (vq_desc vq ! 0) = 1 \<and>
     x_cookie (vq_descx vq ! 1) = 78 \<and>
     a_ring (vq_avail vq) ! 1 = 1 \<and> vq_used_cons_idx vq = 1"
proof -
  have "case single_after_single of None \<Rightarrow> False | Some vq \<Rightarrow>
      vq_free_cnt vq = 3 \<and> vq_desc_head_idx vq = 0 \<and> d_next (vq_desc vq ! 0) = 1 \<and>
      x_cookie (vq_descx vq ! 1) = 78 \<and> a_ring (vq_avail vq) ! 1 = 1 \<and> vq_used_cons_idx vq = 1"
    by code_simp
  then show ?thesis
    by (auto split: option.splits)
qed

end
