(* ===== verification/Virtqueue_Debug.thy ===== *)
theory Virtqueue_Debug
  imports Virtqueue_Trace
begin

text \<open>
  The other build of \<^verbatim>\<open>util/virtqueue.c\<close>, with \<^verbatim>\<open>VQUEUE_DEBUG\<close> true: the macros of
  \<^verbatim>\<open>include/virtqueue.h\<close> check the parameters, the indices, the chains, and that no operation
  starts while another one is under way. The operations below are those of \<open>Virtqueue\<close> with
  every check where the source has it. On the runs of a driver and a device that keep to the
  rules of the interface no check ever fails, and the two builds are the same program; outside
  of them the checks report some misuses and stop the program at others.
\<close>

section \<open>Checked computations\<close>

text \<open>
  A failed assertion prints its message and stays in \<^verbatim>\<open>while(1)\<close>: the computation ends there.
  \<open>Undefined\<close> is what \<^term>\<open>None\<close> is for the other build.
\<close>

datatype 'a checked = Undefined | Asserted string | Done 'a

fun chk_bind :: "'a checked \<Rightarrow> ('a \<Rightarrow> 'b checked) \<Rightarrow> 'b checked" where
  "chk_bind Undefined f = Undefined"
| "chk_bind (Asserted msg) f = Asserted msg"
| "chk_bind (Done x) f = f x"

fun of_opt :: "'a option \<Rightarrow> 'a checked" where
  "of_opt None = Undefined"
| "of_opt (Some x) = Done x"

lemma chk_bind_Done: "chk_bind m f = Done y \<longleftrightarrow> (\<exists>x. m = Done x \<and> f x = Done y)"
  by (cases m) auto

lemma of_opt_Done [simp]: "of_opt m = Done x \<longleftrightarrow> m = Some x"
  by (cases m) auto

section \<open>The macros\<close>

definition ERROR_VRING_FULL :: int where "ERROR_VRING_FULL = VQ_ERROR_BASE - 1"
definition ERROR_VRING_ALIGN :: int where "ERROR_VRING_ALIGN = VQ_ERROR_BASE - 6"
definition ERROR_VQUEUE_INVLD_PARAM :: int where "ERROR_VQUEUE_INVLD_PARAM = VQ_ERROR_BASE - 8"

definition VQASSERT :: "virtqueue \<Rightarrow> bool \<Rightarrow> string \<Rightarrow> unit checked" where
  "VQASSERT vq ex msg = (if \<not> ex then Asserted msg else Done ())"

definition VQ_RING_ASSERT_VALID_IDX :: "virtqueue \<Rightarrow> u16 \<Rightarrow> unit checked" where
  "VQ_RING_ASSERT_VALID_IDX vq idx = VQASSERT vq (idx < vq_nentries vq) ''invalid ring index''"

definition VQ_RING_ASSERT_CHAIN_TERM :: "virtqueue \<Rightarrow> unit checked" where
  "VQ_RING_ASSERT_CHAIN_TERM vq =
     VQASSERT vq (vq_desc_head_idx vq = VQ_RING_DESC_CHAIN_END)
       ''full ring terminated incorrectly: invalid head''"

definition VQ_PARAM_CHK :: "bool \<Rightarrow> int \<Rightarrow> int \<Rightarrow> int" where
  "VQ_PARAM_CHK condition status_var status_err =
     (if status_var = 0 \<and> condition then status_err else status_var)"

definition VQUEUE_BUSY :: "virtqueue \<Rightarrow> virtqueue checked" where
  "VQUEUE_BUSY vq =
     (if vq_inuse vq = 0 then Done (vq\<lparr>vq_inuse := 1\<rparr>)
      else chk_bind (VQASSERT vq (vq_inuse vq = 0) ''VirtQueue already in use'') (\<lambda>_. Done vq))"

definition VQUEUE_IDLE :: "virtqueue \<Rightarrow> virtqueue" where
  "VQUEUE_IDLE vq = vq\<lparr>vq_inuse := 0\<rparr>"

section \<open>The helpers\<close>

definition virtqueue_nused_dbg :: "virtqueue \<Rightarrow> u16 checked" where
  "virtqueue_nused_dbg vq =
     (let nused = u_idx (vq_used vq) - vq_used_cons_idx vq
      in chk_bind (VQASSERT vq (nused \<le> vq_nentries vq) ''used more than available'')
           (\<lambda>_. Done nused))"

function vq_ring_add_buffer_loop_dbg ::
    "virtqueue \<Rightarrow> vring_desc list \<Rightarrow> u16 \<Rightarrow> metal_sg list \<Rightarrow> int \<Rightarrow> int \<Rightarrow> int \<Rightarrow>
     (vring_desc list \<times> u16) checked" where
  "vq_ring_add_buffer_loop_dbg vq ds idx sg readable needed i =
     (if i < needed
      then
        chk_bind (VQASSERT vq (idx \<noteq> VQ_RING_DESC_CHAIN_END) ''premature end of free desc chain'')
          (\<lambda>_.
        chk_bind (of_opt (array_get sg (nat i))) (\<lambda>s.
        chk_bind (of_opt (array_get ds (unat idx))) (\<lambda>d.
        chk_bind (of_opt (metal_io_virt_to_phys (sg_io s) (sg_virt s))) (\<lambda>phys.
          let flags1 = (if i < needed - 1 then 0 OR VRING_DESC_F_NEXT else 0);
              flags2 = (if readable \<le> i then flags1 OR VRING_DESC_F_WRITE else flags1);
              d' = d\<lparr>d_addr := phys, d_len := sg_len s, d_flags := flags2\<rparr>
          in vq_ring_add_buffer_loop_dbg vq (ds[unat idx := d']) (d_next d') sg readable needed
               (i + 1)))))
      else Done (ds, idx))"
  by pat_completeness auto
termination
  by (relation "measure (\<lambda>(vq, ds, idx, sg, readable, needed, i). nat (needed - i))") auto

declare vq_ring_add_buffer_loop_dbg.simps [simp del]

definition vq_ring_add_buffer_dbg ::
    "virtqueue \<Rightarrow> vring_desc list \<Rightarrow> u16 \<Rightarrow> metal_sg list \<Rightarrow> int \<Rightarrow> int \<Rightarrow>
     (vring_desc list \<times> u16) checked" where
  "vq_ring_add_buffer_dbg vq desc head_idx sg readable writable =
     vq_ring_add_buffer_loop_dbg vq desc head_idx sg readable (readable + writable) 0"

text \<open>The loop over a chain to be freed; \<^term>\<open>None\<close> when it does not end.\<close>

partial_function (option) vq_ring_free_chain_loop_dbg ::
    "virtqueue \<Rightarrow> u16 \<Rightarrow> u16 \<Rightarrow> (u16 \<times> u16) checked option" where
  "vq_ring_free_chain_loop_dbg vq idx ndescs =
     (case array_get (vq_desc vq) (unat idx) of
        None \<Rightarrow> Some Undefined
      | Some d \<Rightarrow>
          if d_flags d AND VRING_DESC_F_NEXT \<noteq> 0
          then (case VQ_RING_ASSERT_VALID_IDX vq (d_next d) of
                  Done _ \<Rightarrow> vq_ring_free_chain_loop_dbg vq (d_next d) (ndescs - 1)
                | Asserted msg \<Rightarrow> Some (Asserted msg)
                | Undefined \<Rightarrow> Some Undefined)
          else Some (Done (idx, ndescs)))"

declare vq_ring_free_chain_loop_dbg.simps [code]

definition vq_ring_free_chain_dbg :: "virtqueue \<Rightarrow> u16 \<Rightarrow> virtqueue checked" where
  "vq_ring_free_chain_dbg vq desc_idx =
     chk_bind (VQ_RING_ASSERT_VALID_IDX vq desc_idx) (\<lambda>_.
     chk_bind (of_opt (array_get (vq_desc vq) (unat desc_idx))) (\<lambda>dp.
     chk_bind (of_opt (array_get (vq_descx vq) (unat desc_idx))) (\<lambda>dxp.
     chk_bind (if vq_free_cnt vq = 0 then VQ_RING_ASSERT_CHAIN_TERM vq else Done ()) (\<lambda>_.
     let free_cnt = vq_free_cnt vq + x_ndescs dxp;
         ndescs1 = x_ndescs dxp - 1
     in chk_bind
          (if d_flags dp AND VRING_DESC_F_INDIRECT = 0
           then (case vq_ring_free_chain_loop_dbg vq desc_idx ndescs1 of
                   None \<Rightarrow> Undefined | Some r \<Rightarrow> r)
           else Done (desc_idx, ndescs1))
          (\<lambda>(last_idx, ndescs).
     chk_bind (VQASSERT vq (ndescs = 0) ''failed to free entire desc chain, remaining'') (\<lambda>_.
     chk_bind (of_opt (array_get (vq_desc vq) (unat last_idx))) (\<lambda>d_last.
       Done ((upd_desc ((vq_desc vq)[unat last_idx := d_last\<lparr>d_next := vq_desc_head_idx vq\<rparr>]) vq)
               \<lparr>vq_free_cnt := free_cnt,
                vq_descx := (vq_descx vq)[unat desc_idx := dxp\<lparr>x_ndescs := ndescs\<rparr>],
                vq_desc_head_idx := desc_idx\<rparr>))))))))"

definition vq_ring_enable_interrupt_dbg :: "virtqueue \<Rightarrow> u16 \<Rightarrow> (int \<times> virtqueue) checked" where
  "vq_ring_enable_interrupt_dbg vq ndesc =
     (let a = vq_avail vq
      in chk_bind
           (if vq_flags vq AND VIRTQUEUE_FLAG_EVENT_IDX \<noteq> 0
            then chk_bind (of_opt
                   (array_set (a_ring a) (unat (v_num (vq_ring vq))) (vq_used_cons_idx vq + ndesc)))
                   (\<lambda>ring. Done (upd_avail (a\<lparr>a_ring := ring\<rparr>) vq))
            else Done (upd_avail (a\<lparr>a_flags := a_flags a AND NOT VRING_AVAIL_F_NO_INTERRUPT\<rparr>) vq))
           (\<lambda>vq'. chk_bind (virtqueue_nused_dbg vq') (\<lambda>nused.
              if ndesc < nused then Done (1, vq') else Done (0, vq'))))"

section \<open>The operations\<close>

definition virtqueue_disable_cb_dbg :: "virtqueue \<Rightarrow> virtqueue checked" where
  "virtqueue_disable_cb_dbg vq0 =
     chk_bind (VQUEUE_BUSY vq0) (\<lambda>vq.
     let a = vq_avail vq
     in chk_bind
          (if vq_flags vq AND VIRTQUEUE_FLAG_EVENT_IDX \<noteq> 0
           then chk_bind (of_opt
                  (array_set (a_ring a) (unat (v_num (vq_ring vq)))
                     (vq_used_cons_idx vq - vq_nentries vq - 1)))
                  (\<lambda>ring. Done (upd_avail (a\<lparr>a_ring := ring\<rparr>) vq))
           else Done (upd_avail (a\<lparr>a_flags := a_flags a OR VRING_AVAIL_F_NO_INTERRUPT\<rparr>) vq))
          (\<lambda>vq'. Done (VQUEUE_IDLE vq')))"

definition virtqueue_create_dbg ::
    "addr \<Rightarrow> u16 \<Rightarrow> string \<Rightarrow> vring_alloc_info option \<Rightarrow> addr \<Rightarrow> addr \<Rightarrow> metal_io_region \<Rightarrow> vring \<Rightarrow>
     bool \<Rightarrow> (int \<times> virtqueue option) checked" where
  "virtqueue_create_dbg virt_dev qid name ring0 callback notify shm_io mem alloc =
     (case ring0 of
        None \<Rightarrow> Done (VQ_PARAM_CHK True VQUEUE_SUCCESS ERROR_VQUEUE_INVLD_PARAM, None)
      | Some ring \<Rightarrow>
          let status1 = VQ_PARAM_CHK (ai_num_descs ring = 0) VQUEUE_SUCCESS ERROR_VQUEUE_INVLD_PARAM;
              status = VQ_PARAM_CHK (ai_num_descs ring AND (ai_num_descs ring - 1) \<noteq> 0) status1
                         ERROR_VRING_ALIGN
          in if status = VQUEUE_SUCCESS
             then if \<not> alloc then Done (ERROR_NO_MEM, None)
                  else
                    chk_bind (of_opt (vq_ring_init
                        (virtqueue_fields virt_dev qid name ring callback notify shm_io mem)))
                      (\<lambda>vq. chk_bind (virtqueue_disable_cb_dbg vq) (\<lambda>vq'. Done (status, Some vq')))
             else Done (status, None))"

text \<open>
  A null queue is caught by the first check, whose verdict comes too late: the busy flag of
  the null queue is read next.
\<close>

definition virtqueue_add_buffer_dbg ::
    "virtqueue option \<Rightarrow> metal_sg list \<Rightarrow> int \<Rightarrow> int \<Rightarrow> u64 \<Rightarrow> (int \<times> virtqueue) checked" where
  "virtqueue_add_buffer_dbg vq0 sg readable writable cookie =
     (let needed = readable + writable
      in if \<not> c_int needed then Undefined
      else case vq0 of
        None \<Rightarrow> Undefined
      | Some vq1 \<Rightarrow>
          let status1 = VQ_PARAM_CHK (needed < 1) VQUEUE_SUCCESS ERROR_VQUEUE_INVLD_PARAM;
              status = VQ_PARAM_CHK (vq_free_cnt vq1 = 0) status1 ERROR_VRING_FULL
          in
          chk_bind (VQUEUE_BUSY vq1) (\<lambda>vq.
          if status = VQUEUE_SUCCESS then
            chk_bind (VQASSERT vq (cookie \<noteq> 0) ''enqueuing with no cookie'') (\<lambda>_.
            let head_idx = vq_desc_head_idx vq
            in chk_bind (VQ_RING_ASSERT_VALID_IDX vq head_idx) (\<lambda>_.
            chk_bind (of_opt (array_get (vq_descx vq) (unat head_idx))) (\<lambda>dxp.
            chk_bind (VQASSERT vq (x_cookie dxp = 0) ''cookie already exists for index'') (\<lambda>_.
            let vq2 = vq\<lparr>vq_descx := (vq_descx vq)[unat head_idx :=
                  dxp\<lparr>x_cookie := cookie, x_ndescs := of_int needed\<rparr>]\<rparr>
            in chk_bind (vq_ring_add_buffer_dbg vq2 (vq_desc vq2) head_idx sg readable writable)
              (\<lambda>(ds, idx).
            let vq3 = (upd_desc ds vq2)
                  \<lparr>vq_desc_head_idx := idx, vq_free_cnt := vq_free_cnt vq2 - of_int needed\<rparr>
            in chk_bind (if vq_free_cnt vq3 = 0 then VQ_RING_ASSERT_CHAIN_TERM vq3
                         else VQ_RING_ASSERT_VALID_IDX vq3 idx) (\<lambda>_.
            chk_bind (of_opt (vq_ring_update_avail vq3 head_idx)) (\<lambda>vq4.
            Done (status, VQUEUE_IDLE vq4))))))))
          else Done (status, VQUEUE_IDLE vq)))"


definition virtqueue_get_buffer_dbg ::
    "virtqueue option \<Rightarrow> (u64 \<times> (u32 \<times> u16) option \<times> virtqueue option) checked" where
  "virtqueue_get_buffer_dbg vq0 =
     (case vq0 of
        None \<Rightarrow> Done (0, None, None)
      | Some vq1 \<Rightarrow>
          if vq_used_cons_idx vq1 = u_idx (vq_used vq1) then Done (0, None, Some vq1)
          else
            chk_bind (VQUEUE_BUSY vq1) (\<lambda>vq.
            let used_idx = vq_used_cons_idx vq AND (vq_nentries vq - 1);
                vq2 = vq\<lparr>vq_used_cons_idx := vq_used_cons_idx vq + 1\<rparr>
            in chk_bind (of_opt (array_get (u_ring (vq_used vq2)) (unat used_idx))) (\<lambda>uep.
            let desc_idx = ucast (e_id uep) :: u16
            in chk_bind (vq_ring_free_chain_dbg vq2 desc_idx) (\<lambda>vq3.
            chk_bind (of_opt (array_get (vq_descx vq3) (unat desc_idx))) (\<lambda>dxp.
            Done (x_cookie dxp, Some (e_len uep, used_idx),
              Some (VQUEUE_IDLE (vq3\<lparr>vq_descx :=
                (vq_descx vq3)[unat desc_idx := dxp\<lparr>x_cookie := 0\<rparr>]\<rparr>))))))))"

definition virtqueue_get_available_buffer_dbg ::
    "virtqueue \<Rightarrow> (u64 \<times> (u16 \<times> u32) option \<times> virtqueue) checked" where
  "virtqueue_get_available_buffer_dbg vq1 =
     (if vq_available_idx vq1 = a_idx (vq_avail vq1) then Done (0, None, vq1)
      else
        chk_bind (VQUEUE_BUSY vq1) (\<lambda>vq.
        let head_idx = vq_available_idx vq AND (vq_nentries vq - 1);
            vq2 = vq\<lparr>vq_available_idx := vq_available_idx vq + 1\<rparr>
        in chk_bind (of_opt (array_get (a_ring (vq_avail vq2)) (unat head_idx))) (\<lambda>avail_idx.
           chk_bind (of_opt (array_get (vq_desc vq2) (unat avail_idx))) (\<lambda>d.
           chk_bind (of_opt (metal_io_phys_to_virt (vq_shm_io vq2) (d_addr d))) (\<lambda>buffer.
           Done (buffer, Some (avail_idx, d_len d), VQUEUE_IDLE vq2))))))"

definition virtqueue_add_consumed_buffer_dbg ::
    "virtqueue \<Rightarrow> u16 \<Rightarrow> u32 \<Rightarrow> (int \<times> virtqueue) checked" where
  "virtqueue_add_consumed_buffer_dbg vq1 head_idx len =
     (if vq_nentries vq1 < head_idx then Done (ERROR_VRING_NO_BUFF, vq1)
      else
        chk_bind (VQUEUE_BUSY vq1) (\<lambda>vq.
        let u = vq_used vq;
            used_idx = u_idx u AND (vq_nentries vq - 1)
        in chk_bind (of_opt (array_set (u_ring u) (unat used_idx) \<lparr>e_id = ucast head_idx, e_len = len\<rparr>))
             (\<lambda>ring. Done (VQUEUE_SUCCESS,
                VQUEUE_IDLE (upd_used (u\<lparr>u_ring := ring, u_idx := u_idx u + 1\<rparr>) vq)))))"

definition virtqueue_enable_cb_dbg :: "virtqueue \<Rightarrow> (int \<times> virtqueue) checked" where
  "virtqueue_enable_cb_dbg vq = vq_ring_enable_interrupt_dbg vq 0"

text \<open>The function of the caller that \<open>notify\<close> points to runs while the queue is busy.\<close>

definition virtqueue_kick_dbg ::
    "(addr \<Rightarrow> virtqueue \<Rightarrow> 'w \<Rightarrow> 'w) \<Rightarrow> virtqueue \<Rightarrow> 'w \<Rightarrow> (virtqueue \<times> 'w) checked" where
  "virtqueue_kick_dbg call vq1 w =
     chk_bind (VQUEUE_BUSY vq1) (\<lambda>vq.
     let w' = (if vq_ring_must_notify_host vq then vq_ring_notify_host call vq w else w)
     in Done (VQUEUE_IDLE (vq\<lparr>vq_queued_cnt := 0\<rparr>), w'))"

definition virtqueue_get_desc_size_dbg :: "virtqueue \<Rightarrow> (u32 \<times> virtqueue) checked" where
  "virtqueue_get_desc_size_dbg vq1 =
     (if vq_available_idx vq1 = a_idx (vq_avail vq1) then Done (0, vq1)
      else
        chk_bind (VQUEUE_BUSY vq1) (\<lambda>vq.
        let head_idx = vq_available_idx vq AND (vq_nentries vq - 1)
        in chk_bind (of_opt (array_get (a_ring (vq_avail vq)) (unat head_idx))) (\<lambda>avail_idx.
           chk_bind (of_opt (array_get (vq_desc vq) (unat avail_idx))) (\<lambda>d.
           Done (d_len d, VQUEUE_IDLE vq)))))"


section \<open>Where the two builds agree\<close>

lemma VQASSERT_iff [simp]: "VQASSERT vq ex msg = Done u \<longleftrightarrow> ex"
  by (simp add: VQASSERT_def)

lemma valid_idx [simp]: "i < vq_nentries vq \<Longrightarrow> VQ_RING_ASSERT_VALID_IDX vq i = Done ()"
  by (simp add: VQ_RING_ASSERT_VALID_IDX_def)

lemma chain_term [simp]:
  "vq_desc_head_idx vq = VQ_RING_DESC_CHAIN_END \<Longrightarrow> VQ_RING_ASSERT_CHAIN_TERM vq = Done ()"
  by (simp add: VQ_RING_ASSERT_CHAIN_TERM_def)

lemma busy_idle [simp]: "vq_inuse vq = 0 \<Longrightarrow> VQUEUE_BUSY vq = Done (vq\<lparr>vq_inuse := 1\<rparr>)"
  by (simp add: VQUEUE_BUSY_def)

lemma vq_in_bounds:
  assumes "vq_wf vq" "unat i < length (vq_desc vq)"
  shows "i < vq_nentries vq" "i \<noteq> VQ_RING_DESC_CHAIN_END"
  using assms vq_wf_index(4)[OF assms(1)]
  by (auto simp: vq_wf_def word_less_nat_alt VQ_RING_DESC_CHAIN_END_def)

lemma add_buffer_loop_agrees:
  assumes "vq_ring_add_buffer_loop ds idx sg readable needed i = Some p" "length ds \<le> 32768"
  shows "vq_ring_add_buffer_loop_dbg vq ds idx sg readable needed i = Done p"
  using assms
proof (induction ds idx sg readable needed i rule: vq_ring_add_buffer_loop.induct)
  case (1 ds idx sg readable needed i)
  show ?case
  proof (cases "i < needed")
    case True
    obtain s d ph where g: "array_get sg (nat i) = Some s" "array_get ds (unat idx) = Some d"
        "metal_io_virt_to_phys (sg_io s) (sg_virt s) = Some ph"
      using "1.prems"(1) True
      by (subst (asm) vq_ring_add_buffer_loop.simps) (auto split: bind_splits)
    then have "unat idx < 32768" using "1.prems"(2) by simp
    then have "idx \<noteq> VQ_RING_DESC_CHAIN_END" by (auto simp: VQ_RING_DESC_CHAIN_END_def)
    with 1 True g show ?thesis
      by (subst vq_ring_add_buffer_loop_dbg.simps, subst (asm) (2) vq_ring_add_buffer_loop.simps)
        (simp add: VQASSERT_def Let_def)
  next
    case False
    with "1.prems" show ?thesis
      by (subst vq_ring_add_buffer_loop_dbg.simps, subst (asm) vq_ring_add_buffer_loop.simps) simp
  qed
qed

text \<open>The chain of a buffer passes the checks of the loop that frees it.\<close>

lemma free_chain_loop_agrees:
  assumes "buf_chain (vq_desc vq) c" "vq_wf vq"
  shows "vq_ring_free_chain_loop_dbg vq (hd c) nd = Some (Done (last c, nd - of_nat (length c - 1)))"
proof -
  have "vq_ring_free_chain_loop_dbg vq (hd c) nd = Some (Done (last c, nd - of_nat (length c - 1)))"
    if "ds = vq_desc vq" "buf_chain ds c" for ds
    using that(2,1)
  proof (induction ds c arbitrary: nd rule: buf_chain.induct)
    case (2 ds x)
    then show ?case by (subst vq_ring_free_chain_loop_dbg.simps) simp
  next
    case (3 ds x y zs)
    then have "unat y < length (vq_desc vq)"
      using buf_chain_in[of ds "y # zs" y] by simp
    then have "y < vq_nentries vq"
      by (rule vq_in_bounds(1)[OF assms(2)])
    then show ?case
      using 3 by (subst vq_ring_free_chain_loop_dbg.simps) (simp add: algebra_simps)
  qed simp
  then show ?thesis using assms(1) by blast
qed

lemma free_chain_agrees:
  assumes inv: "vq_inv vq fs cs" and c: "c \<in> set cs"
  shows "vq_ring_free_chain_dbg vq (hd c) = Done (given_back vq c)"
proof -
  note ch = vq_inv_chain[OF inv c]
  have wf: "vq_wf vq"
    using inv by (rule vq_inv_wf)
  have nd: "x_ndescs (vq_descx vq ! unat (hd c)) = of_nat (length c)"
    using ch(5) by (metis of_nat_unat ucast_id)
  have lst: "unat (last c) < length (vq_desc vq)"
    using buf_chain_in[OF ch(4)] last_in_set[OF ch(1)] by simp
  have len: "length c = Suc (length c - 1)"
    using ch(1) by (cases c) auto
  have "of_nat (length c) - 1 - of_nat (length c - 1) = (0 :: u16)"
    by (subst len) simp
  then have loop: "vq_ring_free_chain_loop_dbg vq (hd c) (of_nat (length c) - 1) =
      Some (Done (last c, 0))"
    using free_chain_loop_agrees[OF ch(4) wf, of "of_nat (length c) - 1"] by simp
  have "vq_free_cnt vq = 0 \<Longrightarrow> VQ_RING_ASSERT_CHAIN_TERM vq = Done ()"
    using vq_inv_head[OF inv] by simp
  then have trm: "(if vq_free_cnt vq = 0 then VQ_RING_ASSERT_CHAIN_TERM vq else Done ()) = Done ()"
    by simp
  have hd_lt: "hd c < vq_nentries vq"
    using buf_chain_head[OF ch(4)] vq_in_bounds[OF wf] by blast
  show ?thesis
    using buf_chain_head[OF ch(4)] wf lst loop nd hd_lt trm
    by (simp add: vq_ring_free_chain_dbg_def given_back_def vq_wf_def Let_def VQASSERT_def)
qed

lemma get_buffer_agrees:
  assumes inv: "vq_inv vq fs cs" and idle: "vq_inuse vq = 0" and c: "c \<in> set cs"
    and used: "vq_used_cons_idx vq \<noteq> u_idx (vq_used vq)"
    and e: "u_ring (vq_used vq) ! (unat (vq_used_cons_idx vq) mod unat (vq_nentries vq)) =
      \<lparr>e_id = ucast (hd c), e_len = len\<rparr>"
  shows "virtqueue_get_buffer_dbg (Some vq) =
    Done (x_cookie (vq_descx vq ! unat (hd c)),
          Some (len, vq_used_cons_idx vq AND (vq_nentries vq - 1)), Some (reaped vq c))"
proof -
  have wf: "vq_wf vq"
    using inv by (rule vq_inv_wf)
  let ?vq = "vq\<lparr>vq_inuse := 1, vq_used_cons_idx := vq_used_cons_idx vq + 1\<rparr>"
  have "vq_inv ?vq fs cs"
    using inv by (simp add: vq_inv_def vq_wf_def chain_recorded_def)
  then have "vq_ring_free_chain_dbg ?vq (hd c) = Done (given_back ?vq c)"
    using c by (rule free_chain_agrees)
  moreover have "unat (vq_used_cons_idx vq AND (vq_nentries vq - 1)) < length (u_ring (vq_used vq))"
    using wf vq_wf_index(1,2)[OF wf] by (simp add: vq_wf_def)
  moreover have "unat (hd c) < length (vq_descx vq)"
    using vq_inv_chain(6)[OF inv c] wf by (simp add: vq_wf_def)
  moreover have "VQUEUE_IDLE (given_back ?vq c
      \<lparr>vq_descx := (vq_descx (given_back ?vq c))[unat (hd c) :=
         (vq_descx (given_back ?vq c) ! unat (hd c))\<lparr>x_cookie := 0\<rparr>]\<rparr>) = reaped vq c"
    by (rule virtqueue.equality)
      (simp_all add: idle reaped_def given_back_def Let_def VQUEUE_IDLE_def)
  ultimately show ?thesis
    using used e idle vq_wf_index(1)[OF wf, of "vq_used_cons_idx vq"]
    by (simp add: virtqueue_get_buffer_dbg_def Let_def)
qed


text \<open>What the checks after an addition ask of the control block it leaves.\<close>

definition head_checked :: "virtqueue \<Rightarrow> bool" where
  "head_checked vq \<longleftrightarrow>
     (if vq_free_cnt vq = 0 then vq_desc_head_idx vq = VQ_RING_DESC_CHAIN_END
      else vq_desc_head_idx vq < vq_nentries vq)"

lemma vq_inv_head_checked:
  assumes "vq_inv vq fs cs"
  shows "head_checked vq"
proof (cases fs)
  case Nil
  then show ?thesis using assms by (auto simp: head_checked_def vq_inv_def unat_eq_zero)
next
  case (Cons x xs)
  then have "vq_free_cnt vq \<noteq> 0" "vq_desc_head_idx vq = x" "x \<in> set (fs @ concat cs)"
    using assms by (auto simp: vq_inv_def)
  moreover have "set (fs @ concat cs) = {x. unat x < unat (vq_nentries vq)}"
    using assms by (simp only: vq_inv_def)
  ultimately show ?thesis
    by (simp add: head_checked_def word_less_nat_alt del: set_append)
qed

lemma head_check:
  assumes "head_checked vq" "vq_free_cnt v = vq_free_cnt vq" "vq_nentries v = vq_nentries vq"
    "vq_desc_head_idx v = vq_desc_head_idx vq"
  shows "(if vq_free_cnt v = 0 then VQ_RING_ASSERT_CHAIN_TERM v
          else VQ_RING_ASSERT_VALID_IDX v (vq_desc_head_idx vq)) = Done ()"
  using assms by (auto simp: head_checked_def)

lemma add_buffer_agrees:
  assumes wf: "vq_wf vq" and idle: "vq_inuse vq = 0"
    and n: "0 < readable + writable" "vq_free_cnt vq \<noteq> 0"
    and k: "k \<noteq> 0" "x_cookie (vq_descx vq ! unat (vq_desc_head_idx vq)) = 0"
    and d: "virtqueue_add_buffer vq sg readable writable k = Some (rc, vq')"
    and post: "head_checked vq'"
  shows "virtqueue_add_buffer_dbg (Some vq) sg readable writable k = Done (rc, vq')"
proof -
  let ?h = "unat (vq_desc_head_idx vq)" and ?n = "readable + writable"
  let ?i = "unat (a_idx (vq_avail vq) AND (vq_nentries vq - 1))"
  have hx: "?h < length (vq_descx vq)" and c: "c_int ?n"
    using d by (auto simp: virtqueue_add_buffer_def Let_def split: if_splits bind_splits)
  obtain ds idx where loop:
      "vq_ring_add_buffer_loop (vq_desc vq) (vq_desc_head_idx vq) sg readable ?n 0 = Some (ds, idx)"
    and i: "?i < length (a_ring (vq_avail vq))"
    and res: "rc = VQUEUE_SUCCESS" "vq' = vq\<lparr>
        vq_ring := (vq_ring vq)\<lparr>v_desc := ds, v_avail := (vq_avail vq)
          \<lparr>a_ring := (a_ring (vq_avail vq))[?i := vq_desc_head_idx vq],
           a_idx := a_idx (vq_avail vq) + 1\<rparr>\<rparr>,
        vq_free_cnt := vq_free_cnt vq - of_int ?n, vq_queued_cnt := vq_queued_cnt vq + 1,
        vq_desc_head_idx := idx,
        vq_descx := (vq_descx vq)[?h := (vq_descx vq ! ?h)\<lparr>x_cookie := k, x_ndescs := of_int ?n\<rparr>]\<rparr>"
    using d hx c
    by (auto simp: virtqueue_add_buffer_def vq_ring_add_buffer_def vq_ring_update_avail_def
        array_set_Some Let_def split: if_splits bind_splits)
  have le: "length (vq_desc vq) \<le> 32768"
    using wf vq_wf_index(4)[OF wf] by (simp add: vq_wf_def)
  have "vq_desc_head_idx vq < vq_nentries vq"
    using hx wf by (simp add: vq_wf_def word_less_nat_alt)
  moreover have "\<not> ?n < 1" using n(1) by simp
  moreover have idx: "vq_desc_head_idx vq' = idx" "vq_nentries vq' = vq_nentries vq"
      "vq_free_cnt vq' = vq_free_cnt vq - of_int ?n"
    by (simp_all add: res(2))
  note chk = head_check[OF post, unfolded idx]
  ultimately show ?thesis
    using hx c i n(2) k idle add_buffer_loop_agrees[OF loop le]
    by (simp add: virtqueue_add_buffer_dbg_def vq_ring_add_buffer_dbg_def vq_ring_update_avail_def
        VQ_PARAM_CHK_def VQASSERT_def VQUEUE_SUCCESS_def chk Let_def res VQUEUE_IDLE_def)
qed


lemma get_available_agrees:
  assumes "vq_inuse vq = 0" "virtqueue_get_available_buffer vq = Some r"
  shows "virtqueue_get_available_buffer_dbg vq = Done r"
  using assms
  by (auto simp: virtqueue_get_available_buffer_def virtqueue_get_available_buffer_dbg_def Let_def
      VQUEUE_IDLE_def split: if_splits bind_splits)

lemma add_consumed_agrees:
  assumes "vq_inuse vq = 0" "virtqueue_add_consumed_buffer vq h len = Some r"
  shows "virtqueue_add_consumed_buffer_dbg vq h len = Done r"
  using assms
  by (auto simp: virtqueue_add_consumed_buffer_def virtqueue_add_consumed_buffer_dbg_def Let_def
      VQUEUE_IDLE_def array_set_Some split: if_splits bind_splits)

lemma disable_agrees:
  assumes "vq_inuse vq = 0" "virtqueue_disable_cb vq = Some vq'"
  shows "virtqueue_disable_cb_dbg vq = Done vq'"
  using assms
  by (auto simp: virtqueue_disable_cb_def virtqueue_disable_cb_dbg_def Let_def VQUEUE_IDLE_def
      array_set_Some split: if_splits bind_splits)

lemma enable_agrees:
  assumes "virtqueue_nused vq \<le> vq_nentries vq" "virtqueue_enable_cb vq = Some r"
  shows "virtqueue_enable_cb_dbg vq = Done r"
  using assms
  by (auto simp: virtqueue_enable_cb_def virtqueue_enable_cb_dbg_def vq_ring_enable_interrupt_def
      vq_ring_enable_interrupt_dbg_def virtqueue_nused_dbg_def virtqueue_nused_def VQASSERT_def Let_def
      array_set_Some split: if_splits bind_splits)

lemma kick_agrees:
  assumes "vq_inuse vq = 0" "\<And>n v. call n (v\<lparr>vq_inuse := 1\<rparr>) w = call n v w"
  shows "virtqueue_kick_dbg call vq w = Done (virtqueue_kick call vq w)"
  using assms
  by (simp add: virtqueue_kick_def virtqueue_kick_dbg_def vq_ring_must_notify_host_def
      vq_ring_notify_host_def Let_def VQUEUE_IDLE_def)

lemma create_agrees:
  assumes "ai_num_descs ring = 2 ^ k" "k \<le> 15"
    "virtqueue_create dev qid name ring cb nf io mem alloc = Some r"
  shows "virtqueue_create_dbg dev qid name (Some ring) cb nf io mem alloc = Done r"
proof -
  have u: "unat (ai_num_descs ring) = 2 ^ k"
    using assms(1,2) by (simp add: unat_2_power)
  then have "ai_num_descs ring \<noteq> 0"
    by auto
  moreover have "unat (ai_num_descs ring AND (ai_num_descs ring - 1)) = 0"
    using unat_and_mask[OF assms(1), of "ai_num_descs ring"] assms(2) u by simp
  then have "ai_num_descs ring AND (ai_num_descs ring - 1) = 0"
    by (simp add: unat_eq_zero)
  moreover have "vq_inuse vq = 0"
    if "vq_ring_init (virtqueue_fields dev qid name ring cb nf io mem) = Some vq" for vq
    using that by (auto simp: vq_ring_init_def virtqueue_fields_def Let_def split: bind_splits)
  ultimately show ?thesis
    using assms(3)
    by (auto simp: virtqueue_create_def virtqueue_create_dbg_def VQ_PARAM_CHK_def VQUEUE_SUCCESS_def Let_def
      disable_agrees split: if_splits bind_splits)
qed


section \<open>Runs\<close>

text \<open>
  What the checks rely on beyond the invariant: neither side is inside an operation, and only
  the head of a buffer in flight has a cookie.
\<close>

definition idle :: "vq_sys \<Rightarrow> bool" where
  "idle s \<longleftrightarrow> vq_inuse (s_drv s) = 0 \<and> vq_inuse (s_dev s) = 0"

definition cookies_clear :: "vq_sys \<Rightarrow> vq_abs \<Rightarrow> bool" where
  "cookies_clear s a \<longleftrightarrow>
     (\<forall>x. unat x < unat (vq_nentries (s_drv s)) \<longrightarrow> x \<notin> b_head ` set (bufs a) \<longrightarrow>
        x_cookie (vq_descx (s_drv s) ! unat x) = 0)"

fun with_cookie :: "vq_event \<Rightarrow> bool" where
  "with_cookie (Submit sg r w k) \<longleftrightarrow> k \<noteq> 0"
| "with_cookie _ \<longleftrightarrow> True"

lemma bind_Some_iff: "Option.bind m f = Some y \<longleftrightarrow> (\<exists>x. m = Some x \<and> f x = Some y)"
  by (cases m) auto

lemma add_buffer_effect:
  assumes "virtqueue_add_buffer vq sg r w k = Some (rc, d)"
  shows "vq_inuse d = vq_inuse vq" "vq_nentries d = vq_nentries vq"
    "x_cookie (vq_descx d ! i) =
       (if i = unat (vq_desc_head_idx vq) then k else x_cookie (vq_descx vq ! i))"
  using assms
  by (auto simp: virtqueue_add_buffer_def vq_ring_update_avail_def Let_def bind_Some_iff array_set_Some
      nth_list_update split: if_splits)

lemma reaped_inuse [simp]: "vq_inuse (reaped vq c) = vq_inuse vq"
  by (simp add: reaped_def given_back_def Let_def)

lemma device_effect:
  "virtqueue_get_available_buffer vq = Some (b, r, d) \<Longrightarrow> vq_inuse d = vq_inuse vq"
  "virtqueue_add_consumed_buffer vq h len = Some (rc, d) \<Longrightarrow> vq_inuse d = vq_inuse vq"
  by (auto simp: virtqueue_get_available_buffer_def virtqueue_add_consumed_buffer_def Let_def
      bind_Some_iff array_set_Some split: if_splits)

lemma cb_effect:
  assumes "vq_flags vq = 0"
  shows "virtqueue_enable_cb vq = Some (r, d) \<Longrightarrow>
      vq_inuse d = vq_inuse vq \<and> vq_descx d = vq_descx vq \<and> vq_nentries d = vq_nentries vq"
    "virtqueue_disable_cb vq = Some d \<Longrightarrow>
      vq_inuse d = vq_inuse vq \<and> vq_descx d = vq_descx vq \<and> vq_nentries d = vq_nentries vq"
  using cb_flagged[OF assms] by (auto simp: flagged_def)

lemma share_inuse [simp]: "vq_inuse (share f vq) = vq_inuse vq"
  by (simp add: share_def)

lemma kick_effect:
  "virtqueue_kick call vq w = (d, w') \<Longrightarrow>
    vq_inuse d = vq_inuse vq \<and> vq_descx d = vq_descx vq \<and> vq_nentries d = vq_nentries vq"
  by (auto simp: virtqueue_kick_def Let_def)

text \<open>The entry of the used ring for the first completed buffer.\<close>

lemma sim_done_entry:
  assumes "sim s a" "q_done a = (b, len) # ds"
  obtains fs where "vq_inv (s_drv s) fs (map b_chain (bufs a))" "b_chain b \<in> set (map b_chain (bufs a))"
    "vq_used_cons_idx (s_drv s) \<noteq> u_idx (vq_used (s_drv s))"
    "u_ring (vq_used (s_drv s)) ! (unat (vq_used_cons_idx (s_drv s)) mod unat (vq_nentries (s_drv s))) =
       \<lparr>e_id = ucast (b_head b), e_len = len\<rparr>"
proof (rule simD[OF assms(1)])
  fix fs
  assume R: "vq_inv (s_drv s) fs (map b_chain (bufs a))"
    "in_flight (unat (vq_nentries (s_drv s))) (u_idx (vq_used (s_drv s)))
       (\<lambda>j. u_ring (vq_used (s_drv s)) ! j) (vq_used_cons_idx (s_drv s)) (map used_elem (q_done a))"
  have "in_flight (unat (vq_nentries (s_drv s))) (u_idx (vq_used (s_drv s)))
      (\<lambda>j. u_ring (vq_used (s_drv s)) ! j) (vq_used_cons_idx (s_drv s))
      (used_elem (b, len) # map used_elem ds)"
    using R(2) assms(2) by simp
  note cons = in_flight_consume[OF this vq_wf_index(3)[OF vq_inv_wf[OF R(1)]]]
  have "b_chain b \<in> set (map b_chain (bufs a))"
    using assms(2) by (simp add: bufs_def)
  with R(1) show thesis
    by (rule that) (use cons(1,2) in \<open>simp_all add: used_elem_def\<close>)
qed

lemma sim_free_head:
  assumes "sim s a" "x \<in> q_free a"
  shows "unat x < unat (vq_nentries (s_drv s)) \<and> x \<notin> b_head ` set (bufs a)"
proof (rule simD[OF assms(1)])
  fix fs
  assume R: "set fs = q_free a" "vq_inv (s_drv s) fs (map b_chain (bufs a))"
  then have "x \<in> set (fs @ concat (map b_chain (bufs a)))"
    using assms(2) by simp
  moreover have "set (fs @ concat (map b_chain (bufs a))) = {x. unat x < unat (vq_nentries (s_drv s))}"
    using R(2) by (simp only: vq_inv_def)
  ultimately have "unat x < unat (vq_nentries (s_drv s))" by blast
  moreover have "x \<noteq> b_head b" if "b \<in> set (bufs a)" for b
  proof -
    have "b_chain b \<in> set (map b_chain (bufs a))" using that by simp
    note ch = vq_inv_chain[OF R(2) this]
    have "b_head b \<in> set (b_chain b)" using ch(1) by simp
    then show ?thesis using ch(3) assms(2) R(1) by auto
  qed
  ultimately show ?thesis by auto
qed


lemma clear_submit:
  assumes sim: "sim s a" and clear: "cookies_clear s a" and k: "k \<noteq> 0"
    and d: "virtqueue_add_buffer (s_drv s) sg r w k = Some (VQUEUE_SUCCESS, d)"
    and a': "abs_step io a (Submit sg r w k) a'"
    and sim': "sim (s\<lparr>s_drv := d, s_dev := share d (s_dev s)\<rparr>) a'"
  shows "cookies_clear (s\<lparr>s_drv := d, s_dev := share d (s_dev s)\<rparr>) a'"
proof -
  let ?s' = "s\<lparr>s_drv := d, s_dev := share d (s_dev s)\<rparr>" and ?h = "vq_desc_head_idx (s_drv s)"
  note eff = add_buffer_effect[OF d]
  obtain c b where c: "set c \<subseteq> q_free a" "c \<noteq> []" and b: "b_chain b = c" "b_cookie b = k"
    and a'_eq: "a' = a\<lparr>q_free := q_free a - set c, q_pending := q_pending a @ [b]\<rparr>"
    using a'
  proof (cases rule: abs_step.cases)
    case (a_submit c b)
    then show ?thesis by (intro that[of c b]) simp_all
  qed
  then have bufs: "set (bufs a') = insert b (set (bufs a))" by (auto simp: bufs_def)
  have "hd c \<in> q_free a" using c by (cases c) auto
  note free = sim_free_head[OF sim this]
  have "buf_ok d (vq_shm_io (s_dev ?s')) b"
    using sim' bufs by (auto elim!: simD)
  then have "x_cookie (vq_descx d ! unat (hd c)) = k"
    by (simp add: buf_ok_def b)
  moreover have "x_cookie (vq_descx (s_drv s) ! unat (hd c)) = 0"
    using clear free by (simp add: cookies_clear_def)
  ultimately have "hd c = ?h"
    using k eff(3)[of "unat (hd c)"] by (auto split: if_splits)
  then show ?thesis
    using clear eff(2,3) bufs by (auto simp: cookies_clear_def b)
qed

lemma clear_reap:
  assumes clear: "cookies_clear s a" and inv: "vq_inv (s_drv s) fs (map b_chain (bufs a))"
    and dn: "q_done a = (b, len) # ds"
  shows "cookies_clear (s\<lparr>s_drv := reaped (s_drv s) (b_chain b), s_dev := dv\<rparr>)
    (a\<lparr>q_free := fs', q_done := ds\<rparr>)"
proof -
  have "b_chain b \<in> set (map b_chain (bufs a))" by (simp add: bufs_def dn)
  note ck = reaped_cookie[OF inv this]
  have "set (bufs a) = insert b (set (bufs (a\<lparr>q_free := fs', q_done := ds\<rparr>)))"
    by (auto simp: bufs_def dn)
  then show ?thesis
    using clear by (auto simp: cookies_clear_def ck)
qed

lemma clear_same:
  assumes "cookies_clear s a" "vq_descx (s_drv s') = vq_descx (s_drv s)"
    "vq_nentries (s_drv s') = vq_nentries (s_drv s)" "set (bufs a') = set (bufs a)"
  shows "cookies_clear s' a'"
  using assms by (simp add: cookies_clear_def)

lemma clear_step:
  assumes sim: "sim s a" and clear: "cookies_clear s a" and idl: "idle s"
    and step: "vq_step s e s'" and k: "with_cookie e"
  shows "idle s' \<and> (\<exists>a'. sim s' a' \<and> cookies_clear s' a')"
proof -
  have flags: "vq_flags (s_drv s) = 0" using sim by (auto elim!: simD)
  obtain a' where a': "abs_step (vq_shm_io (s_dev s)) a e a'" "sim s' a'"
    using sim_step[OF sim step] by blast
  have "idle s' \<and> cookies_clear s' a'"
    using step
  proof cases
    case (submit sg r w k d)
    then show ?thesis
      using clear_submit[OF sim clear _ submit(4)] a' k add_buffer_effect[OF submit(4)] idl
      by (auto simp: idle_def)
  next
    case (take b h len d)
    then have "set (bufs a') = set (bufs a)"
      using a'(1) by (auto elim!: abs_step.cases simp: bufs_def)
    then show ?thesis
      using clear_same[OF clear, of s' a'] take(2) device_effect(1)[OF take(3)] idl
      by (simp add: idle_def)
  next
    case (complete h len d)
    then have "set (bufs a') = set (bufs a)"
      using a'(1) by (auto elim!: abs_step.cases simp: bufs_def)
    then show ?thesis
      using clear_same[OF clear, of s' a'] complete(2) device_effect(2)[OF complete(4)] idl
      by (simp add: idle_def)
  next
    case (reap k len i d)
    obtain b l ds where dn: "q_done a = (b, l) # ds"
        and a'_eq: "a' = a\<lparr>q_free := set (b_chain b) \<union> q_free a, q_done := ds\<rparr>"
      using a'(1) reap(1) by (auto elim!: abs_step.cases)
    obtain fs where f: "vq_inv (s_drv s) fs (map b_chain (bufs a))"
        "b_chain b \<in> set (map b_chain (bufs a))"
        "vq_used_cons_idx (s_drv s) \<noteq> u_idx (vq_used (s_drv s))"
        "u_ring (vq_used (s_drv s)) ! (unat (vq_used_cons_idx (s_drv s)) mod unat (vq_nentries (s_drv s))) =
           \<lparr>e_id = ucast (b_head b), e_len = l\<rparr>"
      by (rule sim_done_entry[OF sim dn])
    have "d = reaped (s_drv s) (b_chain b)"
      using get_buffer_spec[OF f] reap(3) by simp
    then show ?thesis
      using clear_reap[OF clear f(1) dn] idl by (simp add: reap(2) a'_eq idle_def)
  next
    case (enable r d)
    then show ?thesis
      using clear_same[OF clear, of s' a'] cb_effect(1)[OF flags enable(3)] idl a'(1)
      by (auto simp: idle_def elim!: abs_step.cases)
  next
    case (disable d)
    then show ?thesis
      using clear_same[OF clear, of s' a'] cb_effect(2)[OF flags disable(3)] idl a'(1)
      by (auto simp: idle_def elim!: abs_step.cases)
  next
    case (kick d n)
    then show ?thesis
      using clear_same[OF clear, of s' a'] kick_effect[OF kick(3)] idl a'(1)
      by (auto simp: idle_def elim!: abs_step.cases)
  qed
  then show ?thesis using a'(2) by blast
qed

lemma clear_run:
  assumes "vq_run s es s'" "\<forall>e \<in> set es. with_cookie e" "idle s" "sim s a" "cookies_clear s a"
  shows "idle s' \<and> (\<exists>a'. sim s' a' \<and> cookies_clear s' a')"
  using assms
proof (induction rule: vq_run.induct)
  case (run_snoc s es s' e s'')
  then obtain a' where "idle s'" "sim s' a'" "cookies_clear s' a'" by auto
  then show ?case using clear_step run_snoc.hyps(2) run_snoc.prems(1) by simp
qed blast

lemma create_fresh:
  assumes "virtqueue_create dev qid name ring cb nf io mem alloc = Some (rc, Some vq)"
  shows "vq_inuse vq = 0 \<and> vq_nentries vq = ai_num_descs ring \<and>
    (\<forall>i < unat (vq_nentries vq). x_cookie (vq_descx vq ! i) = 0)"
  using assms
  by (auto simp: virtqueue_create_def vq_ring_init_def virtqueue_fields_def virtqueue_disable_cb_def
      Let_def bind_Some_iff split: if_splits)

lemma created_clear:
  assumes "vq_sys_create dev qid name ring ring' cb nf io io' mem = Some s"
  shows "idle s \<and> cookies_clear s (abs_init n)"
  using assms
  by (auto simp: vq_sys_create_def bind_Some_iff idle_def cookies_clear_def dest!: create_fresh)


lemma submit_agrees:
  assumes sim: "sim s a" and clear: "cookies_clear s a" and idl: "idle s"
    and ok: "submit_ok s sg r w" and k: "k \<noteq> 0"
  shows "\<exists>d. virtqueue_add_buffer (s_drv s) sg r w k = Some (VQUEUE_SUCCESS, d) \<and>
    virtqueue_add_buffer_dbg (Some (s_drv s)) sg r w k = Done (VQUEUE_SUCCESS, d)"
proof -
  obtain d a' where d: "virtqueue_add_buffer (s_drv s) sg r w k = Some (VQUEUE_SUCCESS, d)"
      "sim (s\<lparr>s_drv := d, s_dev := share d (s_dev s)\<rparr>) a'"
    using sim_submit[OF sim ok, of k] by blast
  obtain fs' cs' where "vq_inv d fs' cs'"
    using d(2) by (auto elim!: simD)
  note post = vq_inv_head_checked[OF this]
  have n: "0 < r + w" "vq_free_cnt (s_drv s) \<noteq> 0" using ok by (auto simp: submit_ok_def)
  obtain fs where fs: "set fs = q_free a" "vq_inv (s_drv s) fs (map b_chain (bufs a))"
    using sim by (auto elim!: simD)
  then obtain x xs where "fs = x # xs"
    using n(2) by (cases fs) (auto simp: vq_inv_def unat_eq_zero)
  then have "vq_desc_head_idx (s_drv s) \<in> q_free a"
    using fs by (auto simp: vq_inv_def)
  then have "x_cookie (vq_descx (s_drv s) ! unat (vq_desc_head_idx (s_drv s))) = 0"
    using clear sim_free_head[OF sim] by (simp add: cookies_clear_def)
  then show ?thesis
    using add_buffer_agrees[OF vq_inv_wf[OF fs(2)] _ n k _ d(1) post] idl d(1)
    by (simp add: idle_def)
qed

lemma reap_agrees:
  assumes sim: "sim s a" and idl: "idle s"
  shows "\<exists>x. virtqueue_get_buffer (Some (s_drv s)) = Some x \<and>
    virtqueue_get_buffer_dbg (Some (s_drv s)) = Done x"
proof (cases "q_done a")
  case Nil
  then have "vq_used_cons_idx (s_drv s) = u_idx (vq_used (s_drv s))"
    using sim by (auto elim!: simD)
  then show ?thesis by (simp add: virtqueue_get_buffer_dbg_def)
next
  case (Cons dn ds)
  obtain b len where "dn = (b, len)" by (cases dn)
  then have dn: "q_done a = (b, len) # ds" using Cons by simp
  obtain fs where f: "vq_inv (s_drv s) fs (map b_chain (bufs a))"
      "b_chain b \<in> set (map b_chain (bufs a))"
      "vq_used_cons_idx (s_drv s) \<noteq> u_idx (vq_used (s_drv s))"
      "u_ring (vq_used (s_drv s)) ! (unat (vq_used_cons_idx (s_drv s)) mod unat (vq_nentries (s_drv s))) =
         \<lparr>e_id = ucast (b_head b), e_len = len\<rparr>"
    by (rule sim_done_entry[OF sim dn])
  show ?thesis
    using get_buffer_spec[OF f] get_buffer_agrees[OF f(1) _ f(2-4)] idl
    by (simp add: idle_def)
qed

lemma nused_bound:
  assumes "sim s a"
  shows "virtqueue_nused (s_drv s) \<le> vq_nentries (s_drv s)"
proof (rule simD[OF assms])
  fix fs
  assume R: "vq_inv (s_drv s) fs (map b_chain (bufs a))"
    "in_flight (unat (vq_nentries (s_drv s))) (u_idx (vq_used (s_drv s)))
       (\<lambda>j. u_ring (vq_used (s_drv s)) ! j) (vq_used_cons_idx (s_drv s)) (map used_elem (q_done a))"
  show ?thesis
    using R(2) bufs_length[OF R(1)]
    by (simp add: virtqueue_nused_def in_flight_def Let_def word_le_nat_alt)
qed

section \<open>Properties\<close>

text \<open>
  C10: on every run of a driver and a device that starts with the creation of the queue
  and keeps to the interface (what the caller must see to, and no null cookies), no check of
  the debug build ever fails, and each operation of the debug build returns what the release
  build returns and leaves the same control block: the two builds are equivalent there.
\<close>

theorem virtqueue_debug_agrees:
  assumes "vq_sys_create dev qid name ring ring' cb nf io io' mem = Some s0"
    and "ai_num_descs ring = 2 ^ k" "ai_num_descs ring' = 2 ^ k" "k \<le> 15" "fresh_mem mem (2 ^ k)"
    and "vq_run s0 es s" "\<forall>e \<in> set es. with_cookie e"
  shows "(\<exists>x. virtqueue_create dev qid name ring cb nf io mem True = Some x \<and>
      virtqueue_create_dbg dev qid name (Some ring) cb nf io mem True = Done x) \<and>
    (submit_ok s sg r w \<and> c \<noteq> 0 \<longrightarrow>
      (\<exists>d. virtqueue_add_buffer (s_drv s) sg r w c = Some (VQUEUE_SUCCESS, d) \<and>
         virtqueue_add_buffer_dbg (Some (s_drv s)) sg r w c = Done (VQUEUE_SUCCESS, d))) \<and>
    (\<exists>x. virtqueue_get_available_buffer (s_dev s) = Some x \<and>
      virtqueue_get_available_buffer_dbg (s_dev s) = Done x) \<and>
    (h \<in> set (s_held s) \<longrightarrow>
      (\<exists>d. virtqueue_add_consumed_buffer (s_dev s) h len = Some (VQUEUE_SUCCESS, d) \<and>
         virtqueue_add_consumed_buffer_dbg (s_dev s) h len = Done (VQUEUE_SUCCESS, d))) \<and>
    (\<exists>x. virtqueue_get_buffer (Some (s_drv s)) = Some x \<and>
      virtqueue_get_buffer_dbg (Some (s_drv s)) = Done x) \<and>
    (\<exists>x. virtqueue_enable_cb (s_drv s) = Some x \<and> virtqueue_enable_cb_dbg (s_drv s) = Done x) \<and>
    (\<exists>x. virtqueue_disable_cb (s_drv s) = Some x \<and> virtqueue_disable_cb_dbg (s_drv s) = Done x) \<and>
    virtqueue_kick_dbg (\<lambda>f _. call f) (s_drv s) w' = Done (virtqueue_kick (\<lambda>f _. call f) (s_drv s) w')"
proof -
  obtain a where I: "idle s" and sim: "sim s a" and clear: "cookies_clear s a"
    using clear_run[OF assms(6,7)] created_clear[OF assms(1)] sys_create_spec[OF assms(2-5)] assms(1)
    by (metis option.inject)
  have flags: "vq_flags (s_drv s) = 0" and wf: "vq_wf (s_dev s)" using sim by (auto elim!: simD)
  have idl: "vq_inuse (s_drv s) = 0" "vq_inuse (s_dev s) = 0" using I by (simp_all add: idle_def)
  have "ring_mem_ok mem (2 ^ k)" using assms(5) by (simp add: fresh_mem_def)
  from create_spec[OF assms(2,4) this, of dev qid name cb nf io] obtain q where
    "virtqueue_create dev qid name ring cb nf io mem True = Some (VQUEUE_SUCCESS, Some q)" by blast
  then have cr: "\<exists>x. virtqueue_create dev qid name ring cb nf io mem True = Some x \<and>
      virtqueue_create_dbg dev qid name (Some ring) cb nf io mem True = Done x"
    using create_agrees[OF assms(2,4)] by blast
  have av: "\<exists>x. virtqueue_get_available_buffer (s_dev s) = Some x \<and>
      virtqueue_get_available_buffer_dbg (s_dev s) = Done x"
    using available_defined[OF sim] get_available_agrees[OF idl(2)] by blast
  have co: "\<exists>d. virtqueue_add_consumed_buffer (s_dev s) h len = Some (VQUEUE_SUCCESS, d) \<and>
      virtqueue_add_consumed_buffer_dbg (s_dev s) h len = Done (VQUEUE_SUCCESS, d)" if "h \<in> set (s_held s)"
    using sim_held_head[OF sim that] add_consumed_spec[of "s_dev s" h len] add_consumed_agrees[OF idl(2)]
    by blast
  have cb: "\<exists>x. virtqueue_enable_cb (s_drv s) = Some x \<and> virtqueue_enable_cb_dbg (s_drv s) = Done x"
      "\<exists>x. virtqueue_disable_cb (s_drv s) = Some x \<and> virtqueue_disable_cb_dbg (s_drv s) = Done x"
    using cb_flagged[OF flags] enable_agrees[OF nused_bound[OF sim]] disable_agrees[OF idl(1)] by blast+
  have ki: "virtqueue_kick_dbg (\<lambda>f _. call f) (s_drv s) w' =
      Done (virtqueue_kick (\<lambda>f _. call f) (s_drv s) w')"
    by (rule kick_agrees[OF idl(1)]) simp
  show ?thesis
    by (intro conjI impI, rule cr, erule conjE, erule (1) submit_agrees[OF sim clear I], rule av,
        erule co, rule reap_agrees[OF sim I], rule cb(1), rule cb(2), rule ki)
qed

lemma run_small: "(2 :: nat) \<le> 15"
  by simp

theorem virtqueue_debug_agrees_witness:
  "(\<exists>x. virtqueue_get_buffer (Some (s_drv (the (exec_run run_start run_events)))) = Some x \<and>
     virtqueue_get_buffer_dbg (Some (s_drv (the (exec_run run_start run_events)))) = Done x) \<and>
   (\<exists>x. virtqueue_enable_cb_dbg (s_drv (the (exec_run run_start run_events))) = Done x)"
proof -
  have "\<forall>e \<in> set run_events. with_cookie e" by (simp add: run_events_def)
  note all = virtqueue_debug_agrees[OF run_facts(1,2,2) run_small run_facts(3,4) this,
      where sg = run_sg and r = 0 and w = 1 and c = 5 and h = 0 and len = 20 and
        call = "\<lambda>_ n. n" and w' = "0 :: nat"]
  show ?thesis
    by (insert all, intro conjI, elim conjE, assumption, elim conjE exE, rule exI, assumption)
qed






end
