(* ===== verification/Virtqueue_Steps.thy ===== *)
theory Virtqueue_Steps
  imports Virtqueue_Trace
begin

text \<open>
  The two sides of a virtqueue inside their operations. \<open>Virtqueue_Protocol\<close> lets the driver
  and the device take turns operation by operation; here each operation of
  \<^verbatim>\<open>util/virtqueue.c\<close> is the sequence of its accesses to the memory both sides map, and the
  accesses of the two sides interleave in any way. A step is one read or write of a word of
  the ring (or an update of a word its own side alone writes, such as \<^verbatim>\<open>avail->idx++\<close>) together with
  the private computation around it, and the steps take effect in program order, which is
  what the \<^verbatim>\<open>atomic_thread_fence\<close> calls are there for: the memory is sequentially consistent.

  Here are the steps, their interleavings, and that the steps of one side, run without the
  other, are its operation. \<open>Virtqueue_Interleaving\<close> relates the interleavings to runs of whole
  operations, and \<open>Virtqueue_Concurrent\<close> draws the conclusions.
\<close>

section \<open>The driver's steps\<close>

text \<open>The arguments of a call of \<open>virtqueue_add_buffer\<close>, live until it returns.\<close>

record add_call =
  ac_sg :: "metal_sg list"
  ac_readable :: int
  ac_writable :: int
  ac_cookie :: u64

abbreviation ac_needed :: "add_call \<Rightarrow> int" where
  "ac_needed q \<equiv> ac_readable q + ac_writable q"

abbreviation ac_event :: "add_call \<Rightarrow> vq_event" where
  "ac_event q \<equiv> Submit (ac_sg q) (ac_readable q) (ac_writable q) (ac_cookie q)"

text \<open>
  Where the driver is in an operation, with the locals that are live there. \<open>Add_\<dots>\<close>:
  \<open>virtqueue_add_buffer\<close> with \<open>vq_ring_add_buffer\<close> (head, \<open>idx\<close>, \<open>i\<close>) and
  \<open>vq_ring_update_avail\<close>; \<open>Get_\<dots>\<close>: \<open>virtqueue_get_buffer\<close>; \<open>Free_\<dots>\<close>: its
  \<open>vq_ring_free_chain\<close> (the length read, the head, the current descriptor).
\<close>

datatype drv_pc =
    D_Idle
  | Add_Start add_call
  | Add_Addr add_call u16 u16 int
  | Add_Len add_call u16 u16 int
  | Add_Flags add_call u16 u16 int
  | Add_Flag_Next add_call u16 u16 int
  | Add_Flag_Write add_call u16 u16 int
  | Add_Slot add_call u16
  | Add_Idx add_call
  | Add_Queued
  | Get_Check
  | Get_Id
  | Get_Len u16 u16
  | Free_Start u32 u16
  | Free_Flags u32 u16 u16
  | Free_Next u32 u16 u16
  | Free_Link u32 u16 u16
  | Get_Cookie u32 u16
  | Enable_Flag
  | Enable_Used
  | Disable_Flag
  | Kick_Check
  | Kick_Clear

text \<open>Writing one descriptor of the table.\<close>

definition write_desc :: "virtqueue \<Rightarrow> u16 \<Rightarrow> (vring_desc \<Rightarrow> vring_desc) \<Rightarrow> virtqueue option" where
  "write_desc vq idx f =
     Option.bind (array_get (vq_desc vq) (unat idx)) (\<lambda>d.
       Some (upd_desc ((vq_desc vq)[unat idx := f d]) vq))"

text \<open>
  One step: the event, if the operation takes effect there, where it goes on, and the control
  block. First \<^verbatim>\<open>virtqueue_add_buffer\<close> up to the call of \<^verbatim>\<open>vq_ring_add_buffer\<close>.
\<close>

fun add_next :: "drv_pc \<Rightarrow> virtqueue \<Rightarrow> (vq_event option \<times> drv_pc \<times> virtqueue) option" where
  "add_next (Add_Start q) vq =
     (let head_idx = vq_desc_head_idx vq
      in if \<not> c_int (ac_needed q) then None
         else Option.bind (array_get (vq_descx vq) (unat head_idx)) (\<lambda>dxp.
           Some (None, Add_Addr q head_idx head_idx 0,
                 vq\<lparr>vq_descx := (vq_descx vq)[unat head_idx :=
                      dxp\<lparr>x_cookie := ac_cookie q, x_ndescs := of_int (ac_needed q)\<rparr>]\<rparr>)))"
| "add_next pc vq = None"

text \<open>
  \<^verbatim>\<open>vq_ring_add_buffer\<close>: one iteration writes the address, the length and, in three accesses, the
  flags. After the last one \<^verbatim>\<open>virtqueue_add_buffer\<close> sets the head of the free chain and the count.
\<close>

fun fill_next :: "drv_pc \<Rightarrow> virtqueue \<Rightarrow> (vq_event option \<times> drv_pc \<times> virtqueue) option" where
  "fill_next (Add_Addr q head_idx idx i) vq =
     (if i < ac_needed q
      then Option.bind (array_get (ac_sg q) (nat i)) (\<lambda>s.
           Option.bind (metal_io_virt_to_phys (sg_io s) (sg_virt s)) (\<lambda>phys.
           Option.bind (write_desc vq idx (\<lambda>d. d\<lparr>d_addr := phys\<rparr>)) (\<lambda>vq'.
             Some (None, Add_Len q head_idx idx i, vq'))))
      else Some (None, Add_Slot q head_idx,
                 vq\<lparr>vq_desc_head_idx := idx, vq_free_cnt := vq_free_cnt vq - of_int (ac_needed q)\<rparr>))"
| "fill_next (Add_Len q head_idx idx i) vq =
     Option.bind (array_get (ac_sg q) (nat i)) (\<lambda>s.
     Option.bind (write_desc vq idx (\<lambda>d. d\<lparr>d_len := sg_len s\<rparr>)) (\<lambda>vq'.
       Some (None, Add_Flags q head_idx idx i, vq')))"
| "fill_next (Add_Flags q head_idx idx i) vq =
     Option.bind (write_desc vq idx (\<lambda>d. d\<lparr>d_flags := 0\<rparr>)) (\<lambda>vq'.
       Some (None, Add_Flag_Next q head_idx idx i, vq'))"
| "fill_next (Add_Flag_Next q head_idx idx i) vq =
     Option.bind
       (if i < ac_needed q - 1
        then write_desc vq idx (\<lambda>d. d\<lparr>d_flags := d_flags d OR VRING_DESC_F_NEXT\<rparr>)
        else Some vq) (\<lambda>vq'.
       Some (None, Add_Flag_Write q head_idx idx i, vq'))"
| "fill_next (Add_Flag_Write q head_idx idx i) vq =
     Option.bind
       (if ac_readable q \<le> i
        then write_desc vq idx (\<lambda>d. d\<lparr>d_flags := d_flags d OR VRING_DESC_F_WRITE\<rparr>)
        else Some vq) (\<lambda>vq'.
     Option.bind (array_get (vq_desc vq') (unat idx)) (\<lambda>d.
       Some (None, Add_Addr q head_idx (d_next d) (i + 1), vq')))"
| "fill_next pc vq = None"

text \<open>\<^verbatim>\<open>vq_ring_update_avail\<close>: the slot, the index, and the count of what is queued.\<close>

fun publish_next :: "drv_pc \<Rightarrow> virtqueue \<Rightarrow> (vq_event option \<times> drv_pc \<times> virtqueue) option" where
  "publish_next (Add_Slot q head_idx) vq =
     (let a = vq_avail vq;
          avail_idx = a_idx a AND (vq_nentries vq - 1)
      in Option.bind (array_set (a_ring a) (unat avail_idx) head_idx) (\<lambda>ring.
           Some (None, Add_Idx q, upd_avail (a\<lparr>a_ring := ring\<rparr>) vq)))"
| "publish_next (Add_Idx q) vq =
     (let a = vq_avail vq
      in Some (Some (ac_event q), Add_Queued, upd_avail (a\<lparr>a_idx := a_idx a + 1\<rparr>) vq))"
| "publish_next Add_Queued vq = Some (None, D_Idle, vq\<lparr>vq_queued_cnt := vq_queued_cnt vq + 1\<rparr>)"
| "publish_next pc vq = None"

text \<open>\<^verbatim>\<open>virtqueue_get_buffer\<close>: the index of the device, its entry, and after the chain is free the cookie.\<close>

fun get_next :: "drv_pc \<Rightarrow> virtqueue \<Rightarrow> (vq_event option \<times> drv_pc \<times> virtqueue) option" where
  "get_next Get_Check vq =
     (if vq_used_cons_idx vq = u_idx (vq_used vq) then Some (None, D_Idle, vq)
      else Some (None, Get_Id, vq))"
| "get_next Get_Id vq =
     (let used_idx = vq_used_cons_idx vq AND (vq_nentries vq - 1)
      in Option.bind (array_get (u_ring (vq_used vq)) (unat used_idx)) (\<lambda>uep.
           Some (None, Get_Len used_idx (ucast (e_id uep)),
                 vq\<lparr>vq_used_cons_idx := vq_used_cons_idx vq + 1\<rparr>)))"
| "get_next (Get_Len used_idx desc_idx) vq =
     Option.bind (array_get (u_ring (vq_used vq)) (unat used_idx)) (\<lambda>uep.
       Some (None, Free_Start (e_len uep) desc_idx, vq))"
| "get_next (Get_Cookie len desc_idx) vq =
     Option.bind (array_get (vq_descx vq) (unat desc_idx)) (\<lambda>dxp.
       Some (Some (Reap (x_cookie dxp) len), D_Idle,
             vq\<lparr>vq_descx := (vq_descx vq)[unat desc_idx := dxp\<lparr>x_cookie := 0\<rparr>]\<rparr>))"
| "get_next pc vq = None"

text \<open>\<^verbatim>\<open>vq_ring_free_chain\<close>: the walk to the last descriptor of the chain, and its link to the free ones.\<close>

fun free_next :: "drv_pc \<Rightarrow> virtqueue \<Rightarrow> (vq_event option \<times> drv_pc \<times> virtqueue) option" where
  "free_next (Free_Start len desc_idx) vq =
     Option.bind (array_get (vq_desc vq) (unat desc_idx)) (\<lambda>dp.
     Option.bind (array_get (vq_descx vq) (unat desc_idx)) (\<lambda>dxp.
       Some (None,
             if d_flags dp AND VRING_DESC_F_INDIRECT = 0 then Free_Flags len desc_idx desc_idx
             else Free_Link len desc_idx desc_idx,
             vq\<lparr>vq_free_cnt := vq_free_cnt vq + x_ndescs dxp,
                vq_descx := (vq_descx vq)[unat desc_idx := dxp\<lparr>x_ndescs := x_ndescs dxp - 1\<rparr>]\<rparr>)))"
| "free_next (Free_Flags len desc_idx idx) vq =
     Option.bind (array_get (vq_desc vq) (unat idx)) (\<lambda>dp.
       Some (None,
             if d_flags dp AND VRING_DESC_F_NEXT \<noteq> 0 then Free_Next len desc_idx idx
             else Free_Link len desc_idx idx, vq))"
| "free_next (Free_Next len desc_idx idx) vq =
     Option.bind (array_get (vq_desc vq) (unat idx)) (\<lambda>dp.
     Option.bind (array_get (vq_descx vq) (unat desc_idx)) (\<lambda>dxp.
       Some (None, Free_Flags len desc_idx (d_next dp),
             vq\<lparr>vq_descx := (vq_descx vq)[unat desc_idx := dxp\<lparr>x_ndescs := x_ndescs dxp - 1\<rparr>]\<rparr>)))"
| "free_next (Free_Link len desc_idx idx) vq =
     Option.bind (write_desc vq idx (\<lambda>d. d\<lparr>d_next := vq_desc_head_idx vq\<rparr>)) (\<lambda>vq'.
       Some (None, Get_Cookie len desc_idx, vq'\<lparr>vq_desc_head_idx := desc_idx\<rparr>))"
| "free_next pc vq = None"

text \<open>
  \<^verbatim>\<open>vq_ring_enable_interrupt\<close>, called with 0: the flag is written, then \<^verbatim>\<open>used->idx\<close> is read
  and with it the result is fixed.
\<close>

fun enable_next :: "drv_pc \<Rightarrow> virtqueue \<Rightarrow> (vq_event option \<times> drv_pc \<times> virtqueue) option" where
  "enable_next Enable_Flag vq =
     (let a = vq_avail vq
      in Option.bind
           (if vq_flags vq AND VIRTQUEUE_FLAG_EVENT_IDX \<noteq> 0
            then Option.bind
                   (array_set (a_ring a) (unat (v_num (vq_ring vq))) (vq_used_cons_idx vq + 0))
                   (\<lambda>ring. Some (upd_avail (a\<lparr>a_ring := ring\<rparr>) vq))
            else Some (upd_avail (a\<lparr>a_flags := a_flags a AND NOT VRING_AVAIL_F_NO_INTERRUPT\<rparr>) vq))
           (\<lambda>vq'. Some (None, Enable_Used, vq')))"
| "enable_next Enable_Used vq =
     (if 0 < virtqueue_nused vq then Some (Some (Enable_Cb 1), D_Idle, vq)
      else Some (Some (Enable_Cb 0), D_Idle, vq))"
| "enable_next pc vq = None"

text \<open>\<^verbatim>\<open>virtqueue_disable_cb\<close> is one access.\<close>

fun disable_next :: "drv_pc \<Rightarrow> virtqueue \<Rightarrow> (vq_event option \<times> drv_pc \<times> virtqueue) option" where
  "disable_next Disable_Flag vq =
     Option.bind (virtqueue_disable_cb vq) (\<lambda>vq'. Some (Some Disable_Cb, D_Idle, vq'))"
| "disable_next pc vq = None"

text \<open>
  \<^verbatim>\<open>virtqueue_kick\<close>: the other side's wish is read and its \<^verbatim>\<open>notify\<close> called, if there is one, which
  the event says; then the count is cleared.
\<close>

fun kick_next :: "drv_pc \<Rightarrow> virtqueue \<Rightarrow> (vq_event option \<times> drv_pc \<times> virtqueue) option" where
  "kick_next Kick_Check vq =
     (if vq_ring_must_notify_host vq
      then Some (Some (Kick (vq_notify vq \<noteq> 0)), Kick_Clear, vq)
      else Some (Some (Kick False), Kick_Clear, vq))"
| "kick_next Kick_Clear vq = Some (None, D_Idle, vq\<lparr>vq_queued_cnt := 0\<rparr>)"
| "kick_next pc vq = None"

fun drv_next :: "drv_pc \<Rightarrow> virtqueue \<Rightarrow> (vq_event option \<times> drv_pc \<times> virtqueue) option" where
  "drv_next D_Idle vq = None"
| "drv_next (Add_Start q) vq = add_next (Add_Start q) vq"
| "drv_next (Add_Addr q head_idx idx i) vq = fill_next (Add_Addr q head_idx idx i) vq"
| "drv_next (Add_Len q head_idx idx i) vq = fill_next (Add_Len q head_idx idx i) vq"
| "drv_next (Add_Flags q head_idx idx i) vq = fill_next (Add_Flags q head_idx idx i) vq"
| "drv_next (Add_Flag_Next q head_idx idx i) vq = fill_next (Add_Flag_Next q head_idx idx i) vq"
| "drv_next (Add_Flag_Write q head_idx idx i) vq = fill_next (Add_Flag_Write q head_idx idx i) vq"
| "drv_next (Add_Slot q head_idx) vq = publish_next (Add_Slot q head_idx) vq"
| "drv_next (Add_Idx q) vq = publish_next (Add_Idx q) vq"
| "drv_next Add_Queued vq = publish_next Add_Queued vq"
| "drv_next Get_Check vq = get_next Get_Check vq"
| "drv_next Get_Id vq = get_next Get_Id vq"
| "drv_next (Get_Len used_idx desc_idx) vq = get_next (Get_Len used_idx desc_idx) vq"
| "drv_next (Free_Start len desc_idx) vq = free_next (Free_Start len desc_idx) vq"
| "drv_next (Free_Flags len desc_idx idx) vq = free_next (Free_Flags len desc_idx idx) vq"
| "drv_next (Free_Next len desc_idx idx) vq = free_next (Free_Next len desc_idx idx) vq"
| "drv_next (Free_Link len desc_idx idx) vq = free_next (Free_Link len desc_idx idx) vq"
| "drv_next (Get_Cookie len desc_idx) vq = get_next (Get_Cookie len desc_idx) vq"
| "drv_next Enable_Flag vq = enable_next Enable_Flag vq"
| "drv_next Enable_Used vq = enable_next Enable_Used vq"
| "drv_next Disable_Flag vq = disable_next Disable_Flag vq"
| "drv_next Kick_Check vq = kick_next Kick_Check vq"
| "drv_next Kick_Clear vq = kick_next Kick_Clear vq"

section \<open>The device's steps\<close>

text \<open>
  \<open>Take_\<dots>\<close>: \<open>virtqueue_get_available_buffer\<close> (the buffer, its index); \<open>Put_\<dots>\<close>:
  \<open>virtqueue_add_consumed_buffer\<close> (the index, the length, and once read the slot).
\<close>

datatype dev_pc =
    V_Idle
  | Take_Check
  | Take_Slot
  | Take_Addr u16
  | Take_Len u64 u16
  | Put_Id u16 u32
  | Put_Len u16 u32 u16
  | Put_Idx u16 u32

fun take_next :: "dev_pc \<Rightarrow> virtqueue \<Rightarrow> (vq_event option \<times> dev_pc \<times> virtqueue) option" where
  "take_next Take_Check vq =
     (if vq_available_idx vq = a_idx (vq_avail vq) then Some (None, V_Idle, vq)
      else Some (None, Take_Slot, vq))"
| "take_next Take_Slot vq =
     (let head_idx = vq_available_idx vq AND (vq_nentries vq - 1)
      in Option.bind (array_get (a_ring (vq_avail vq)) (unat head_idx)) (\<lambda>avail_idx.
           Some (None, Take_Addr avail_idx, vq\<lparr>vq_available_idx := vq_available_idx vq + 1\<rparr>)))"
| "take_next (Take_Addr avail_idx) vq =
     Option.bind (array_get (vq_desc vq) (unat avail_idx)) (\<lambda>d.
     Option.bind (metal_io_phys_to_virt (vq_shm_io vq) (d_addr d)) (\<lambda>buffer.
       Some (None, Take_Len buffer avail_idx, vq)))"
| "take_next (Take_Len buffer avail_idx) vq =
     Option.bind (array_get (vq_desc vq) (unat avail_idx)) (\<lambda>d.
       Some (Some (Take buffer avail_idx (d_len d)), V_Idle, vq))"
| "take_next pc vq = None"

fun put_next :: "dev_pc \<Rightarrow> virtqueue \<Rightarrow> (vq_event option \<times> dev_pc \<times> virtqueue) option" where
  "put_next (Put_Id head_idx len) vq =
     (if vq_nentries vq < head_idx then Some (None, V_Idle, vq)
      else
        let u = vq_used vq;
            used_idx = u_idx u AND (vq_nentries vq - 1)
        in Option.bind (array_get (u_ring u) (unat used_idx)) (\<lambda>e.
             Some (None, Put_Len head_idx len used_idx,
                   upd_used (u\<lparr>u_ring := (u_ring u)[unat used_idx := e\<lparr>e_id := ucast head_idx\<rparr>]\<rparr>) vq)))"
| "put_next (Put_Len head_idx len used_idx) vq =
     (let u = vq_used vq
      in Option.bind (array_get (u_ring u) (unat used_idx)) (\<lambda>e.
           Some (None, Put_Idx head_idx len,
                 upd_used (u\<lparr>u_ring := (u_ring u)[unat used_idx := e\<lparr>e_len := len\<rparr>]\<rparr>) vq)))"
| "put_next (Put_Idx head_idx len) vq =
     (let u = vq_used vq
      in Some (Some (Complete head_idx len), V_Idle, upd_used (u\<lparr>u_idx := u_idx u + 1\<rparr>) vq))"
| "put_next pc vq = None"

fun dev_next :: "dev_pc \<Rightarrow> virtqueue \<Rightarrow> (vq_event option \<times> dev_pc \<times> virtqueue) option" where
  "dev_next V_Idle vq = None"
| "dev_next Take_Check vq = take_next Take_Check vq"
| "dev_next Take_Slot vq = take_next Take_Slot vq"
| "dev_next (Take_Addr avail_idx) vq = take_next (Take_Addr avail_idx) vq"
| "dev_next (Take_Len buffer avail_idx) vq = take_next (Take_Len buffer avail_idx) vq"
| "dev_next (Put_Id head_idx len) vq = put_next (Put_Id head_idx len) vq"
| "dev_next (Put_Len head_idx len used_idx) vq = put_next (Put_Len head_idx len used_idx) vq"
| "dev_next (Put_Idx head_idx len) vq = put_next (Put_Idx head_idx len) vq"

section \<open>Interleaving\<close>

record vq_fine =
  f_sys :: vq_sys
  f_drv :: drv_pc
  f_dev :: dev_pc

text \<open>What each side's caller may start: the guards of \<^const>\<open>vq_step\<close>.\<close>

fun drv_call :: "vq_sys \<Rightarrow> drv_pc \<Rightarrow> bool" where
  "drv_call s (Add_Start q) \<longleftrightarrow> submit_ok s (ac_sg q) (ac_readable q) (ac_writable q)"
| "drv_call s pc \<longleftrightarrow> pc \<in> {Get_Check, Enable_Flag, Disable_Flag, Kick_Check}"

fun dev_call :: "vq_sys \<Rightarrow> dev_pc \<Rightarrow> bool" where
  "dev_call s (Put_Id h len) \<longleftrightarrow> h \<in> set (s_held s)"
| "dev_call s pc \<longleftrightarrow> pc = Take_Check"

definition held_after :: "vq_event option \<Rightarrow> u16 list \<Rightarrow> u16 list" where
  "held_after e hs =
     (case e of Some (Take b h len) \<Rightarrow> h # hs | Some (Complete h len) \<Rightarrow> remove1 h hs | _ \<Rightarrow> hs)"

inductive fine_step :: "vq_fine \<Rightarrow> vq_event option \<Rightarrow> vq_fine \<Rightarrow> bool" where
  drv_start: "f_drv f = D_Idle \<Longrightarrow> drv_call (f_sys f) pc \<Longrightarrow> fine_step f None (f\<lparr>f_drv := pc\<rparr>)"
| dev_start: "f_dev f = V_Idle \<Longrightarrow> dev_call (f_sys f) pc \<Longrightarrow> fine_step f None (f\<lparr>f_dev := pc\<rparr>)"
| drv_move: "drv_next (f_drv f) (s_drv (f_sys f)) = Some (e, pc, d) \<Longrightarrow>
    fine_step f e (f\<lparr>f_sys := (f_sys f)\<lparr>s_drv := d, s_dev := share d (s_dev (f_sys f))\<rparr>, f_drv := pc\<rparr>)"
| dev_move: "dev_next (f_dev f) (s_dev (f_sys f)) = Some (e, pc, d) \<Longrightarrow>
    fine_step f e (f\<lparr>f_sys := (f_sys f)\<lparr>s_drv := share d (s_drv (f_sys f)), s_dev := d,
      s_held := held_after e (s_held (f_sys f))\<rparr>, f_dev := pc\<rparr>)"

definition opt_list :: "'a option \<Rightarrow> 'a list" where
  "opt_list x = (case x of None \<Rightarrow> [] | Some y \<Rightarrow> [y])"

inductive fine_run :: "vq_fine \<Rightarrow> vq_event list \<Rightarrow> vq_fine \<Rightarrow> bool" where
  fine_Nil: "fine_run f [] f"
| fine_snoc: "fine_run f es f' \<Longrightarrow> fine_step f' e f'' \<Longrightarrow> fine_run f (es @ opt_list e) f''"

definition fine_start :: "vq_sys \<Rightarrow> vq_fine" where
  "fine_start s = \<lparr>f_sys = s, f_drv = D_Idle, f_dev = V_Idle\<rparr>"

text \<open>
  The same as a function of a schedule, for evaluation: what is started, and which side moves.
\<close>

datatype fine_choice = Start_Drv drv_pc | Start_Dev dev_pc | Drv | Dev

fun fine_do :: "vq_fine \<Rightarrow> fine_choice \<Rightarrow> (vq_event option \<times> vq_fine) option" where
  "fine_do f (Start_Drv pc) =
     (if f_drv f = D_Idle \<and> drv_call (f_sys f) pc then Some (None, f\<lparr>f_drv := pc\<rparr>) else None)"
| "fine_do f (Start_Dev pc) =
     (if f_dev f = V_Idle \<and> dev_call (f_sys f) pc then Some (None, f\<lparr>f_dev := pc\<rparr>) else None)"
| "fine_do f Drv = Option.bind (drv_next (f_drv f) (s_drv (f_sys f))) (\<lambda>(e, pc, d).
     Some (e, f\<lparr>f_sys := (f_sys f)\<lparr>s_drv := d, s_dev := share d (s_dev (f_sys f))\<rparr>, f_drv := pc\<rparr>))"
| "fine_do f Dev = Option.bind (dev_next (f_dev f) (s_dev (f_sys f))) (\<lambda>(e, pc, d).
     Some (e, f\<lparr>f_sys := (f_sys f)\<lparr>s_drv := share d (s_drv (f_sys f)), s_dev := d,
       s_held := held_after e (s_held (f_sys f))\<rparr>, f_dev := pc\<rparr>))"

primrec fine_exec :: "vq_fine \<Rightarrow> fine_choice list \<Rightarrow> (vq_event list \<times> vq_fine) option" where
  "fine_exec f [] = Some ([], f)"
| "fine_exec f (c # cs) = Option.bind (fine_do f c) (\<lambda>(e, f1).
     Option.bind (fine_exec f1 cs) (\<lambda>(es, f2). Some (opt_list e @ es, f2)))"

lemma fine_do_step: "fine_do f c = Some (e, f') \<Longrightarrow> fine_step f e f'"
  by (cases c) (auto intro: fine_step.intros split: if_splits bind_splits)

lemma fine_run_append: "fine_run f1 es' f2 \<Longrightarrow> fine_run f es f1 \<Longrightarrow> fine_run f (es @ es') f2"
proof (induction arbitrary: f es rule: fine_run.induct)
  case (fine_snoc f1 es1 f2 e f3)
  from fine_run.fine_snoc[OF fine_snoc.IH[OF fine_snoc.prems] fine_snoc.hyps(2)] show ?case
    by simp
qed simp

lemma fine_exec_run: "fine_exec f cs = Some (es, f') \<Longrightarrow> fine_run f es f'"
proof (induction cs arbitrary: f es)
  case (Cons c cs)
  then obtain e f1 es1 where s: "fine_do f c = Some (e, f1)" "fine_exec f1 cs = Some (es1, f')"
      "es = opt_list e @ es1"
    by (auto split: bind_splits)
  have "fine_run f (opt_list e) f1"
    using fine_run.fine_snoc[OF fine_Nil fine_do_step[OF s(1)]] by simp
  from fine_run_append[OF Cons.IH[OF s(2)] this] show ?case
    by (simp add: s(3))
qed (simp add: fine_Nil)

section \<open>One side alone\<close>

text \<open>The steps of one side from \<open>pc\<close> to the end of the operation, with the events on the way.\<close>

inductive drv_alone :: "drv_pc \<Rightarrow> virtqueue \<Rightarrow> vq_event list \<Rightarrow> virtqueue \<Rightarrow> bool" where
  da_idle: "drv_alone D_Idle vq [] vq"
| da_step: "drv_next pc vq = Some (e, pc', vq') \<Longrightarrow> drv_alone pc' vq' es d \<Longrightarrow>
    drv_alone pc vq (opt_list e @ es) d"

inductive dev_alone :: "dev_pc \<Rightarrow> virtqueue \<Rightarrow> vq_event list \<Rightarrow> virtqueue \<Rightarrow> bool" where
  va_idle: "dev_alone V_Idle vq [] vq"
| va_step: "dev_next pc vq = Some (e, pc', vq') \<Longrightarrow> dev_alone pc' vq' es d \<Longrightarrow>
    dev_alone pc vq (opt_list e @ es) d"

inductive_cases drv_alone_elim: "drv_alone pc vq es d"
inductive_cases dev_alone_elim: "dev_alone pc vq es d"

lemma opt_list_simps [simp]: "opt_list None = []" "opt_list (Some x) = [x]"
  by (simp_all add: opt_list_def)

text \<open>The steps are a function: a side alone has one way to go on.\<close>

lemma drv_alone_same:
  "drv_alone pc vq es d \<Longrightarrow> drv_alone pc vq es' d' \<Longrightarrow> es' = es \<and> d' = d"
proof (induction arbitrary: es' d' rule: drv_alone.induct)
  case (da_idle vq)
  then show ?case by (auto elim: drv_alone_elim)
next
  case (da_step pc vq e pc' vq' es d)
  from da_step.prems da_step.hyps(1) obtain es1 where "es' = opt_list e @ es1" "drv_alone pc' vq' es1 d'"
    by (cases rule: drv_alone.cases) auto
  then show ?case using da_step.IH by blast
qed

lemma dev_alone_same:
  "dev_alone pc vq es d \<Longrightarrow> dev_alone pc vq es' d' \<Longrightarrow> es' = es \<and> d' = d"
proof (induction arbitrary: es' d' rule: dev_alone.induct)
  case (va_idle vq)
  then show ?case by (auto elim: dev_alone_elim)
next
  case (va_step pc vq e pc' vq' es d)
  from va_step.prems va_step.hyps(1) obtain es1 where "es' = opt_list e @ es1" "dev_alone pc' vq' es1 d'"
    by (cases rule: dev_alone.cases) auto
  then show ?case using va_step.IH by blast
qed

lemma drv_alone_quiet:
  "drv_next pc vq = Some (None, pc', vq') \<Longrightarrow> drv_alone pc' vq' es d \<Longrightarrow> drv_alone pc vq es d"
  using da_step[of pc vq None pc' vq' es d] by simp

lemma drv_alone_event:
  "drv_next pc vq = Some (Some e, pc', vq') \<Longrightarrow> drv_alone pc' vq' es d \<Longrightarrow> drv_alone pc vq (e # es) d"
  using da_step[of pc vq "Some e" pc' vq' es d] by simp

lemma dev_alone_quiet:
  "dev_next pc vq = Some (None, pc', vq') \<Longrightarrow> dev_alone pc' vq' es d \<Longrightarrow> dev_alone pc vq es d"
  using va_step[of pc vq None pc' vq' es d] by simp

lemma dev_alone_event:
  "dev_next pc vq = Some (Some e, pc', vq') \<Longrightarrow> dev_alone pc' vq' es d \<Longrightarrow> dev_alone pc vq (e # es) d"
  using va_step[of pc vq "Some e" pc' vq' es d] by simp

lemma drv_alone_idle [simp]: "drv_alone D_Idle vq es d \<longleftrightarrow> es = [] \<and> d = vq"
  by (auto intro: da_idle elim: drv_alone_elim)

lemma dev_alone_idle [simp]: "dev_alone V_Idle vq es d \<longleftrightarrow> es = [] \<and> d = vq"
  by (auto intro: va_idle elim: dev_alone_elim)

text \<open>What is left after a step is what was left before it.\<close>

lemma drv_alone_next:
  assumes "drv_alone pc vq es d" "drv_next pc vq = Some (e, pc', vq')"
  obtains es' where "es = opt_list e @ es'" "drv_alone pc' vq' es' d"
  using assms(1) by (cases rule: drv_alone.cases) (use assms(2) in auto)

lemma drv_alone_defined: "drv_alone pc vq es d \<Longrightarrow> pc \<noteq> D_Idle \<Longrightarrow> drv_next pc vq \<noteq> None"
  by (auto elim: drv_alone_elim)

lemma dev_alone_defined: "dev_alone pc vq es d \<Longrightarrow> pc \<noteq> V_Idle \<Longrightarrow> dev_next pc vq \<noteq> None"
  by (auto elim: dev_alone_elim)

subsection \<open>Adding a buffer\<close>

lemma write_desc_some [simp]:
  "unat idx < length (vq_desc vq) \<Longrightarrow>
    write_desc vq idx f = Some (upd_desc ((vq_desc vq)[unat idx := f (vq_desc vq ! unat idx)]) vq)"
  by (simp add: write_desc_def)

lemma publish_alone:
  assumes "vq_ring_update_avail vq h = Some d"
  shows "drv_alone (Add_Slot q h) vq [ac_event q] d"
proof -
  let ?i = "a_idx (vq_avail vq) AND (vq_nentries vq - 1)"
  have i: "unat ?i < length (a_ring (vq_avail vq))"
    and d: "d = (upd_avail ((vq_avail vq)\<lparr>a_ring := (a_ring (vq_avail vq))[unat ?i := h],
      a_idx := a_idx (vq_avail vq) + 1\<rparr>) vq)\<lparr>vq_queued_cnt := vq_queued_cnt vq + 1\<rparr>"
    using assms by (auto simp: vq_ring_update_avail_def Let_def array_set_Some split: bind_splits)
  have "drv_alone Add_Queued (upd_avail ((vq_avail vq)\<lparr>a_ring := (a_ring (vq_avail vq))[unat ?i := h],
      a_idx := a_idx (vq_avail vq) + 1\<rparr>) vq) [] d"
    unfolding d by (intro drv_alone_quiet[of Add_Queued _ D_Idle]) simp_all
  then have "drv_alone (Add_Idx q)
      (upd_avail ((vq_avail vq)\<lparr>a_ring := (a_ring (vq_avail vq))[unat ?i := h]\<rparr>) vq) [ac_event q] d"
    by (intro drv_alone_event[of "Add_Idx q"]) (simp_all add: Let_def)
  then show ?thesis
    using i by (intro drv_alone_quiet[of "Add_Slot q h"]) (simp_all add: Let_def)
qed

lemma fill_alone:
  assumes "vq_ring_add_buffer_loop ds idx (ac_sg q) (ac_readable q) (ac_needed q) i = Some (ds', idx')"
    and "vq_desc vq = ds"
    and "drv_alone (Add_Slot q h) ((upd_desc ds' vq)
      \<lparr>vq_desc_head_idx := idx', vq_free_cnt := vq_free_cnt vq - of_int (ac_needed q)\<rparr>) es d"
  shows "drv_alone (Add_Addr q h idx i) vq es d"
  using assms
proof (induction "nat (ac_needed q - i)" arbitrary: ds idx i vq)
  case 0
  then have "\<not> i < ac_needed q" by simp
  moreover have "ds' = ds" "idx' = idx"
    using 0(2) calculation by (simp_all add: vq_ring_add_buffer_loop.simps)
  ultimately show ?case
    using 0(3,4) by (intro drv_alone_quiet[of "Add_Addr q h idx i"]) simp_all
next
  case (Suc m)
  then have i: "i < ac_needed q" by simp
  from Suc.prems(1) i obtain s dd phys where s: "array_get (ac_sg q) (nat i) = Some s"
      "array_get ds (unat idx) = Some dd" "metal_io_virt_to_phys (sg_io s) (sg_virt s) = Some phys"
    by (subst (asm) vq_ring_add_buffer_loop.simps) (auto split: bind_splits)
  have x: "unat idx < length ds" "ds ! unat idx = dd"
    using s(2) by simp_all
  let ?f1 = "if i < ac_needed q - 1 then 0 OR VRING_DESC_F_NEXT else 0"
  let ?f2 = "if ac_readable q \<le> i then ?f1 OR VRING_DESC_F_WRITE else ?f1"
  let ?d' = "dd\<lparr>d_addr := phys, d_len := sg_len s, d_flags := ?f2\<rparr>"
  let ?vq = "upd_desc (ds[unat idx := ?d']) vq"
  have loop: "vq_ring_add_buffer_loop (ds[unat idx := ?d']) (d_next dd) (ac_sg q) (ac_readable q)
      (ac_needed q) (i + 1) = Some (ds', idx')"
    using Suc.prems(1) i s by (subst (asm) vq_ring_add_buffer_loop.simps) (simp add: Let_def)
  have "drv_alone (Add_Addr q h (d_next dd) (i + 1)) ?vq es d"
    using Suc.hyps(2) Suc.prems(3) by (intro Suc.hyps(1)[OF _ loop]) simp_all
  then have "drv_alone (Add_Flag_Write q h idx i)
      (upd_desc (ds[unat idx := dd\<lparr>d_addr := phys, d_len := sg_len s, d_flags := ?f1\<rparr>]) vq) es d"
    using x by (intro drv_alone_quiet[of "Add_Flag_Write q h idx i"]) auto
  then have "drv_alone (Add_Flag_Next q h idx i)
      (upd_desc (ds[unat idx := dd\<lparr>d_addr := phys, d_len := sg_len s, d_flags := 0\<rparr>]) vq) es d"
    using x by (intro drv_alone_quiet[of "Add_Flag_Next q h idx i"]) auto
  then have "drv_alone (Add_Flags q h idx i)
      (upd_desc (ds[unat idx := dd\<lparr>d_addr := phys, d_len := sg_len s\<rparr>]) vq) es d"
    using x by (intro drv_alone_quiet[of "Add_Flags q h idx i"]) auto
  then have "drv_alone (Add_Len q h idx i) (upd_desc (ds[unat idx := dd\<lparr>d_addr := phys\<rparr>]) vq) es d"
    using x s(1) by (intro drv_alone_quiet[of "Add_Len q h idx i"]) auto
  then show ?case
    using x s(1,3) i Suc.prems(2) by (intro drv_alone_quiet[of "Add_Addr q h idx i"]) auto
qed

lemma add_alone:
  assumes "virtqueue_add_buffer vq (ac_sg q) (ac_readable q) (ac_writable q) (ac_cookie q) =
    Some (rc, d)"
  shows "drv_alone (Add_Start q) vq [ac_event q] d"
proof -
  let ?h = "vq_desc_head_idx vq"
  from assms obtain dxp ds idx where s: "c_int (ac_needed q)" "array_get (vq_descx vq) (unat ?h) = Some dxp"
      "vq_ring_add_buffer_loop (vq_desc vq) ?h (ac_sg q) (ac_readable q) (ac_needed q) 0 = Some (ds, idx)"
      "vq_ring_update_avail ((upd_desc ds (vq\<lparr>vq_descx := (vq_descx vq)[unat ?h :=
          dxp\<lparr>x_cookie := ac_cookie q, x_ndescs := of_int (ac_needed q)\<rparr>]\<rparr>))
        \<lparr>vq_desc_head_idx := idx, vq_free_cnt := vq_free_cnt vq - of_int (ac_needed q)\<rparr>) ?h = Some d"
    by (auto simp: virtqueue_add_buffer_def vq_ring_add_buffer_def Let_def split: bind_splits if_splits)
  let ?vq = "vq\<lparr>vq_descx := (vq_descx vq)[unat ?h :=
          dxp\<lparr>x_cookie := ac_cookie q, x_ndescs := of_int (ac_needed q)\<rparr>]\<rparr>"
  have "drv_alone (Add_Addr q ?h ?h 0) ?vq [ac_event q] d"
    using publish_alone[OF s(4), of q] by (intro fill_alone[OF s(3)]) simp_all
  then show ?thesis
    using s(1,2) by (intro drv_alone_quiet[of "Add_Start q"]) (simp_all add: Let_def)
qed


subsection \<open>Getting a buffer back\<close>

definition set_ndescs :: "virtqueue \<Rightarrow> u16 \<Rightarrow> u16 \<Rightarrow> virtqueue" where
  "set_ndescs vq h n = vq\<lparr>vq_descx := (vq_descx vq)[unat h := (vq_descx vq ! unat h)\<lparr>x_ndescs := n\<rparr>]\<rparr>"

lemma set_ndescs_twice [simp]: "set_ndescs (set_ndescs vq h m) h n = set_ndescs vq h n"
proof (cases "unat h < length (vq_descx vq)")
  case False
  then show ?thesis by (simp add: set_ndescs_def list_update_beyond)
qed (simp add: set_ndescs_def)

lemma set_ndescs_simps [simp]:
  "vq_desc (set_ndescs vq h n) = vq_desc vq" "length (vq_descx (set_ndescs vq h n)) = length (vq_descx vq)"
  "unat h < length (vq_descx vq) \<Longrightarrow> x_ndescs (vq_descx (set_ndescs vq h n) ! unat h) = n"
  by (simp_all add: set_ndescs_def)

lemma free_flags_alone:
  assumes "vq_ring_free_chain_loop ds idx nd = Some r"
    and "vq_desc vq = ds" "unat h < length (vq_descx vq)"
    and "drv_alone (Free_Link len h (fst r)) (set_ndescs vq h (snd r)) es d"
  shows "drv_alone (Free_Flags len h idx) (set_ndescs vq h nd) es d"
proof -
  have "ds = vq_desc vq \<longrightarrow> drv_alone (Free_Link len h (fst r)) (set_ndescs vq h (snd r)) es d \<longrightarrow>
      drv_alone (Free_Flags len h idx) (set_ndescs vq h nd) es d"
  proof (rule vq_ring_free_chain_loop.raw_induct[OF _ assms(1), where P = "\<lambda>ds idx nd r.
      ds = vq_desc vq \<longrightarrow> drv_alone (Free_Link len h (fst r)) (set_ndescs vq h (snd r)) es d \<longrightarrow>
      drv_alone (Free_Flags len h idx) (set_ndescs vq h nd) es d"], intro impI)
    fix f ds idx nd r
    assume IH: "\<And>ds idx nd r. f ds idx nd = Some r \<Longrightarrow> ds = vq_desc vq \<longrightarrow>
        drv_alone (Free_Link len h (fst r)) (set_ndescs vq h (snd r)) es d \<longrightarrow>
        drv_alone (Free_Flags len h idx) (set_ndescs vq h nd) es d"
      and e: "Option.bind (array_get ds (unat idx)) (\<lambda>dp.
        if d_flags dp AND VRING_DESC_F_NEXT \<noteq> 0 then f ds (d_next dp) (nd - 1) else Some (idx, nd)) = Some r"
      and ds: "ds = vq_desc vq" and l: "drv_alone (Free_Link len h (fst r)) (set_ndescs vq h (snd r)) es d"
    from e obtain dp where dp: "array_get ds (unat idx) = Some dp"
      by (cases "array_get ds (unat idx)") simp_all
    show "drv_alone (Free_Flags len h idx) (set_ndescs vq h nd) es d"
    proof (cases "d_flags dp AND VRING_DESC_F_NEXT \<noteq> 0")
      case True
      then have "f ds (d_next dp) (nd - 1) = Some r" using e dp by simp
      then have "drv_alone (Free_Flags len h (d_next dp)) (set_ndescs vq h (nd - 1)) es d"
        using IH ds l by blast
      then have "drv_alone (Free_Next len h idx) (set_ndescs vq h nd) es d"
        using dp ds assms(3)
        by (intro drv_alone_quiet[of "Free_Next len h idx"])
          (simp_all add: set_ndescs_def[of "set_ndescs vq h nd" h "nd - 1", symmetric])
      then show ?thesis
        using dp ds True by (intro drv_alone_quiet[of "Free_Flags len h idx"]) simp_all
    next
      case False
      then show ?thesis
        using e dp ds l by (intro drv_alone_quiet[of "Free_Flags len h idx"]) auto
    qed
  qed
  then show ?thesis using assms(2,4) by simp
qed

lemma free_alone:
  assumes "vq_ring_free_chain vq h = Some vq2" "array_get (vq_descx vq2) (unat h) = Some dxp"
  shows "drv_alone (Free_Start len h) vq [Reap (x_cookie dxp) len]
    (vq2\<lparr>vq_descx := (vq_descx vq2)[unat h := dxp\<lparr>x_cookie := 0\<rparr>]\<rparr>)"
proof -
  let ?d = "vq2\<lparr>vq_descx := (vq_descx vq2)[unat h := dxp\<lparr>x_cookie := 0\<rparr>]\<rparr>"
  let ?es = "[Reap (x_cookie dxp) len]"
  from assms(1) obtain dp x last_idx nd d_last where s:
      "array_get (vq_desc vq) (unat h) = Some dp" "array_get (vq_descx vq) (unat h) = Some x"
      "(if d_flags dp AND VRING_DESC_F_INDIRECT = 0
        then vq_ring_free_chain_loop (vq_desc vq) h (x_ndescs x - 1)
        else Some (h, x_ndescs x - 1)) = Some (last_idx, nd)"
      "array_get (vq_desc vq) (unat last_idx) = Some d_last"
      "vq2 = (upd_desc ((vq_desc vq)[unat last_idx := d_last\<lparr>d_next := vq_desc_head_idx vq\<rparr>]) vq)
               \<lparr>vq_free_cnt := vq_free_cnt vq + x_ndescs x,
                vq_descx := (vq_descx vq)[unat h := x\<lparr>x_ndescs := nd\<rparr>],
                vq_desc_head_idx := h\<rparr>"
    by (auto simp: vq_ring_free_chain_def Let_def simp del: array_get_Some split: bind_splits)
  let ?vq = "vq\<lparr>vq_free_cnt := vq_free_cnt vq + x_ndescs x\<rparr>"
  have c: "drv_alone (Get_Cookie len h) vq2 ?es ?d"
    using assms(2) by (intro drv_alone_event[of "Get_Cookie len h" _ _ D_Idle]) simp_all
  have l: "drv_alone (Free_Link len h last_idx) (set_ndescs ?vq h nd) ?es ?d"
    using s(2,4) c
    by (intro drv_alone_quiet[of "Free_Link len h last_idx"]) (auto simp: s(5) set_ndescs_def)
  have st: "drv_next (Free_Start len h) vq = Some (None,
      if d_flags dp AND VRING_DESC_F_INDIRECT = 0 then Free_Flags len h h else Free_Link len h h,
      set_ndescs ?vq h (x_ndescs x - 1))"
    using s(1,2) by (simp add: set_ndescs_def)
  show ?thesis
  proof (cases "d_flags dp AND VRING_DESC_F_INDIRECT = 0")
    case True
    then have "vq_ring_free_chain_loop (vq_desc vq) h (x_ndescs x - 1) = Some (last_idx, nd)"
      using s(3) by simp
    from free_flags_alone[OF this, of ?vq h len ?es ?d] l s(2)
    have "drv_alone (Free_Flags len h h) (set_ndescs ?vq h (x_ndescs x - 1)) ?es ?d" by simp
    then show ?thesis using st True by (intro drv_alone_quiet[of "Free_Start len h"]) simp_all
  next
    case False
    then show ?thesis using st s(3) l by (intro drv_alone_quiet[of "Free_Start len h"]) auto
  qed
qed

lemma get_alone:
  "virtqueue_get_buffer (Some vq) = Some (k, None, Some d) \<Longrightarrow> drv_alone Get_Check vq [] d"
  "virtqueue_get_buffer (Some vq) = Some (k, Some (len, i), Some d) \<Longrightarrow> drv_alone Get_Check vq [Reap k len] d"
proof -
  show "drv_alone Get_Check vq [] d" if "virtqueue_get_buffer (Some vq) = Some (k, None, Some d)"
    using that by (intro drv_alone_quiet[of Get_Check _ D_Idle]) (auto simp: Let_def split: if_splits bind_splits)
next
  assume a: "virtqueue_get_buffer (Some vq) = Some (k, Some (len, i), Some d)"
  let ?i = "vq_used_cons_idx vq AND (vq_nentries vq - 1)"
  let ?vq = "vq\<lparr>vq_used_cons_idx := vq_used_cons_idx vq + 1\<rparr>"
  from a have ne: "vq_used_cons_idx vq \<noteq> u_idx (vq_used vq)" by auto
  with a obtain uep vq2 dxp where s: "array_get (u_ring (vq_used vq)) (unat ?i) = Some uep"
      "vq_ring_free_chain ?vq (ucast (e_id uep)) = Some vq2"
      "array_get (vq_descx vq2) (unat (ucast (e_id uep) :: u16)) = Some dxp"
      "k = x_cookie dxp" "len = e_len uep"
      "d = vq2\<lparr>vq_descx := (vq_descx vq2)[unat (ucast (e_id uep) :: u16) := dxp\<lparr>x_cookie := 0\<rparr>]\<rparr>"
    by (auto simp: Let_def simp del: array_get_Some split: bind_splits)
  have "drv_alone (Free_Start (e_len uep) (ucast (e_id uep))) ?vq [Reap k len] d"
    using free_alone[OF s(2,3), of "e_len uep"] s(4-6) by simp
  then have "drv_alone (Get_Len ?i (ucast (e_id uep))) ?vq [Reap k len] d"
    using s(1) by (intro drv_alone_quiet[of "Get_Len ?i (ucast (e_id uep))"]) simp_all
  then have "drv_alone Get_Id vq [Reap k len] d"
    using s(1) by (intro drv_alone_quiet[of Get_Id]) (simp_all add: Let_def)
  then show "drv_alone Get_Check vq [Reap k len] d"
    using ne by (intro drv_alone_quiet[of Get_Check]) simp_all
qed

subsection \<open>Callbacks, kicks, and the device\<close>

lemma cb_alone:
  "virtqueue_enable_cb vq = Some (r, d) \<Longrightarrow> drv_alone Enable_Flag vq [Enable_Cb r] d"
  "virtqueue_disable_cb vq = Some d \<Longrightarrow> drv_alone Disable_Flag vq [Disable_Cb] d"
proof -
  have u: "drv_alone Enable_Used d [Enable_Cb (if 0 < virtqueue_nused d then 1 else 0)] d" for d
    by (intro drv_alone_event[of Enable_Used _ _ D_Idle]) (simp_all add: da_idle)
  show "drv_alone Enable_Flag vq [Enable_Cb r] d" if "virtqueue_enable_cb vq = Some (r, d)"
  proof -
    have "r = (if 0 < virtqueue_nused d then 1 else 0)"
      using that by (auto simp: virtqueue_enable_cb_def vq_ring_enable_interrupt_def Let_def split: bind_splits if_splits)
    with u[of d] that show ?thesis by (intro drv_alone_quiet[of Enable_Flag _ Enable_Used d])
      (auto simp: virtqueue_enable_cb_def vq_ring_enable_interrupt_def Let_def array_set_Some split: bind_splits if_splits)
  qed
  show "drv_alone Disable_Flag vq [Disable_Cb] d" if "virtqueue_disable_cb vq = Some d"
    using that by (intro drv_alone_event[of Disable_Flag _ _ D_Idle]) simp_all
qed

lemma kick_alone:
  assumes "virtqueue_kick call vq w = (d, w')"
  shows "\<exists>b. drv_alone Kick_Check vq [Kick b] d \<and> w' = (if b then call (vq_notify vq) vq w else w)"
proof -
  let ?b = "vq_ring_must_notify_host vq \<and> vq_notify vq \<noteq> 0"
  have k: "d = vq\<lparr>vq_queued_cnt := 0\<rparr>" "w' = (if ?b then call (vq_notify vq) vq w else w)"
    using assms by (auto simp: virtqueue_kick_def vq_ring_notify_host_def Let_def)
  have "drv_alone Kick_Clear vq [] d"
    using k(1) by (intro drv_alone_quiet[of Kick_Clear _ D_Idle]) (simp_all add: da_idle)
  moreover have "drv_next Kick_Check vq = Some (Some (Kick ?b), Kick_Clear, vq)"
    by simp
  ultimately have "drv_alone Kick_Check vq [Kick ?b] d"
    by (rule drv_alone_event[rotated])
  then show ?thesis using k(2) by blast
qed

lemma take_alone:
  "virtqueue_get_available_buffer vq = Some (b, None, d) \<Longrightarrow> dev_alone Take_Check vq [] d"
  "virtqueue_get_available_buffer vq = Some (b, Some (h, len), d) \<Longrightarrow> dev_alone Take_Check vq [Take b h len] d"
proof -
  show "dev_alone Take_Check vq [] d" if "virtqueue_get_available_buffer vq = Some (b, None, d)"
    using that by (intro dev_alone_quiet[of Take_Check _ V_Idle])
      (auto simp: virtqueue_get_available_buffer_def Let_def split: if_splits bind_splits)
next
  assume a: "virtqueue_get_available_buffer vq = Some (b, Some (h, len), d)"
  then have ne: "vq_available_idx vq \<noteq> a_idx (vq_avail vq)"
    by (auto simp: virtqueue_get_available_buffer_def)
  with a obtain x where s: "array_get (a_ring (vq_avail vq))
        (unat (vq_available_idx vq AND (vq_nentries vq - 1))) = Some h"
      "array_get (vq_desc vq) (unat h) = Some x" "metal_io_phys_to_virt (vq_shm_io vq) (d_addr x) = Some b"
      "len = d_len x" "d = vq\<lparr>vq_available_idx := vq_available_idx vq + 1\<rparr>"
    by (auto simp: virtqueue_get_available_buffer_def Let_def split: bind_splits)
  have "dev_alone (Take_Len b h) d [Take b h len] d"
    using s(2,4,5) by (intro dev_alone_event[of "Take_Len b h" _ _ V_Idle]) auto
  then have "dev_alone (Take_Addr h) d [Take b h len] d"
    using s(2,3,5) by (intro dev_alone_quiet[of "Take_Addr h"]) auto
  then have "dev_alone Take_Slot vq [Take b h len] d"
    using s(1,5) by (intro dev_alone_quiet[of Take_Slot]) (auto simp: Let_def)
  then show "dev_alone Take_Check vq [Take b h len] d"
    using ne by (intro dev_alone_quiet[of Take_Check]) simp_all
qed

lemma used_elem_filled [simp]: "e\<lparr>e_id := a, e_len := l\<rparr> = \<lparr>e_id = a, e_len = l\<rparr>"
  for e :: vring_used_elem
  by (cases e) simp

lemma put_alone:
  assumes "virtqueue_add_consumed_buffer vq h len = Some (rc, d)"
  shows "dev_alone (Put_Id h len) vq (if rc = VQUEUE_SUCCESS then [Complete h len] else []) d"
proof (cases "vq_nentries vq < h")
  case True
  then show ?thesis
    using assms by (intro dev_alone_quiet[of "Put_Id h len" _ V_Idle])
      (auto simp: virtqueue_add_consumed_buffer_def VQUEUE_SUCCESS_def ERROR_VRING_NO_BUFF_def VQ_ERROR_BASE_def)
next
  case False
  let ?u = "vq_used vq"
  let ?i = "u_idx ?u AND (vq_nentries vq - 1)"
  let ?v = "\<lambda>e. upd_used (?u\<lparr>u_ring := (u_ring ?u)[unat ?i := e]\<rparr>) vq"
  from False assms have s: "unat ?i < length (u_ring ?u)" "rc = VQUEUE_SUCCESS"
      "d = upd_used (?u\<lparr>u_ring := (u_ring ?u)[unat ?i := \<lparr>e_id = ucast h, e_len = len\<rparr>], u_idx := u_idx ?u + 1\<rparr>) vq"
    by (auto simp: virtqueue_add_consumed_buffer_def Let_def array_set_Some split: bind_splits)
  have "dev_alone (Put_Idx h len) (?v \<lparr>e_id = ucast h, e_len = len\<rparr>) [Complete h len] d"
    using s(3) by (intro dev_alone_event[of "Put_Idx h len" _ _ V_Idle]) (simp_all add: Let_def)
  then have "dev_alone (Put_Len h len ?i) (?v ((u_ring ?u ! unat ?i)\<lparr>e_id := ucast h\<rparr>)) [Complete h len] d"
    using s(1) by (intro dev_alone_quiet[of "Put_Len h len ?i"]) (auto simp: Let_def)
  then have "dev_alone (Put_Id h len) vq [Complete h len] d"
    using s(1) False by (intro dev_alone_quiet[of "Put_Id h len"]) (auto simp: Let_def)
  then show ?thesis using s(2) by simp
qed

end
