(* ===== verification/Virtqueue_Interleaving.thy ===== *)
theory Virtqueue_Interleaving
  imports Virtqueue_Steps
begin

text \<open>
  Why interleaving the accesses of the two sides makes no difference: a relation between
  the states in the middle of operations and the states of whole operations, which every step
  of either side preserves. A submission takes effect at \<^verbatim>\<open>avail->idx++\<close>, a completion at
  \<^verbatim>\<open>used->idx++\<close>, a take and a reap when they return, enabling the callbacks when \<^verbatim>\<open>used->idx\<close>
  is read, after the flag, and a kick when the other side is notified or seen not to want it.
\<close>

section \<open>What each side writes\<close>

text \<open>
  The used ring is the device's to write; the descriptors and the available ring are the
  driver's. A control block without the other side's part is not touched by the other side.
\<close>

definition drv_own :: "virtqueue \<Rightarrow> virtqueue" where
  "drv_own vq = upd_used \<lparr>u_flags = 0, u_idx = 0, u_ring = [], u_avail_event = 0\<rparr> vq"

definition dev_own :: "virtqueue \<Rightarrow> virtqueue" where
  "dev_own vq = vq\<lparr>vq_ring := (vq_ring vq)\<lparr>v_desc := [], v_avail := \<lparr>a_flags = 0, a_idx = 0, a_ring = []\<rparr>\<rparr>\<rparr>"

lemma drv_own_simps [simp]:
  "vq_desc (drv_own vq) = vq_desc vq" "vq_avail (drv_own vq) = vq_avail vq"
  "vq_descx (drv_own vq) = vq_descx vq" "vq_nentries (drv_own vq) = vq_nentries vq"
  "vq_desc_head_idx (drv_own vq) = vq_desc_head_idx vq" "vq_free_cnt (drv_own vq) = vq_free_cnt vq"
  "vq_queued_cnt (drv_own vq) = vq_queued_cnt vq" "vq_flags (drv_own vq) = vq_flags vq"
  "vq_used_cons_idx (drv_own vq) = vq_used_cons_idx vq" "v_num (vq_ring (drv_own vq)) = v_num (vq_ring vq)"
  "vq_notify (drv_own vq) = vq_notify vq"
  by (simp_all add: drv_own_def)

lemma drv_own_updates [simp]:
  "upd_desc ds (drv_own vq) = drv_own (upd_desc ds vq)"
  "upd_avail a (drv_own vq) = drv_own (upd_avail a vq)"
  "(drv_own vq)\<lparr>vq_descx := x\<rparr> = drv_own (vq\<lparr>vq_descx := x\<rparr>)"
  "(drv_own vq)\<lparr>vq_desc_head_idx := h\<rparr> = drv_own (vq\<lparr>vq_desc_head_idx := h\<rparr>)"
  "(drv_own vq)\<lparr>vq_free_cnt := n\<rparr> = drv_own (vq\<lparr>vq_free_cnt := n\<rparr>)"
  "(drv_own vq)\<lparr>vq_queued_cnt := n\<rparr> = drv_own (vq\<lparr>vq_queued_cnt := n\<rparr>)"
  "(drv_own vq)\<lparr>vq_used_cons_idx := n\<rparr> = drv_own (vq\<lparr>vq_used_cons_idx := n\<rparr>)"
  by (simp_all add: drv_own_def)

lemma dev_own_simps [simp]:
  "vq_used (dev_own vq) = vq_used vq" "vq_nentries (dev_own vq) = vq_nentries vq"
  "vq_available_idx (dev_own vq) = vq_available_idx vq" "vq_shm_io (dev_own vq) = vq_shm_io vq"
  by (simp_all add: dev_own_def)

lemma own_share [simp]:
  "vq_desc d = vq_desc vq \<Longrightarrow> vq_avail d = vq_avail vq \<Longrightarrow> drv_own (share d vq) = drv_own vq"
  "vq_used d = vq_used vq \<Longrightarrow> dev_own (share d vq) = dev_own vq"
  by (simp_all add: drv_own_def dev_own_def share_def)

lemma drv_own_eqD:
  assumes "drv_own a = drv_own b"
  shows "vq_desc a = vq_desc b" "vq_avail a = vq_avail b" "vq_nentries a = vq_nentries b"
    "vq_used_cons_idx a = vq_used_cons_idx b" "vq_flags a = vq_flags b" "vq_free_cnt a = vq_free_cnt b"
    "vq_descx a = vq_descx b" "vq_notify a = vq_notify b"
  using arg_cong[OF assms, of vq_desc] arg_cong[OF assms, of vq_avail] arg_cong[OF assms, of vq_nentries]
    arg_cong[OF assms, of vq_used_cons_idx] arg_cong[OF assms, of vq_flags]
    arg_cong[OF assms, of vq_free_cnt] arg_cong[OF assms, of vq_descx]
    arg_cong[OF assms, of vq_notify]
  by simp_all

lemma drv_own_full:
  assumes "drv_own a = drv_own b" "vq_used a = vq_used b"
  shows "a = b"
proof -
  have "upd_used (vq_used a) (drv_own a) = a" "upd_used (vq_used b) (drv_own b) = b"
    by (simp_all add: drv_own_def)
  then show ?thesis using assms by metis
qed

lemma dev_own_eqD:
  assumes "dev_own a = dev_own b"
  shows "vq_used a = vq_used b" "vq_nentries a = vq_nentries b"
    "vq_available_idx a = vq_available_idx b" "vq_shm_io a = vq_shm_io b"
  using arg_cong[OF assms, of vq_used] arg_cong[OF assms, of vq_nentries]
    arg_cong[OF assms, of vq_available_idx] arg_cong[OF assms, of vq_shm_io]
  by simp_all

lemma dev_own_full:
  assumes "dev_own a = dev_own b" "vq_desc a = vq_desc b" "vq_avail a = vq_avail b"
  shows "a = b"
proof -
  have "a = (dev_own a)\<lparr>vq_ring := (vq_ring (dev_own a))\<lparr>v_desc := vq_desc a, v_avail := vq_avail a\<rparr>\<rparr>"
      "b = (dev_own b)\<lparr>vq_ring := (vq_ring (dev_own b))\<lparr>v_desc := vq_desc b, v_avail := vq_avail b\<rparr>\<rparr>"
    by (simp_all add: dev_own_def)
  then show ?thesis using assms by metis
qed

text \<open>Steps that read nothing of the device's do not depend on it.\<close>

fun own_pc :: "drv_pc \<Rightarrow> bool" where
  "own_pc Get_Check \<longleftrightarrow> False"
| "own_pc Get_Id \<longleftrightarrow> False"
| "own_pc (Get_Len i h) \<longleftrightarrow> False"
| "own_pc Kick_Check \<longleftrightarrow> False"
| "own_pc Enable_Flag \<longleftrightarrow> False"
| "own_pc Enable_Used \<longleftrightarrow> False"
| "own_pc pc \<longleftrightarrow> True"

definition map_next :: "('s \<Rightarrow> 't) \<Rightarrow> 'e \<times> 'p \<times> 's \<Rightarrow> 'e \<times> 'p \<times> 't" where
  "map_next f = (\<lambda>(e, pc, s). (e, pc, f s))"

lemma map_next_simps [simp]: "map_next f (e, pc, s) = (e, pc, f s)"
  by (simp add: map_next_def)

lemma write_desc_own [simp]: "write_desc (drv_own vq) i f = map_option drv_own (write_desc vq i f)"
  by (cases "unat i < length (vq_desc vq)") (simp_all add: write_desc_def array_get_def)

lemma disable_own [simp]: "virtqueue_disable_cb (drv_own vq) = map_option drv_own (virtqueue_disable_cb vq)"
  by (simp add: virtqueue_disable_cb_def Let_def array_set_def)

lemma drv_next_own:
  "own_pc pc \<Longrightarrow> drv_next pc (drv_own vq) = map_option (map_next drv_own) (drv_next pc vq)"
  by (cases pc)
    (simp_all add: Let_def array_set_def array_get_def write_desc_def map_option_bind bind_map_option
      option.map_comp comp_def)

lemma own_pc_next: "drv_next pc vq = Some (e, pc', vq') \<Longrightarrow> own_pc pc \<Longrightarrow> own_pc pc'"
  by (cases pc) (auto simp: Let_def split: if_splits bind_splits)


lemma dev_own_updates [simp]:
  "upd_used u (dev_own vq) = dev_own (upd_used u vq)"
  "(dev_own vq)\<lparr>vq_available_idx := n\<rparr> = dev_own (vq\<lparr>vq_available_idx := n\<rparr>)"
  by (simp_all add: dev_own_def)

text \<open>A step writes its side's part only, and keeps the geometry.\<close>

lemma drv_next_keeps:
  assumes "drv_next pc vq = Some (e, pc', vq')"
  shows "vq_used vq' = vq_used vq" "vq_nentries vq' = vq_nentries vq" "vq_wf vq \<Longrightarrow> vq_wf vq'"
proof -
  have "vq_used vq' = vq_used vq \<and> vq_nentries vq' = vq_nentries vq \<and> (vq_wf vq \<longrightarrow> vq_wf vq')"
    using assms
    by (cases pc) (auto simp: Let_def write_desc_def array_set_Some virtqueue_disable_cb_def vq_wf_def
        split: if_splits bind_splits)
  then show "vq_used vq' = vq_used vq" "vq_nentries vq' = vq_nentries vq" "vq_wf vq \<Longrightarrow> vq_wf vq'"
    by simp_all
qed

lemma dev_next_keeps:
  assumes "dev_next pc vq = Some (e, pc', vq')"
  shows "vq_desc vq' = vq_desc vq" "vq_avail vq' = vq_avail vq" "vq_nentries vq' = vq_nentries vq"
    "vq_shm_io vq' = vq_shm_io vq" "vq_wf vq \<Longrightarrow> vq_wf vq'"
proof -
  have "vq_desc vq' = vq_desc vq \<and> vq_avail vq' = vq_avail vq \<and> vq_nentries vq' = vq_nentries vq \<and>
      vq_shm_io vq' = vq_shm_io vq \<and> (vq_wf vq \<longrightarrow> vq_wf vq')"
    using assms
    by (cases pc) (auto simp: Let_def vq_wf_def split: if_splits bind_splits)
  then show "vq_desc vq' = vq_desc vq" "vq_avail vq' = vq_avail vq" "vq_nentries vq' = vq_nentries vq"
    "vq_shm_io vq' = vq_shm_io vq" "vq_wf vq \<Longrightarrow> vq_wf vq'"
    by simp_all
qed

section \<open>The relation to whole operations\<close>

text \<open>
  A fine state stands for a state \<open>c\<close> of the system of whole operations in which an operation
  under way has not begun, up to the step where it takes effect. \<open>drv_at\<close> and \<open>dev_at\<close> say how
  far each side is (over the parts of the control blocks its side owns): what is left of a
  submission, run alone, gives the submission from \<open>c\<close>; a reap has read the entry of the first
  completed buffer; a take has read the first pending one; a completion has filled its slot;
  enabling has cleared the flag already; a kick has still to clear the count.
\<close>

fun add_of :: "drv_pc \<Rightarrow> add_call option" where
  "add_of (Add_Start q) = Some q"
| "add_of (Add_Addr q h idx i) = Some q"
| "add_of (Add_Len q h idx i) = Some q"
| "add_of (Add_Flags q h idx i) = Some q"
| "add_of (Add_Flag_Next q h idx i) = Some q"
| "add_of (Add_Flag_Write q h idx i) = Some q"
| "add_of (Add_Slot q h) = Some q"
| "add_of (Add_Idx q) = Some q"
| "add_of pc = None"

text \<open>The descriptors still to be filled are the free chain from \<open>idx\<close> on.\<close>

definition filling :: "virtqueue \<Rightarrow> vq_abs \<Rightarrow> add_call \<Rightarrow> u16 \<Rightarrow> int \<Rightarrow> bool" where
  "filling vq a q idx i \<longleftrightarrow> 0 \<le> i \<and>
     (\<exists>zs. free_list (vq_desc vq) idx zs \<and> set zs \<subseteq> q_free a \<and> distinct zs \<and> ac_needed q - i \<le> int (length zs))"

fun fill_at :: "drv_pc \<Rightarrow> virtqueue \<Rightarrow> vq_abs \<Rightarrow> bool" where
  "fill_at (Add_Start q) vq a \<longleftrightarrow> filling vq a q (vq_desc_head_idx vq) 0"
| "fill_at (Add_Addr q h idx i) vq a \<longleftrightarrow> filling vq a q idx i"
| "fill_at (Add_Len q h idx i) vq a \<longleftrightarrow> filling vq a q idx i \<and> i < ac_needed q"
| "fill_at (Add_Flags q h idx i) vq a \<longleftrightarrow> filling vq a q idx i \<and> i < ac_needed q"
| "fill_at (Add_Flag_Next q h idx i) vq a \<longleftrightarrow> filling vq a q idx i \<and> i < ac_needed q"
| "fill_at (Add_Flag_Write q h idx i) vq a \<longleftrightarrow> filling vq a q idx i \<and> i < ac_needed q"
| "fill_at pc vq a \<longleftrightarrow> True"

definition adding :: "add_call \<Rightarrow> drv_pc \<Rightarrow> virtqueue \<Rightarrow> virtqueue \<Rightarrow> bool" where
  "adding q pc F C \<longleftrightarrow> (\<exists>X.
     virtqueue_add_buffer C (ac_sg q) (ac_readable q) (ac_writable q) (ac_cookie q) = Some (VQUEUE_SUCCESS, X) \<and>
     drv_alone pc F [ac_event q] X)"

definition freeing :: "drv_pc \<Rightarrow> u32 \<Rightarrow> virtqueue \<Rightarrow> virtqueue \<Rightarrow> vq_abs \<Rightarrow> bool" where
  "freeing pc len F C a \<longleftrightarrow> (\<exists>b ds. q_done a = (b, len) # ds \<and>
     drv_alone pc F [Reap (b_cookie b) len] (reaped C (b_chain b)))"

fun drv_at :: "drv_pc \<Rightarrow> virtqueue \<Rightarrow> virtqueue \<Rightarrow> vq_abs \<Rightarrow> bool" where
  "drv_at Add_Queued F C a \<longleftrightarrow> F\<lparr>vq_queued_cnt := vq_queued_cnt F + 1\<rparr> = C"
| "drv_at Kick_Clear F C a \<longleftrightarrow> F\<lparr>vq_queued_cnt := 0\<rparr> = C"
| "drv_at Enable_Used F C a \<longleftrightarrow> F = flagged C (a_flags (vq_avail C) AND NOT VRING_AVAIL_F_NO_INTERRUPT)"
| "drv_at Get_Id F C a \<longleftrightarrow> F = C \<and> q_done a \<noteq> []"
| "drv_at (Get_Len i h) F C a \<longleftrightarrow> F = C\<lparr>vq_used_cons_idx := vq_used_cons_idx C + 1\<rparr> \<and>
     i = vq_used_cons_idx C AND (vq_nentries C - 1) \<and> (\<exists>b len ds. q_done a = (b, len) # ds \<and> h = b_head b)"
| "drv_at (Free_Start len h) F C a \<longleftrightarrow> freeing (Free_Start len h) len F C a"
| "drv_at (Free_Flags len h idx) F C a \<longleftrightarrow> freeing (Free_Flags len h idx) len F C a"
| "drv_at (Free_Next len h idx) F C a \<longleftrightarrow> freeing (Free_Next len h idx) len F C a"
| "drv_at (Free_Link len h idx) F C a \<longleftrightarrow> freeing (Free_Link len h idx) len F C a"
| "drv_at (Get_Cookie len h) F C a \<longleftrightarrow> freeing (Get_Cookie len h) len F C a"
| "drv_at pc F C a \<longleftrightarrow>
     (case add_of pc of None \<Rightarrow> F = C | Some q \<Rightarrow> adding q pc F C \<and> fill_at pc F a)"

fun dev_at :: "dev_pc \<Rightarrow> virtqueue \<Rightarrow> virtqueue \<Rightarrow> vq_abs \<Rightarrow> bool" where
  "dev_at Take_Slot V D a \<longleftrightarrow> V = D \<and> q_pending a \<noteq> []"
| "dev_at (Take_Addr h) V D a \<longleftrightarrow> V = D\<lparr>vq_available_idx := vq_available_idx D + 1\<rparr> \<and>
     (\<exists>b bs. q_pending a = b # bs \<and> h = b_head b)"
| "dev_at (Take_Len buf h) V D a \<longleftrightarrow> V = D\<lparr>vq_available_idx := vq_available_idx D + 1\<rparr> \<and>
     (\<exists>b bs len wr sgs. q_pending a = b # bs \<and> h = b_head b \<and> b_segs b = (buf, len, wr) # sgs)"
| "dev_at (Put_Id h len) V D a \<longleftrightarrow> V = D \<and> h \<in> b_head ` set (q_held a)"
| "dev_at (Put_Len h len i) V D a \<longleftrightarrow> h \<in> b_head ` set (q_held a) \<and>
     i = u_idx (vq_used D) AND (vq_nentries D - 1) \<and>
     V = upd_used ((vq_used D)\<lparr>u_ring := (u_ring (vq_used D))[unat i :=
       (u_ring (vq_used D) ! unat i)\<lparr>e_id := ucast h\<rparr>]\<rparr>) D"
| "dev_at (Put_Idx h len) V D a \<longleftrightarrow> h \<in> b_head ` set (q_held a) \<and>
     V = upd_used ((vq_used D)\<lparr>u_ring := (u_ring (vq_used D))[unat (u_idx (vq_used D) AND (vq_nentries D - 1)) :=
       \<lparr>e_id = ucast h, e_len = len\<rparr>]\<rparr>) D"
| "dev_at pc V D a \<longleftrightarrow> V = D"

text \<open>What one side sees of the other's memory, operation under way or not.\<close>

definition avail_view :: "virtqueue \<Rightarrow> virtqueue \<Rightarrow> vq_abs \<Rightarrow> bool" where
  "avail_view vq dev a \<longleftrightarrow>
     in_flight (unat (vq_nentries vq)) (a_idx (vq_avail vq)) (\<lambda>j. a_ring (vq_avail vq) ! j)
       (vq_available_idx dev) (map b_head (q_pending a)) \<and>
     (\<forall>b \<in> set (q_pending a). list_all2 (seg_ok (vq_desc vq) (vq_shm_io dev)) (b_chain b) (b_segs b))"

definition used_view :: "virtqueue \<Rightarrow> virtqueue \<Rightarrow> vq_abs \<Rightarrow> bool" where
  "used_view vq drv a \<longleftrightarrow>
     in_flight (unat (vq_nentries vq)) (u_idx (vq_used vq)) (\<lambda>j. u_ring (vq_used vq) ! j)
       (vq_used_cons_idx drv) (map used_elem (q_done a))"

definition call_ok :: "drv_pc \<Rightarrow> vq_sys \<Rightarrow> bool" where
  "call_ok pc c \<longleftrightarrow>
     (case add_of pc of None \<Rightarrow> True | Some q \<Rightarrow> submit_ok c (ac_sg q) (ac_readable q) (ac_writable q))"

definition fsim :: "vq_fine \<Rightarrow> vq_sys \<Rightarrow> vq_abs \<Rightarrow> bool" where
  "fsim f c a \<longleftrightarrow>
     (let drv = s_drv (f_sys f); dev = s_dev (f_sys f)
      in sim c a \<and> same_ring (f_sys f) \<and> vq_wf drv \<and> vq_wf dev \<and>
         vq_nentries drv = vq_nentries (s_drv c) \<and> vq_shm_io dev = vq_shm_io (s_dev c) \<and>
         s_held (f_sys f) = s_held c \<and>
         drv_at (f_drv f) (drv_own drv) (drv_own (s_drv c)) a \<and> call_ok (f_drv f) c \<and>
         dev_at (f_dev f) (dev_own dev) (dev_own (s_dev c)) a \<and>
         avail_view drv (s_dev c) a \<and> used_view dev (s_drv c) a)"


subsection \<open>Operations and the parts of the control block\<close>

lemma update_avail_own [simp]:
  "vq_ring_update_avail (drv_own vq) h = map_option drv_own (vq_ring_update_avail vq h)"
  by (simp add: vq_ring_update_avail_def Let_def array_set_def)

lemma add_buffer_own:
  "virtqueue_add_buffer (drv_own vq) sg r w k =
    map_option (\<lambda>(rc, d). (rc, drv_own d)) (virtqueue_add_buffer vq sg r w k)"
  by (simp add: virtqueue_add_buffer_def Let_def array_get_def map_option_bind bind_map_option
      comp_def case_prod_unfold)

lemma reaped_own [simp]: "reaped (drv_own vq) c = drv_own (reaped vq c)"
  by (simp add: reaped_def given_back_def Let_def)

lemma drv_alone_own:
  assumes "drv_alone pc vq es d" "own_pc pc"
  shows "drv_alone pc (drv_own vq) es (drv_own d)"
  using assms
proof (induction rule: drv_alone.induct)
  case (da_step pc vq e pc' vq' es d)
  then have "drv_next pc (drv_own vq) = Some (e, pc', drv_own vq')"
    by (simp add: drv_next_own)
  then show ?case
    by (rule drv_alone.da_step) (rule da_step.IH, rule own_pc_next[OF da_step.hyps(1) da_step.prems])
qed simp

lemma drv_alone_own_next:
  assumes "drv_alone pc (drv_own vq) es X" "own_pc pc" "drv_next pc vq = Some (e, pc', vq')"
  obtains es' where "es = opt_list e @ es'" "drv_alone pc' (drv_own vq') es' X"
proof (rule drv_alone_next[OF assms(1)])
  show "drv_next pc (drv_own vq) = Some (e, pc', drv_own vq')"
    using assms(2,3) by (simp add: drv_next_own)
qed (rule that)

lemma drv_alone_own_defined:
  assumes "drv_alone pc (drv_own vq) es X" "own_pc pc" "pc \<noteq> D_Idle"
  shows "drv_next pc vq \<noteq> None"
  using drv_alone_defined[OF assms(1,3)] assms(2) by (simp add: drv_next_own)

lemma add_of_own: "add_of pc = Some q \<Longrightarrow> own_pc pc"
  by (cases pc) auto

subsection \<open>Parts of the relation\<close>

lemma fsimD:
  assumes "fsim f c a"
  obtains "sim c a" "same_ring (f_sys f)" "vq_wf (s_drv (f_sys f))" "vq_wf (s_dev (f_sys f))"
    "vq_nentries (s_drv (f_sys f)) = vq_nentries (s_drv c)"
    "vq_shm_io (s_dev (f_sys f)) = vq_shm_io (s_dev c)" "s_held (f_sys f) = s_held c"
    "drv_at (f_drv f) (drv_own (s_drv (f_sys f))) (drv_own (s_drv c)) a" "call_ok (f_drv f) c"
    "dev_at (f_dev f) (dev_own (s_dev (f_sys f))) (dev_own (s_dev c)) a"
    "avail_view (s_drv (f_sys f)) (s_dev c) a" "used_view (s_dev (f_sys f)) (s_drv c) a"
  using assms unfolding fsim_def Let_def by blast

lemma sim_avail_view:
  assumes "sim c a" "drv_own vq = drv_own (s_drv c)"
  shows "avail_view vq (s_dev c) a"
proof (rule simD[OF assms(1)])
  assume bufs: "\<forall>b \<in> set (bufs a). buf_ok (s_drv c) (vq_shm_io (s_dev c)) b"
    and fl: "in_flight (unat (vq_nentries (s_drv c))) (a_idx (vq_avail (s_drv c)))
       (\<lambda>j. a_ring (vq_avail (s_drv c)) ! j) (vq_available_idx (s_dev c)) (map b_head (q_pending a))"
  have "\<forall>b \<in> set (q_pending a).
      list_all2 (seg_ok (vq_desc (s_drv c)) (vq_shm_io (s_dev c))) (b_chain b) (b_segs b)"
    using bufs by (simp add: buf_ok_def bufs_def)
  then show ?thesis
    using fl unfolding avail_view_def drv_own_eqD[OF assms(2)] by blast
qed

lemma sim_used_view:
  assumes "sim c a" "vq_used vq = vq_used (s_drv c)" "vq_nentries vq = vq_nentries (s_drv c)"
  shows "used_view vq (s_drv c) a"
  by (rule simD[OF assms(1)]) (simp add: used_view_def assms(2,3))

lemma sim_same_ring: "sim c a \<Longrightarrow> same_ring c"
  by (elim simD)

lemma sim_wf: "sim c a \<Longrightarrow> vq_wf (s_drv c) \<and> vq_wf (s_dev c)"
  by (elim simD) (simp add: vq_inv_wf)

lemma sim_held: "sim c a \<Longrightarrow> s_held c = map b_head (q_held a)"
  by (elim simD)

text \<open>The free descriptors: how many, and that no buffer has one.\<close>

lemma sim_free:
  assumes "sim c a"
  obtains fs where "free_list (vq_desc (s_drv c)) (vq_desc_head_idx (s_drv c)) fs" "distinct fs"
    "set fs = q_free a" "unat (vq_free_cnt (s_drv c)) = length fs"
    "length fs + length (q_pending a) + length (q_held a) + length (q_done a) \<le> unat (vq_nentries (s_drv c))"
proof -
  from assms obtain fs where fs: "set fs = q_free a" "vq_inv (s_drv c) fs (map b_chain (bufs a))"
    by (elim simD) blast
  show ?thesis
    by (rule that[of fs]) (use fs bufs_length[OF fs(2)] in \<open>simp_all add: vq_inv_def\<close>)
qed

lemma sim_apart:
  assumes "sim c a" "b \<in> set (bufs a)"
  shows "set (b_chain b) \<inter> q_free a = {}" "b_chain b \<noteq> []" "unat (b_head b) < unat (vq_nentries (s_drv c))"
proof -
  from assms(1) obtain fs where fs: "set fs = q_free a" "vq_inv (s_drv c) fs (map b_chain (bufs a))"
    by (elim simD) blast
  show "set (b_chain b) \<inter> q_free a = {}" "b_chain b \<noteq> []" "unat (b_head b) < unat (vq_nentries (s_drv c))"
    using vq_inv_chain[OF fs(2), of "b_chain b"] assms(2) fs(1) by auto
qed

text \<open>The guard of a submission depends on the number of free descriptors and the device's region.\<close>

lemma submit_ok_cong:
  "vq_free_cnt (s_drv c') = vq_free_cnt (s_drv c) \<Longrightarrow> vq_shm_io (s_dev c') = vq_shm_io (s_dev c) \<Longrightarrow>
    submit_ok c' sg r w = submit_ok c sg r w"
  by (simp add: submit_ok_def)

text \<open>Where one side is does not depend on what the other adds to the queues.\<close>

lemma fill_at_free: "fill_at pc vq a \<Longrightarrow> q_free a' = q_free a \<Longrightarrow> fill_at pc vq a'"
  by (cases pc) (auto simp: filling_def)

lemma drv_at_more:
  assumes "drv_at pc F C a" "q_free a' = q_free a" "q_done a' = q_done a @ ds"
  shows "drv_at pc F C a'"
  using assms fill_at_free by (cases pc) (auto simp: freeing_def filling_def)

lemma dev_at_more:
  assumes "dev_at pc V D a" "q_held a' = q_held a" "q_pending a' = q_pending a @ bs"
  shows "dev_at pc V D a'"
  using assms by (cases pc) auto


section \<open>The driver's steps preserve the relation\<close>

subsection \<open>Filling descriptors\<close>

lemma filling_write:
  assumes "filling vq a q idx i" "i < ac_needed q" "write_desc vq idx f = Some vq'"
    and "\<And>d. d_next (f d) = d_next d"
  shows "filling vq' a q idx i" "filling vq' a q (d_next (vq_desc vq' ! unat idx)) (i + 1)"
    "x \<notin> q_free a \<Longrightarrow> vq_desc vq' ! unat x = vq_desc vq ! unat x" "vq_avail vq' = vq_avail vq"
proof -
  from assms(1,2) obtain z zs where zs: "free_list (vq_desc vq) idx (z # zs)" "set (z # zs) \<subseteq> q_free a"
      "distinct (z # zs)" "ac_needed q - i \<le> int (length (z # zs))" "0 \<le> i"
  proof -
    from assms(1) obtain ys where ys: "free_list (vq_desc vq) idx ys" "set ys \<subseteq> q_free a" "distinct ys"
        "ac_needed q - i \<le> int (length ys)" "0 \<le> i"
      by (auto simp: filling_def)
    with assms(2) obtain z zs where "ys = z # zs" by (cases ys) auto
    then show ?thesis using ys by (intro that[of z zs]) simp_all
  qed
  have idx: "idx = z" "unat z < length (vq_desc vq)"
    using zs(1) by simp_all
  have vq': "vq' = upd_desc ((vq_desc vq)[unat z := f (vq_desc vq ! unat z)]) vq"
    using assms(3) idx by simp
  have nx: "d_next (vq_desc vq' ! unat x) = d_next (vq_desc vq ! unat x)" for x
    using idx by (auto simp: vq' nth_list_update assms(4))
  have fl: "free_list (vq_desc vq') h ys = free_list (vq_desc vq) h ys" for h ys
    by (rule free_list_cong) (simp_all add: nx, simp add: vq')
  show "filling vq' a q idx i"
    unfolding filling_def fl using zs by blast
  show "filling vq' a q (d_next (vq_desc vq' ! unat idx)) (i + 1)"
    unfolding filling_def fl using zs idx by (intro conjI exI[of _ zs]) (simp_all add: nx)
  show "vq_desc vq' ! unat x = vq_desc vq ! unat x" if "x \<notin> q_free a"
  proof -
    have "unat z \<noteq> unat x" using that zs(2) by auto
    then show ?thesis by (simp add: vq')
  qed
  show "vq_avail vq' = vq_avail vq"
    by (simp add: vq')
qed

lemma filling_next:
  assumes "filling vq a q idx i" "i < ac_needed q"
  shows "filling vq a q (d_next (vq_desc vq ! unat idx)) (i + 1)"
proof -
  from assms(1) obtain ys where ys: "free_list (vq_desc vq) idx ys" "set ys \<subseteq> q_free a" "distinct ys"
      "ac_needed q - i \<le> int (length ys)" "0 \<le> i"
    by (auto simp: filling_def)
  then show ?thesis
    using assms(2) by (cases ys) (auto simp: filling_def intro!: exI[of _ "tl ys"])
qed

text \<open>The steps of a submission before it is published.\<close>

lemma fill_step:
  assumes "add_of pc = Some q" "pc \<noteq> Add_Idx q" "fill_at pc vq a"
    and "drv_next pc vq = Some (e, pc', vq')"
  shows "e = None \<and> add_of pc' = Some q \<and> fill_at pc' vq' a \<and>
    (\<forall>x. x \<notin> q_free a \<longrightarrow> vq_desc vq' ! unat x = vq_desc vq ! unat x) \<and>
    a_idx (vq_avail vq') = a_idx (vq_avail vq) \<and>
    (\<forall>j. j \<noteq> unat (a_idx (vq_avail vq) AND (vq_nentries vq - 1)) \<longrightarrow>
       a_ring (vq_avail vq') ! j = a_ring (vq_avail vq) ! j)"
proof (cases pc)
  case (Add_Addr p h idx i)
  show ?thesis
  proof (cases "i < ac_needed q")
    case True
    with assms Add_Addr obtain g ph where w: "p = q" "filling vq a q idx i" "e = None" "pc' = Add_Len q h idx i"
        "write_desc vq idx (\<lambda>d. d\<lparr>d_addr := ph\<rparr>) = Some vq'"
      by (auto split: bind_splits)
    show ?thesis using filling_write[OF w(2) True w(5)] w True by simp
  qed (use assms Add_Addr in auto)
next
  case (Add_Len p h idx i)
  with assms obtain n where w: "p = q" "filling vq a q idx i" "i < ac_needed q" "e = None"
      "pc' = Add_Flags q h idx i" "write_desc vq idx (\<lambda>d. d\<lparr>d_len := n\<rparr>) = Some vq'"
    by (auto split: bind_splits)
  show ?thesis using filling_write[OF w(2,3,6)] w by simp
next
  case (Add_Flags p h idx i)
  with assms have w: "p = q" "filling vq a q idx i" "i < ac_needed q" "e = None"
      "pc' = Add_Flag_Next q h idx i" "write_desc vq idx (\<lambda>d. d\<lparr>d_flags := 0\<rparr>) = Some vq'"
    by (auto split: bind_splits)
  show ?thesis using filling_write[OF w(2,3,6)] w by simp
next
  case (Add_Flag_Next p h idx i)
  with assms have w: "p = q" "filling vq a q idx i" "i < ac_needed q" "e = None"
      "pc' = Add_Flag_Write q h idx i"
      "vq' = vq \<or> write_desc vq idx (\<lambda>d. d\<lparr>d_flags := d_flags d OR VRING_DESC_F_NEXT\<rparr>) = Some vq'"
    by (auto split: bind_splits if_splits)
  from w(6) show ?thesis
  proof
    assume "write_desc vq idx (\<lambda>d. d\<lparr>d_flags := d_flags d OR VRING_DESC_F_NEXT\<rparr>) = Some vq'"
    from filling_write[OF w(2,3) this] w show ?thesis by simp
  qed (use w in simp)
next
  case (Add_Flag_Write p h idx i)
  with assms have w: "p = q" "filling vq a q idx i" "i < ac_needed q" "e = None"
      "pc' = Add_Addr q h (d_next (vq_desc vq' ! unat idx)) (i + 1)"
      "vq' = vq \<or> write_desc vq idx (\<lambda>d. d\<lparr>d_flags := d_flags d OR VRING_DESC_F_WRITE\<rparr>) = Some vq'"
    by (auto split: bind_splits if_splits)
  from w(6) show ?thesis
  proof
    assume "write_desc vq idx (\<lambda>d. d\<lparr>d_flags := d_flags d OR VRING_DESC_F_WRITE\<rparr>) = Some vq'"
    from filling_write[OF w(2,3) this] w show ?thesis by simp
  qed (use w filling_next[OF w(2,3)] in simp)
qed (use assms in \<open>auto simp: Let_def array_set_Some filling_def split: bind_splits if_splits\<close>)

lemma fill_at_own [simp]: "fill_at pc (drv_own vq) a = fill_at pc vq a"
  by (cases pc) (simp_all add: filling_def)

text \<open>None of it shows to the device.\<close>

lemma avail_view_fill:
  assumes view: "avail_view vq dev a" and sim: "sim c a" and wf: "vq_wf vq"
    and n: "vq_nentries vq' = vq_nentries vq" "vq_nentries vq = vq_nentries (s_drv c)" "q_free a \<noteq> {}"
    and ds: "\<forall>x. x \<notin> q_free a \<longrightarrow> vq_desc vq' ! unat x = vq_desc vq ! unat x"
    and av: "a_idx (vq_avail vq') = a_idx (vq_avail vq)"
      "\<forall>j. j \<noteq> unat (a_idx (vq_avail vq) AND (vq_nentries vq - 1)) \<longrightarrow>
         a_ring (vq_avail vq') ! j = a_ring (vq_avail vq) ! j"
  shows "avail_view vq' dev a"
proof -
  note ix = vq_wf_index[OF wf]
  have room: "length (q_pending a) < unat (vq_nentries vq)"
  proof (rule sim_free[OF sim])
    fix fs
    assume fs: "set fs = q_free a"
      "length fs + length (q_pending a) + length (q_held a) + length (q_done a) \<le> unat (vq_nentries (s_drv c))"
    then have "0 < length fs" using n(3) by auto
    then show ?thesis unfolding n(2) using fs(2) by linarith
  qed
  have "in_flight (unat (vq_nentries vq)) (a_idx (vq_avail vq)) (\<lambda>j. a_ring (vq_avail vq') ! j)
      (vq_available_idx dev) (map b_head (q_pending a))"
  proof (rule in_flight_beyond[OF _ ix(3)])
    show "in_flight (unat (vq_nentries vq)) (a_idx (vq_avail vq)) (\<lambda>j. a_ring (vq_avail vq) ! j)
        (vq_available_idx dev) (map b_head (q_pending a))"
      using view by (simp only: avail_view_def)
    show "a_ring (vq_avail vq') ! j = a_ring (vq_avail vq) ! j"
      if "j \<noteq> unat (a_idx (vq_avail vq)) mod unat (vq_nentries vq)" for j
      using av(2)[unfolded ix(1)] that by blast
  qed (use room in simp)
  moreover have "list_all2 (seg_ok (vq_desc vq') (vq_shm_io dev)) (b_chain b) (b_segs b)"
    if b: "b \<in> set (q_pending a)" for b
  proof -
    have "b \<in> set (bufs a)" using b by (simp add: bufs_def)
    then have "x \<notin> q_free a" if "x \<in> set (b_chain b)" for x
      using sim_apart(1)[OF sim] that by blast
    then have "seg_ok (vq_desc vq') (vq_shm_io dev) x = seg_ok (vq_desc vq) (vq_shm_io dev) x"
      if "x \<in> set (b_chain b)" for x
      using ds that by (intro seg_ok_same) blast
    moreover have "list_all2 (seg_ok (vq_desc vq) (vq_shm_io dev)) (b_chain b) (b_segs b)"
      using view b by (simp add: avail_view_def)
    ultimately show ?thesis by (auto simp: list_all2_conv_all_nth)
  qed
  ultimately show ?thesis
    by (simp add: avail_view_def n(1) av(1))
qed


subsection \<open>A step of the driver\<close>

definition drv_moved :: "vq_fine \<Rightarrow> drv_pc \<Rightarrow> virtqueue \<Rightarrow> vq_fine" where
  "drv_moved f pc d =
     f\<lparr>f_sys := (f_sys f)\<lparr>s_drv := d, s_dev := share d (s_dev (f_sys f))\<rparr>, f_drv := pc\<rparr>"

lemma fsim_drv:
  assumes f: "fsim f c a" and nx: "drv_next (f_drv f) (s_drv (f_sys f)) = Some (e, pc, d)"
    and c: "sim c' a'" "s_held c' = s_held c" "vq_nentries (s_drv c') = vq_nentries (s_drv c)"
      "dev_own (s_dev c') = dev_own (s_dev c)"
    and a: "q_held a' = q_held a" "q_pending a' = q_pending a @ bs"
    and rel: "drv_at pc (drv_own d) (drv_own (s_drv c')) a'" "call_ok pc c'"
    and views: "avail_view d (s_dev c') a'" "used_view (s_dev (f_sys f)) (s_drv c') a'"
  shows "fsim (drv_moved f pc d) c' a'"
proof (rule fsimD[OF f])
  note keep = drv_next_keeps[OF nx]
  let ?drv = "s_drv (f_sys f)" and ?dev = "s_dev (f_sys f)"
  assume R: "same_ring (f_sys f)" "vq_wf ?drv" "vq_wf ?dev" "vq_nentries ?drv = vq_nentries (s_drv c)"
    "vq_shm_io ?dev = vq_shm_io (s_dev c)" "s_held (f_sys f) = s_held c"
    "dev_at (f_dev f) (dev_own ?dev) (dev_own (s_dev c)) a"
  have same: "vq_used d = vq_used ?dev" "vq_nentries ?dev = vq_nentries d"
    using R(1) by (simp_all add: same_ring_def keep)
  have own: "dev_own (share d ?dev) = dev_own ?dev"
    using same(1) by (rule own_share)
  have wf: "vq_wf d" "vq_wf (share d ?dev)"
    using keep(3)[OF R(2)] R(3) same(2) by (simp_all add: vq_wf_share)
  have "dev_at (f_dev f) (dev_own (share d ?dev)) (dev_own (s_dev c')) a'"
    using dev_at_more[OF R(7) a] by (simp only: own c(4))
  moreover have "used_view (share d ?dev) (s_drv c') a'"
    using views(2) by (simp add: used_view_def same(1))
  ultimately show ?thesis
    using c R(4-6) rel views(1) wf same keep(2) dev_own_eqD(4)[OF c(4)]
    by (simp add: fsim_def drv_moved_def same_ring_def)
qed

lemma fsim_drv_quiet:
  assumes "fsim f c a" "drv_next (f_drv f) (s_drv (f_sys f)) = Some (e, pc, d)"
    and "drv_at pc (drv_own d) (drv_own (s_drv c)) a" "call_ok pc c" "avail_view d (s_dev c) a"
  shows "fsim (drv_moved f pc d) c a"
proof (rule fsimD[OF assms(1)])
  assume "sim c a" "used_view (s_dev (f_sys f)) (s_drv c) a"
  then show ?thesis
    using fsim_drv[OF assms(1,2) _ refl refl refl refl _ assms(3-5), of "[]"] by simp
qed

text \<open>When the driver's part is that of \<open>c\<close> again, the device sees what it sees in \<open>c\<close>.\<close>

lemma avail_view_own:
  assumes "sim c a" "drv_own (vq\<lparr>vq_queued_cnt := n\<rparr>) = drv_own (s_drv c)"
  shows "avail_view vq (s_dev c) a"
  using sim_avail_view[OF assms] by (simp add: avail_view_def)

lemma drv_at_add: "add_of pc = Some q \<Longrightarrow> drv_at pc F C a \<longleftrightarrow> adding q pc F C \<and> fill_at pc F a"
  by (cases pc) simp_all

lemma drv_filling:
  assumes f: "fsim f c a" and pc: "add_of (f_drv f) = Some q" "f_drv f \<noteq> Add_Idx q"
    and nx: "drv_next (f_drv f) (s_drv (f_sys f)) = Some (e, pc', d)"
  shows "e = None \<and> fsim (drv_moved f pc' d) c a"
proof (rule fsimD[OF f])
  let ?drv = "s_drv (f_sys f)" and ?C = "drv_own (s_drv c)"
  assume R: "sim c a" "vq_wf ?drv" "vq_nentries ?drv = vq_nentries (s_drv c)"
    "drv_at (f_drv f) (drv_own ?drv) ?C a" "call_ok (f_drv f) c" "avail_view ?drv (s_dev c) a"
  have ad: "adding q (f_drv f) (drv_own ?drv) ?C" and fill: "fill_at (f_drv f) ?drv a"
    using R(4) pc(1) by (simp_all add: drv_at_add)
  note st = fill_step[OF pc fill nx, THEN conjunct2, THEN conjunct2]
  have e: "e = None" "add_of pc' = Some q"
    using fill_step[OF pc fill nx] by blast+
  have ok: "call_ok pc' c" "submit_ok c (ac_sg q) (ac_readable q) (ac_writable q)"
    using R(5) pc(1) e(2) by (simp_all add: call_ok_def)
  from ad obtain X where X: "virtqueue_add_buffer ?C (ac_sg q) (ac_readable q) (ac_writable q) (ac_cookie q) =
      Some (VQUEUE_SUCCESS, X)" "drv_alone (f_drv f) (drv_own ?drv) [ac_event q] X"
    by (auto simp: adding_def)
  have "drv_alone pc' (drv_own d) [ac_event q] X"
    using drv_alone_own_next[OF X(2) add_of_own[OF pc(1)] nx] by (auto simp: e(1))
  then have at: "drv_at pc' (drv_own d) ?C a"
    using X(1) st e(2) by (auto simp: drv_at_add adding_def)
  have ne: "q_free a \<noteq> {}"
    by (rule sim_free[OF R(1)]) (use ok(2) in \<open>auto simp: submit_ok_def\<close>)
  have "avail_view d (s_dev c) a"
    using st by (intro avail_view_fill[OF R(6,1,2) drv_next_keeps(2)[OF nx] R(3) ne]) blast+
  then show ?thesis
    using fsim_drv_quiet[OF f nx at ok(1)] e(1) by blast
qed

lemma drv_publish:
  assumes f: "fsim f c a" and pc: "f_drv f = Add_Idx q"
    and nx: "drv_next (f_drv f) (s_drv (f_sys f)) = Some (e, pc', d)"
  shows "\<exists>c' a'. e = Some (ac_event q) \<and> vq_step c (ac_event q) c' \<and>
    abs_step (vq_shm_io (s_dev c)) a (ac_event q) a' \<and> fsim (drv_moved f pc' d) c' a'"
proof (rule fsimD[OF f])
  let ?drv = "s_drv (f_sys f)" and ?C = "drv_own (s_drv c)"
  assume R: "sim c a" "same_ring (f_sys f)" "drv_at (f_drv f) (drv_own ?drv) ?C a" "call_ok (f_drv f) c"
    "used_view (s_dev (f_sys f)) (s_drv c) a"
  have ok: "submit_ok c (ac_sg q) (ac_readable q) (ac_writable q)"
    using R(4) pc by (simp add: call_ok_def)
  from sim_submit[OF R(1) ok, of "ac_cookie q"] obtain cd a' where s:
      "virtqueue_add_buffer (s_drv c) (ac_sg q) (ac_readable q) (ac_writable q) (ac_cookie q) =
         Some (VQUEUE_SUCCESS, cd)"
      "abs_step (vq_shm_io (s_dev c)) a (ac_event q) a'"
      "sim (c\<lparr>s_drv := cd, s_dev := share cd (s_dev c)\<rparr>) a'"
    by blast
  let ?c' = "c\<lparr>s_drv := cd, s_dev := share cd (s_dev c)\<rparr>"
  have step: "vq_step c (ac_event q) ?c'"
    using ok s(1) by (rule vq_step.submit)
  have keep: "vq_used cd = vq_used (s_drv c)" "vq_nentries cd = vq_nentries (s_drv c)"
      "vq_used_cons_idx cd = vq_used_cons_idx (s_drv c)"
    using s(1) by (auto simp: virtqueue_add_buffer_def vq_ring_update_avail_def Let_def
        split: if_splits bind_splits)
  from R(3) pc have "adding q (Add_Idx q) (drv_own ?drv) ?C" by simp
  then have alone: "drv_alone (Add_Idx q) (drv_own ?drv) [ac_event q] (drv_own cd)"
    using s(1) by (auto simp: adding_def add_buffer_own)
  have e: "e = Some (ac_event q)" "pc' = Add_Queued"
    using nx pc by (simp_all add: Let_def)
  obtain es' where "[ac_event q] = opt_list e @ es'" "drv_alone pc' (drv_own d) es' (drv_own cd)"
    by (rule drv_alone_own_next[OF alone _ nx[unfolded pc]]) simp
  then have rest: "drv_alone Add_Queued (drv_own d) [] (drv_own cd)"
    by (simp add: e)
  from rest have own: "drv_own (d\<lparr>vq_queued_cnt := vq_queued_cnt d + 1\<rparr>) = drv_own cd"
    by (cases rule: drv_alone.cases) (auto simp: opt_list_def split: option.splits)
  from s(2) have a: "q_held a' = q_held a" "\<exists>bs. q_pending a' = q_pending a @ bs" "q_done a' = q_done a"
    by (cases rule: abs_step.cases, simp_all)+
  then obtain bs where bs: "q_pending a' = q_pending a @ bs" by blast
  have dv: "dev_own (share cd (s_dev c)) = dev_own (s_dev c)"
    using sim_same_ring[OF R(1)] by (intro own_share) (simp add: same_ring_def keep)
  have "fsim (drv_moved f pc' d) ?c' a'"
  proof (rule fsim_drv[OF f nx s(3) _ _ _ a(1) bs])
    show "avail_view d (s_dev ?c') a'"
      using avail_view_own[OF s(3)] own by simp
    show "used_view (s_dev (f_sys f)) (s_drv ?c') a'"
      using R(5) by (simp add: used_view_def keep a(3))
  qed (use e own dv keep in \<open>simp_all add: call_ok_def\<close>)
  then show ?thesis
    using step s(2) e(1) by blast
qed


subsection \<open>Reaping\<close>

lemma avail_view_same:
  "vq_desc vq' = vq_desc vq \<Longrightarrow> a_idx (vq_avail vq') = a_idx (vq_avail vq) \<Longrightarrow>
    a_ring (vq_avail vq') = a_ring (vq_avail vq) \<Longrightarrow> vq_nentries vq' = vq_nentries vq \<Longrightarrow>
    avail_view vq dev a \<Longrightarrow> avail_view vq' dev a"
  by (simp add: avail_view_def)

text \<open>The entry of the used ring at the consumer's index, whatever the device is writing.\<close>

lemma used_view_first:
  assumes "used_view vq drv a" "q_done a = (b, len) # ds" "vq_wf vq"
  shows "vq_used_cons_idx drv \<noteq> u_idx (vq_used vq)"
    "u_ring (vq_used vq) ! unat (vq_used_cons_idx drv AND (vq_nentries vq - 1)) =
       \<lparr>e_id = ucast (b_head b), e_len = len\<rparr>"
    "unat (vq_used_cons_idx drv AND (vq_nentries vq - 1)) < length (u_ring (vq_used vq))"
    "used_view vq (drv\<lparr>vq_used_cons_idx := vq_used_cons_idx drv + 1\<rparr>) (a\<lparr>q_done := ds\<rparr>)"
proof -
  note ix = vq_wf_index[OF assms(3)]
  have fl: "in_flight (unat (vq_nentries vq)) (u_idx (vq_used vq)) (\<lambda>j. u_ring (vq_used vq) ! j)
      (vq_used_cons_idx drv) (used_elem (b, len) # map used_elem ds)"
    using assms(1,2) by (simp add: used_view_def)
  note cons = in_flight_consume[OF fl ix(3)]
  show "vq_used_cons_idx drv \<noteq> u_idx (vq_used vq)"
    by (rule cons(1))
  show "u_ring (vq_used vq) ! unat (vq_used_cons_idx drv AND (vq_nentries vq - 1)) =
       \<lparr>e_id = ucast (b_head b), e_len = len\<rparr>"
    using cons(2) by (simp add: ix(1) used_elem_def)
  show "unat (vq_used_cons_idx drv AND (vq_nentries vq - 1)) < length (u_ring (vq_used vq))"
    using ix(1,2) vq_wf_ring(2)[OF assms(3)] by simp
  show "used_view vq (drv\<lparr>vq_used_cons_idx := vq_used_cons_idx drv + 1\<rparr>) (a\<lparr>q_done := ds\<rparr>)"
    using cons(3) by (simp add: used_view_def)
qed

lemma sim_free_alone:
  assumes sim: "sim c a" and dn: "q_done a = (b, len) # ds"
  shows "drv_alone (Free_Start len (b_head b))
    (s_drv c\<lparr>vq_used_cons_idx := vq_used_cons_idx (s_drv c) + 1\<rparr>)
    [Reap (b_cookie b) len] (reaped (s_drv c) (b_chain b))"
proof (rule simD[OF sim])
  let ?drv = "s_drv c\<lparr>vq_used_cons_idx := vq_used_cons_idx (s_drv c) + 1\<rparr>" and ?h = "unat (b_head b)"
  fix fs
  assume R: "vq_inv (s_drv c) fs (map b_chain (bufs a))"
    "\<forall>b \<in> set (bufs a). buf_ok (s_drv c) (vq_shm_io (s_dev c)) b"
  have bin: "b \<in> set (bufs a)" by (simp add: bufs_def dn)
  then have cin: "b_chain b \<in> set (map b_chain (bufs a))" by simp
  have fr: "vq_ring_free_chain ?drv (b_head b) = Some (given_back ?drv (b_chain b))"
    using R(1) cin by (intro free_chain_spec[of _ fs "map b_chain (bufs a)"]) (simp_all add: vq_inv_cons_idx)
  have h: "?h < length (vq_descx (given_back ?drv (b_chain b)))"
    using vq_inv_chain(6)[OF R(1) cin] vq_inv_wf[OF R(1)] by (simp add: vq_wf_def)
  from free_alone[OF fr array_get_in[OF h], of len] R(2) bin show ?thesis
    by (simp add: reaped_def Let_def buf_ok_def)
qed

fun free_of :: "drv_pc \<Rightarrow> u32 option" where
  "free_of (Free_Start len h) = Some len"
| "free_of (Free_Flags len h idx) = Some len"
| "free_of (Free_Next len h idx) = Some len"
| "free_of (Free_Link len h idx) = Some len"
| "free_of pc = None"

lemma free_step:
  assumes "free_of pc = Some len" "drv_next pc vq = Some (e, pc', d)"
  shows "e = None \<and> own_pc pc \<and> add_of pc' = None \<and> drv_at pc F C a = freeing pc len F C a \<and>
    drv_at pc' F' C a = freeing pc' len F' C a \<and> vq_avail d = vq_avail vq \<and>
    (vq_desc d = vq_desc vq \<or> (\<exists>i n. vq_desc d = (vq_desc vq)[i := (vq_desc vq ! i)\<lparr>d_next := n\<rparr>]))"
proof -
  have "vq_desc d = vq_desc vq \<or> (\<exists>i n. vq_desc d = (vq_desc vq)[i := (vq_desc vq ! i)\<lparr>d_next := n\<rparr>])"
  proof (cases pc)
    case (Free_Link len h idx)
    then have "vq_desc d = (vq_desc vq)[unat idx := (vq_desc vq ! unat idx)\<lparr>d_next := vq_desc_head_idx vq\<rparr>]"
      using assms(2) by (auto simp: write_desc_def split: bind_splits)
    then show ?thesis by blast
  qed (use assms in \<open>auto split: bind_splits if_splits\<close>)
  moreover have "e = None \<and> own_pc pc \<and> add_of pc' = None \<and> drv_at pc F C a = freeing pc len F C a \<and>
      drv_at pc' F' C a = freeing pc' len F' C a \<and> vq_avail d = vq_avail vq"
    using assms by (cases pc) (auto simp: write_desc_def split: bind_splits if_splits)
  ultimately show ?thesis
    by blast
qed

lemma drv_freeing:
  assumes f: "fsim f c a" and nx: "drv_next (f_drv f) (s_drv (f_sys f)) = Some (e, pc', d)"
    and pc: "free_of (f_drv f) = Some len"
  shows "e = None \<and> fsim (drv_moved f pc' d) c a"
proof -
  let ?drv = "s_drv (f_sys f)" and ?C = "drv_own (s_drv c)"
  note st = free_step[OF pc nx]
  have e: "e = None" and own: "own_pc (f_drv f)" and ok: "add_of pc' = None" and av: "vq_avail d = vq_avail ?drv"
    using st by blast+
  have at: "drv_at (f_drv f) (drv_own ?drv) ?C a"
    using f by (elim fsimD)
  have view: "avail_view ?drv (s_dev c) a"
    using f by (elim fsimD)
  from at have "freeing (f_drv f) len (drv_own ?drv) ?C a"
    using st by blast
  then obtain b ds where b: "q_done a = (b, len) # ds"
      "drv_alone (f_drv f) (drv_own ?drv) [Reap (b_cookie b) len] (reaped ?C (b_chain b))"
    by (auto simp: freeing_def)
  obtain es' where es: "[Reap (b_cookie b) len] = opt_list e @ es'"
      "drv_alone pc' (drv_own d) es' (reaped ?C (b_chain b))"
    by (rule drv_alone_own_next[OF b(2) own nx])
  then have "freeing pc' len (drv_own d) ?C a"
    using b(1) e by (auto simp: freeing_def)
  then have at': "drv_at pc' (drv_own d) ?C a"
    using st by blast
  have "seg_ok (vq_desc d) io = seg_ok (vq_desc ?drv) io" for io
    using st seg_ok_next by (intro ext) metis
  then have "avail_view d (s_dev c) a"
    using view by (simp add: avail_view_def av drv_next_keeps(2)[OF nx])
  then show ?thesis
    using fsim_drv_quiet[OF f nx at'] ok e by (simp add: call_ok_def)
qed

lemma drv_reaped:
  assumes f: "fsim f c a" and pc: "f_drv f = Get_Cookie len h"
    and nx: "drv_next (f_drv f) (s_drv (f_sys f)) = Some (e, pc', d)"
  shows "\<exists>ev c' a'. e = Some ev \<and> vq_step c ev c' \<and> abs_step (vq_shm_io (s_dev c)) a ev a' \<and>
    fsim (drv_moved f pc' d) c' a'"
proof (rule fsimD[OF f])
  let ?drv = "s_drv (f_sys f)" and ?C = "drv_own (s_drv c)"
  assume R: "sim c a" "same_ring (f_sys f)" "vq_wf (s_dev (f_sys f))" "drv_at (f_drv f) (drv_own ?drv) ?C a"
    "used_view (s_dev (f_sys f)) (s_drv c) a"
  from R(4) pc obtain b ds where b: "q_done a = (b, len) # ds"
      "drv_alone (Get_Cookie len h) (drv_own ?drv) [Reap (b_cookie b) len] (drv_own (reaped (s_drv c) (b_chain b)))"
    by (auto simp: freeing_def)
  let ?cd = "reaped (s_drv c) (b_chain b)"
  let ?c' = "c\<lparr>s_drv := ?cd, s_dev := share ?cd (s_dev c)\<rparr>"
  obtain k where e: "e = Some (Reap k len)" "pc' = D_Idle"
    using nx pc by (auto split: bind_splits)
  obtain es' where es: "[Reap (b_cookie b) len] = opt_list e @ es'" "drv_alone pc' (drv_own d) es' (drv_own ?cd)"
    by (rule drv_alone_own_next[OF b(2) _ nx[unfolded pc]]) simp
  then have k: "k = b_cookie b" and own: "drv_own d = drv_own ?cd"
    using e by simp_all
  note get = sim_get[OF R(1) b(1)]
  from sim_reap[OF R(1) b(1)] get obtain a' where s:
      "abs_step (vq_shm_io (s_dev c)) a (Reap (b_cookie b) len) a'" "sim ?c' a'"
    by auto
  have step: "vq_step c (Reap (b_cookie b) len) ?c'"
    using get by (rule vq_step.reap)
  from s(1) b(1) have a: "q_held a' = q_held a" "q_pending a' = q_pending a @ []" "q_done a' = ds"
    by (cases rule: abs_step.cases; simp)+
  have dv: "dev_own (share ?cd (s_dev c)) = dev_own (s_dev c)"
    using sim_same_ring[OF R(1)] by (intro own_share) (simp add: same_ring_def)
  have "fsim (drv_moved f pc' d) ?c' a'"
  proof (rule fsim_drv[OF f nx s(2) _ _ _ a(1,2)])
    show "avail_view d (s_dev ?c') a'"
      using sim_avail_view[OF s(2)] own by simp
    show "used_view (s_dev (f_sys f)) (s_drv ?c') a'"
      using used_view_first(4)[OF R(5) b(1) R(3)] by (simp add: used_view_def a(3))
  qed (use e own dv in \<open>simp_all add: call_ok_def\<close>)
  then show ?thesis
    using step s(1) e(1) k by blast
qed

lemma drv_getting:
  assumes f: "fsim f c a" and pc: "f_drv f = Get_Check \<or> f_drv f = Get_Id \<or> f_drv f = Get_Len i h"
    and nx: "drv_next (f_drv f) (s_drv (f_sys f)) = Some (e, pc', d)"
  shows "e = None \<and> fsim (drv_moved f pc' d) c a"
proof (rule fsimD[OF f])
  let ?drv = "s_drv (f_sys f)" and ?C = "drv_own (s_drv c)"
  assume R: "sim c a" "same_ring (f_sys f)" "vq_wf (s_dev (f_sys f))" "drv_at (f_drv f) (drv_own ?drv) ?C a"
    "used_view (s_dev (f_sys f)) (s_drv c) a" "avail_view ?drv (s_dev c) a"
    "vq_nentries ?drv = vq_nentries (s_drv c)"
  have same: "vq_used (s_dev (f_sys f)) = vq_used ?drv" "vq_nentries (s_dev (f_sys f)) = vq_nentries ?drv"
    using R(2) by (simp_all add: same_ring_def)
  note first = used_view_first[OF R(5) _ R(3), unfolded same]
  have res: "e = None \<and> drv_at pc' (drv_own d) ?C a \<and> add_of pc' = None \<and>
      vq_desc d = vq_desc ?drv \<and> vq_avail d = vq_avail ?drv"
    using pc
  proof (elim disjE)
    assume pc: "f_drv f = Get_Check"
    then have own: "drv_own ?drv = ?C" using R(4) by simp
    show ?thesis
    proof (cases "vq_used_cons_idx ?drv = u_idx (vq_used ?drv)")
      case True
      then show ?thesis using nx pc own by auto
    next
      case False
      have "q_done a \<noteq> []"
      proof
        assume "q_done a = []"
        then have "u_idx (vq_used ?drv) = vq_used_cons_idx (s_drv c)"
          using R(5) by (simp add: used_view_def same)
        then show False using False drv_own_eqD(4)[OF own] by simp
      qed
      then show ?thesis using False nx pc own by auto
    qed
  next
    assume pc: "f_drv f = Get_Id"
    then have own: "drv_own ?drv = ?C" and "q_done a \<noteq> []" using R(4) by simp_all
    then obtain b len ds where b: "q_done a = (b, len) # ds"
      by (cases "q_done a") auto
    note own' = drv_own_eqD[OF own]
    have "drv_own (?drv\<lparr>vq_used_cons_idx := vq_used_cons_idx ?drv + 1\<rparr>) =
        ?C\<lparr>vq_used_cons_idx := vq_used_cons_idx ?C + 1\<rparr>"
      using own by (metis drv_own_updates(7) drv_own_simps(9))
    then show ?thesis
      using nx pc first(2,3)[OF b] b own' by (auto simp: Let_def)
  next
    assume pc: "f_drv f = Get_Len i h"
    then obtain b len ds where b: "q_done a = (b, len) # ds" "h = b_head b"
        "i = vq_used_cons_idx (s_drv c) AND (vq_nentries ?drv - 1)"
        "drv_own ?drv = drv_own (s_drv c\<lparr>vq_used_cons_idx := vq_used_cons_idx (s_drv c) + 1\<rparr>)"
      using R(4,7) by auto
    have "drv_alone (Free_Start len h) (drv_own ?drv) [Reap (b_cookie b) len]
        (drv_own (reaped (s_drv c) (b_chain b)))"
      using drv_alone_own[OF sim_free_alone[OF R(1) b(1)]] b(2,4) by simp
    then show ?thesis
      using nx pc first(2,3)[OF b(1)] b(1,3) by (auto simp: freeing_def)
  qed
  then have "fsim (drv_moved f pc' d) c a"
    using avail_view_same[OF _ _ _ drv_next_keeps(2)[OF nx] R(6)]
    by (intro fsim_drv_quiet[OF f nx]) (simp_all add: call_ok_def)
  then show ?thesis using res by blast
qed


subsection \<open>Callbacks and kicks\<close>

lemma flagged_own [simp]: "flagged (drv_own vq) n = drv_own (flagged vq n)"
  by (simp add: flagged_def)

lemma flagged_simps [simp]:
  "vq_used (flagged vq n) = vq_used vq" "vq_nentries (flagged vq n) = vq_nentries vq"
  "vq_used_cons_idx (flagged vq n) = vq_used_cons_idx vq" "vq_desc (flagged vq n) = vq_desc vq"
  "a_idx (vq_avail (flagged vq n)) = a_idx (vq_avail vq)" "a_ring (vq_avail (flagged vq n)) = a_ring (vq_avail vq)"
  by (simp_all add: flagged_def)

text \<open>What the device has published and its wish to be notified are those of the whole operations.\<close>

lemma fsim_used_idx:
  assumes "fsim f c a"
  shows "u_idx (vq_used (s_drv (f_sys f))) = u_idx (vq_used (s_drv c))"
    "u_flags (vq_used (s_drv (f_sys f))) = u_flags (vq_used (s_drv c))"
proof (rule_tac [!] fsimD[OF assms])
  let ?dev = "s_dev (f_sys f)"
  assume R: "sim c a" "same_ring (f_sys f)" "dev_at (f_dev f) (dev_own ?dev) (dev_own (s_dev c)) a"
  note used = arg_cong[of "dev_own ?dev" _ vq_used]
  have "u_idx (vq_used ?dev) = u_idx (vq_used (s_dev c)) \<and> u_flags (vq_used ?dev) = u_flags (vq_used (s_dev c))"
    using R(3) by (cases "f_dev f") (auto dest!: used)
  with R(1,2) sim_same_ring[OF R(1)]
  show "u_idx (vq_used (s_drv (f_sys f))) = u_idx (vq_used (s_drv c))"
    "u_flags (vq_used (s_drv (f_sys f))) = u_flags (vq_used (s_drv c))"
    by (simp_all add: same_ring_def)
qed

lemma drv_flag:
  assumes f: "fsim f c a" and nx: "drv_next (f_drv f) (s_drv (f_sys f)) = Some (Some ev, pc', d)"
    and step: "vq_step c ev (c\<lparr>s_drv := cd, s_dev := share cd (s_dev c)\<rparr>)"
    and ev: "ev \<in> {Enable_Cb n, Disable_Cb, Kick b}" and own: "drv_at pc' (drv_own d) (drv_own cd) a"
      "vq_desc d = vq_desc cd" "vq_avail d = vq_avail cd" "vq_nentries d = vq_nentries cd"
    and keep: "vq_used cd = vq_used (s_drv c)" "vq_nentries cd = vq_nentries (s_drv c)"
      "vq_used_cons_idx cd = vq_used_cons_idx (s_drv c)"
    and pc: "add_of pc' = None"
  shows "\<exists>c' a'. vq_step c ev c' \<and> abs_step (vq_shm_io (s_dev c)) a ev a' \<and>
    fsim (drv_moved f pc' d) c' a'"
proof (rule fsimD[OF f])
  let ?c' = "c\<lparr>s_drv := cd, s_dev := share cd (s_dev c)\<rparr>"
  assume R: "sim c a" "used_view (s_dev (f_sys f)) (s_drv c) a"
  obtain a' where a': "abs_step (vq_shm_io (s_dev c)) a ev a'" "sim ?c' a'"
    using sim_step[OF R(1) step] by blast
  then have "a' = a"
    using ev by (cases rule: abs_step.cases) auto
  note sim' = a'(2)[unfolded this]
  have dv: "dev_own (share cd (s_dev c)) = dev_own (s_dev c)"
    using sim_same_ring[OF R(1)] by (intro own_share) (simp add: same_ring_def keep)
  have "fsim (drv_moved f pc' d) ?c' a"
  proof (rule fsim_drv[OF f nx sim' _ _ _ refl, of "[]"])
    show "avail_view d (s_dev ?c') a"
    proof (rule avail_view_same)
      show "avail_view cd (s_dev ?c') a"
        using sim_avail_view[OF sim' refl] by simp
    qed (simp_all add: own)
    show "used_view (s_dev (f_sys f)) (s_drv ?c') a"
      using R(2) by (simp add: used_view_def keep)
  qed (use dv own pc keep in \<open>simp_all add: call_ok_def\<close>)
  then show ?thesis
    using step a'(1) \<open>a' = a\<close> by blast
qed

lemma drv_flags:
  assumes f: "fsim f c a" and nx: "drv_next (f_drv f) (s_drv (f_sys f)) = Some (e, pc', d)"
    and pc: "f_drv f = Enable_Used \<or> f_drv f = Disable_Flag \<or> f_drv f = Kick_Check"
  shows "\<exists>ev c' a'. e = Some ev \<and> vq_step c ev c' \<and> abs_step (vq_shm_io (s_dev c)) a ev a' \<and>
    fsim (drv_moved f pc' d) c' a'"
proof (rule fsimD[OF f])
  let ?drv = "s_drv (f_sys f)"
  let ?n = "a_flags (vq_avail (s_drv c)) AND NOT VRING_AVAIL_F_NO_INTERRUPT"
  assume R: "sim c a" "drv_at (f_drv f) (drv_own ?drv) (drv_own (s_drv c)) a"
  have fl: "vq_flags (s_drv c) = 0"
    using R(1) by (auto elim: simD)
  from pc show ?thesis
  proof (elim disjE)
    assume pc: "f_drv f = Enable_Used"
    let ?r = "if vq_used_cons_idx (s_drv c) = u_idx (vq_used (s_drv c)) then 0 else 1 :: int"
    have own: "drv_own ?drv = drv_own (flagged (s_drv c) ?n)"
      using R(2) pc by simp
    have e: "e = Some (Enable_Cb ?r)" "pc' = D_Idle" "d = ?drv"
      using nx pc drv_own_eqD(4)[OF own] by (auto simp: nused_pos fsim_used_idx(1)[OF f] split: if_splits)
    show ?thesis
      using drv_flag[OF f nx[unfolded e(1)] vq_step.enable[OF cb_flagged(2)[OF fl]]] own drv_own_eqD(1-3)[OF own]
      by (simp add: e)
  next
    assume pc: "f_drv f = Disable_Flag"
    let ?m = "a_flags (vq_avail (s_drv c)) OR VRING_AVAIL_F_NO_INTERRUPT"
    have own: "drv_own ?drv = drv_own (s_drv c)"
      using R(2) pc by simp
    have "vq_flags ?drv = 0"
      using drv_own_eqD(5)[OF own] fl by simp
    then have e: "e = Some Disable_Cb" "pc' = D_Idle" "d = flagged ?drv ?m"
      using nx pc drv_own_eqD(2)[OF own] by (simp_all add: cb_flagged(1))
    have d: "drv_own d = drv_own (flagged (s_drv c) ?m)"
      unfolding e(3) flagged_own[symmetric] own ..
    show ?thesis
      using drv_flag[OF f nx[unfolded e(1)] vq_step.disable[OF cb_flagged(1)[OF fl]]] d drv_own_eqD(1-3)[OF d]
      by (simp add: e(1,2))
  next
    assume pc: "f_drv f = Kick_Check"
    let ?b = "vq_ring_must_notify_host (s_drv c) \<and> vq_notify (s_drv c) \<noteq> 0"
    have own: "drv_own ?drv = drv_own (s_drv c)"
      using R(2) pc by simp
    have "vq_ring_must_notify_host ?drv = vq_ring_must_notify_host (s_drv c)"
      using drv_own_eqD(5)[OF own] fl by (simp add: vq_ring_must_notify_host_def fsim_used_idx(2)[OF f])
    then have e: "e = Some (Kick ?b)" "pc' = Kick_Clear" "d = ?drv"
      using nx pc drv_own_eqD(8)[OF own] by (auto split: if_splits)
    have one_if: "((if b then 1 else 0 :: nat) \<noteq> 0) = b" for b
      by simp
    have step: "vq_step c (Kick ?b) (c\<lparr>s_drv := s_drv c\<lparr>vq_queued_cnt := 0\<rparr>,
        s_dev := share (s_drv c\<lparr>vq_queued_cnt := 0\<rparr>) (s_dev c)\<rparr>)"
      using vq_step.kick[OF kick_result, of c] by (simp only: one_if)
    show ?thesis
      using drv_flag[OF f nx[unfolded e(1)] step] own drv_own_eqD(1-3)[OF own]
      by (simp add: e)
  qed
qed

lemma drv_idle_step:
  assumes f: "fsim f c a" and nx: "drv_next (f_drv f) (s_drv (f_sys f)) = Some (e, pc', d)"
    and pc: "f_drv f = Add_Queued \<or> f_drv f = Enable_Flag \<or> f_drv f = Kick_Clear"
  shows "e = None \<and> fsim (drv_moved f pc' d) c a"
proof (rule fsimD[OF f])
  let ?drv = "s_drv (f_sys f)"
  assume R: "sim c a" "drv_at (f_drv f) (drv_own ?drv) (drv_own (s_drv c)) a" "avail_view ?drv (s_dev c) a"
  have "vq_flags ?drv = 0" if "f_drv f = Enable_Flag"
    using R(1,2) drv_own_eqD(5)[of ?drv "s_drv c"] that by (auto elim: simD)
  moreover have "drv_own (upd_avail ((vq_avail ?drv)\<lparr>a_flags := a_flags (vq_avail ?drv) AND NOT VRING_AVAIL_F_NO_INTERRUPT\<rparr>) ?drv) =
      drv_own (flagged (s_drv c) (a_flags (vq_avail (s_drv c)) AND NOT VRING_AVAIL_F_NO_INTERRUPT))"
    if "drv_own ?drv = drv_own (s_drv c)"
    using that drv_own_eqD(2)[OF that] by (simp add: flagged_def drv_own_updates[symmetric] del: drv_own_updates)
  ultimately have "e = None \<and> drv_at pc' (drv_own d) (drv_own (s_drv c)) a \<and> add_of pc' = None \<and>
      vq_desc d = vq_desc ?drv \<and> a_idx (vq_avail d) = a_idx (vq_avail ?drv) \<and> a_ring (vq_avail d) = a_ring (vq_avail ?drv)"
    using pc nx R(2) by (auto simp: Let_def)
  then show ?thesis
    using avail_view_same[OF _ _ _ drv_next_keeps(2)[OF nx] R(3)] nx
    by (auto intro!: fsim_drv_quiet[OF f] simp: call_ok_def)
qed

subsection \<open>All the driver's steps\<close>

definition fine_matches :: "vq_event option \<Rightarrow> vq_fine \<Rightarrow> vq_sys \<Rightarrow> vq_abs \<Rightarrow> bool" where
  "fine_matches e f' c a \<longleftrightarrow>
     (case e of
        None \<Rightarrow> fsim f' c a
      | Some ev \<Rightarrow> \<exists>c' a'. vq_step c ev c' \<and> abs_step (vq_shm_io (s_dev c)) a ev a' \<and> fsim f' c' a')"

lemma fine_matchesI:
  "e = None \<and> fsim f' c a \<Longrightarrow> fine_matches e f' c a"
  "\<exists>ev c' a'. e = Some ev \<and> vq_step c ev c' \<and> abs_step (vq_shm_io (s_dev c)) a ev a' \<and> fsim f' c' a' \<Longrightarrow>
    fine_matches e f' c a"
  unfolding fine_matches_def by (simp, force)

lemma drv_step_sim:
  assumes f: "fsim f c a" and nx: "drv_next (f_drv f) (s_drv (f_sys f)) = Some (e, pc', d)"
  shows "fine_matches e (drv_moved f pc' d) c a"
proof -
  have add: ?thesis if "add_of (f_drv f) = Some q" "f_drv f \<noteq> Add_Idx q" for q
    using drv_filling[OF f that nx] by (simp add: fine_matches_def)
  have free: ?thesis if "free_of (f_drv f) = Some len" for len
    using drv_freeing[OF f nx that] by (simp add: fine_matches_def)
  show ?thesis
  proof (cases "f_drv f")
    case (Add_Idx q)
    then show ?thesis using drv_publish[OF f Add_Idx nx] by (intro fine_matchesI(2)) blast
  next
    case (Get_Cookie len h)
    from drv_reaped[OF f Get_Cookie nx] show ?thesis by (rule fine_matchesI(2))
  next
    case Get_Check
    then show ?thesis using drv_getting[OF f _ nx] by (simp add: fine_matches_def)
  next
    case Get_Id
    then show ?thesis using drv_getting[OF f _ nx] by (simp add: fine_matches_def)
  next
    case (Get_Len i h)
    then show ?thesis using drv_getting[OF f _ nx, of i h] by (simp add: fine_matches_def)
  next
    case Kick_Check
    then show ?thesis using drv_flags[OF f nx] by (intro fine_matchesI(2)) blast
  qed (use add free fine_matchesI(1)[OF drv_idle_step[OF f nx]] fine_matchesI(2)[OF drv_flags[OF f nx]] nx in simp_all)
qed


section \<open>The device's steps preserve the relation\<close>

definition dev_moved :: "vq_fine \<Rightarrow> vq_event option \<Rightarrow> dev_pc \<Rightarrow> virtqueue \<Rightarrow> vq_fine" where
  "dev_moved f e pc d =
     f\<lparr>f_sys := (f_sys f)\<lparr>s_drv := share d (s_drv (f_sys f)), s_dev := d,
        s_held := held_after e (s_held (f_sys f))\<rparr>, f_dev := pc\<rparr>"

lemma held_after_None [simp]: "held_after None hs = hs"
  by (simp add: held_after_def)

lemma fsim_dev:
  assumes f: "fsim f c a" and nx: "dev_next (f_dev f) (s_dev (f_sys f)) = Some (e, pc, d)"
    and c: "sim c' a'" "s_held c' = held_after e (s_held c)" "vq_nentries (s_drv c') = vq_nentries (s_drv c)"
      "vq_shm_io (s_dev c') = vq_shm_io (s_dev c)" "drv_own (s_drv c') = drv_own (s_drv c)"
    and a: "q_free a' = q_free a" "q_done a' = q_done a @ ds"
    and rel: "dev_at pc (dev_own d) (dev_own (s_dev c')) a'"
    and views: "avail_view (s_drv (f_sys f)) (s_dev c') a'" "used_view d (s_drv c') a'"
  shows "fsim (dev_moved f e pc d) c' a'"
proof (rule fsimD[OF f])
  note keep = dev_next_keeps[OF nx]
  let ?drv = "s_drv (f_sys f)" and ?dev = "s_dev (f_sys f)"
  assume R: "same_ring (f_sys f)" "vq_wf ?drv" "vq_wf ?dev" "vq_nentries ?drv = vq_nentries (s_drv c)"
    "vq_shm_io ?dev = vq_shm_io (s_dev c)" "s_held (f_sys f) = s_held c"
    "drv_at (f_drv f) (drv_own ?drv) (drv_own (s_drv c)) a" "call_ok (f_drv f) c"
  have same: "vq_desc d = vq_desc ?drv" "vq_avail d = vq_avail ?drv" "vq_nentries d = vq_nentries ?drv"
    using R(1) by (simp_all add: same_ring_def keep)
  have own: "drv_own (share d ?drv) = drv_own ?drv"
    using same(1,2) by (rule own_share)
  have wf: "vq_wf d" "vq_wf (share d ?drv)"
    using keep(5)[OF R(3)] R(2) same(3) by (simp_all add: vq_wf_share)
  have "drv_at (f_drv f) (drv_own (share d ?drv)) (drv_own (s_drv c')) a'"
    using drv_at_more[OF R(7) a] by (simp only: own c(5))
  moreover have "call_ok (f_drv f) c'"
    using R(8) submit_ok_cong[OF drv_own_eqD(6)[OF c(5)] c(4)]
    by (simp add: call_ok_def split: option.splits)
  moreover have "avail_view (share d ?drv) (s_dev c') a'"
    using views(1) by (simp add: avail_view_def same)
  ultimately show ?thesis
    using c(1-4) R(4-6) rel views(2) wf same keep(4)
    by (simp add: fsim_def dev_moved_def same_ring_def)
qed

lemma fsim_dev_quiet:
  assumes "fsim f c a" "dev_next (f_dev f) (s_dev (f_sys f)) = Some (None, pc, d)"
    and "dev_at pc (dev_own d) (dev_own (s_dev c)) a" "used_view d (s_drv c) a"
  shows "fsim (dev_moved f None pc d) c a"
proof (rule fsimD[OF assms(1)])
  assume "sim c a" "avail_view (s_drv (f_sys f)) (s_dev c) a"
  then show ?thesis
    using fsim_dev[OF assms(1,2) _ _ refl refl refl refl _ assms(3) _ assms(4), of "[]"] by simp
qed

text \<open>The entry of the available ring at the device's index, whatever the driver is writing.\<close>

lemma avail_view_first:
  assumes "avail_view vq dev a" "q_pending a = b # bs" "vq_wf vq"
  shows "vq_available_idx dev \<noteq> a_idx (vq_avail vq)"
    "a_ring (vq_avail vq) ! unat (vq_available_idx dev AND (vq_nentries vq - 1)) = b_head b"
    "unat (vq_available_idx dev AND (vq_nentries vq - 1)) < length (a_ring (vq_avail vq))"
    "avail_view vq (dev\<lparr>vq_available_idx := vq_available_idx dev + 1\<rparr>) (a\<lparr>q_pending := bs, q_held := hs\<rparr>)"
proof -
  note ix = vq_wf_index[OF assms(3)]
  have fl: "in_flight (unat (vq_nentries vq)) (a_idx (vq_avail vq)) (\<lambda>j. a_ring (vq_avail vq) ! j)
      (vq_available_idx dev) (b_head b # map b_head bs)"
    using assms(1,2) by (simp add: avail_view_def)
  note cons = in_flight_consume[OF fl ix(3)]
  show "vq_available_idx dev \<noteq> a_idx (vq_avail vq)"
    by (rule cons(1))
  show "a_ring (vq_avail vq) ! unat (vq_available_idx dev AND (vq_nentries vq - 1)) = b_head b"
    using cons(2) by (simp add: ix(1))
  have "unat (vq_available_idx dev) mod unat (vq_nentries vq) < unat (vq_nentries vq)"
    using ix(2) by simp
  then show "unat (vq_available_idx dev AND (vq_nentries vq - 1)) < length (a_ring (vq_avail vq))"
    unfolding ix(1) vq_wf_ring(1)[OF assms(3)] by linarith
  show "avail_view vq (dev\<lparr>vq_available_idx := vq_available_idx dev + 1\<rparr>) (a\<lparr>q_pending := bs, q_held := hs\<rparr>)"
    using cons(3) assms(1,2) by (simp add: avail_view_def)
qed

text \<open>The first segment of the first pending buffer, as the device reads it.\<close>

lemma avail_view_segment:
  assumes "avail_view vq dev a" "q_pending a = b # bs" "b_chain b \<noteq> []"
  obtains adr len wr sgs where "b_segs b = (adr, len, wr) # sgs"
    "metal_io_phys_to_virt (vq_shm_io dev) (d_addr (vq_desc vq ! unat (b_head b))) = Some adr"
    "d_len (vq_desc vq ! unat (b_head b)) = len"
proof -
  have "list_all2 (seg_ok (vq_desc vq) (vq_shm_io dev)) (b_chain b) (b_segs b)"
    using assms(1,2) by (simp add: avail_view_def)
  with assms(3) show ?thesis
    by (cases "b_chain b") (auto simp: list_all2_Cons1 seg_ok_def Let_def intro: that)
qed

subsection \<open>Taking a buffer\<close>

lemma used_view_same:
  "vq_used vq' = vq_used vq \<Longrightarrow> vq_nentries vq' = vq_nentries vq \<Longrightarrow> used_view vq drv a \<Longrightarrow>
    used_view vq' drv a"
  by (simp add: used_view_def)

lemma dev_taking:
  assumes f: "fsim f c a" and pc: "f_dev f = Take_Check \<or> f_dev f = Take_Slot \<or> f_dev f = Take_Addr h"
    and nx: "dev_next (f_dev f) (s_dev (f_sys f)) = Some (e, pc', d)"
  shows "e = None \<and> fsim (dev_moved f e pc' d) c a"
proof (rule fsimD[OF f])
  let ?drv = "s_drv (f_sys f)" and ?dev = "s_dev (f_sys f)" and ?D = "dev_own (s_dev c)"
  assume R: "sim c a" "same_ring (f_sys f)" "vq_wf ?drv" "dev_at (f_dev f) (dev_own ?dev) ?D a"
    "avail_view ?drv (s_dev c) a" "used_view ?dev (s_drv c) a"
    "vq_shm_io ?dev = vq_shm_io (s_dev c)"
  have same: "vq_desc ?dev = vq_desc ?drv" "vq_avail ?dev = vq_avail ?drv" "vq_nentries ?dev = vq_nentries ?drv"
    using R(2) by (simp_all add: same_ring_def)
  note first = avail_view_first[OF R(5) _ R(3)]
  have res: "e = None \<and> dev_at pc' (dev_own d) ?D a \<and> vq_used d = vq_used ?dev"
    using pc
  proof (elim disjE)
    assume pc: "f_dev f = Take_Check"
    then have own: "dev_own ?dev = ?D" using R(4) by simp
    show ?thesis
    proof (cases "vq_available_idx ?dev = a_idx (vq_avail ?dev)")
      case True
      then show ?thesis using nx pc own by auto
    next
      case False
      have "q_pending a \<noteq> []"
      proof
        assume "q_pending a = []"
        then have "a_idx (vq_avail ?dev) = vq_available_idx (s_dev c)"
          using R(5) by (simp add: avail_view_def same)
        then show False using False dev_own_eqD(3)[OF own] by simp
      qed
      then show ?thesis using False nx pc own by auto
    qed
  next
    assume pc: "f_dev f = Take_Slot"
    then have own: "dev_own ?dev = ?D" and "q_pending a \<noteq> []" using R(4) by simp_all
    then obtain b bs where b: "q_pending a = b # bs"
      by (cases "q_pending a") auto
    have "dev_own (?dev\<lparr>vq_available_idx := vq_available_idx ?dev + 1\<rparr>) =
        ?D\<lparr>vq_available_idx := vq_available_idx ?D + 1\<rparr>"
      using own by (metis dev_own_updates(2) dev_own_simps(3))
    then show ?thesis
      using nx pc first(2,3)[OF b] b dev_own_eqD[OF own] by (auto simp: Let_def same)
  next
    assume pc: "f_dev f = Take_Addr h"
    then obtain b bs where b: "q_pending a = b # bs" "h = b_head b"
        "dev_own ?dev = ?D\<lparr>vq_available_idx := vq_available_idx ?D + 1\<rparr>"
      using R(4) by auto
    have "b \<in> set (bufs a)" by (simp add: bufs_def b(1))
    from sim_apart(2)[OF R(1) this] obtain adr len wr sgs where sg: "b_segs b = (adr, len, wr) # sgs"
        "metal_io_phys_to_virt (vq_shm_io (s_dev c)) (d_addr (vq_desc ?drv ! unat (b_head b))) = Some adr"
      by (rule avail_view_segment[OF R(5) b(1)])
    then show ?thesis
      using nx pc b R(7) by (auto simp: same split: bind_splits)
  qed
  then have "fsim (dev_moved f None pc' d) c a"
    using nx used_view_same[OF _ dev_next_keeps(3)[OF nx] R(6)] by (intro fsim_dev_quiet[OF f]) simp_all
  then show ?thesis using res by blast
qed

lemma dev_taken:
  assumes f: "fsim f c a" and pc: "f_dev f = Take_Len buf h"
    and nx: "dev_next (f_dev f) (s_dev (f_sys f)) = Some (e, pc', d)"
  shows "\<exists>ev c' a'. e = Some ev \<and> vq_step c ev c' \<and> abs_step (vq_shm_io (s_dev c)) a ev a' \<and>
    fsim (dev_moved f e pc' d) c' a'"
proof (rule fsimD[OF f])
  let ?drv = "s_drv (f_sys f)" and ?dev = "s_dev (f_sys f)"
  assume R: "sim c a" "same_ring (f_sys f)" "vq_wf ?drv" "vq_wf ?dev"
    "dev_at (f_dev f) (dev_own ?dev) (dev_own (s_dev c)) a"
    "avail_view ?drv (s_dev c) a" "used_view ?dev (s_drv c) a"
  have same: "vq_desc ?dev = vq_desc ?drv"
    using R(2) by (simp add: same_ring_def)
  from R(5) pc obtain b bs len wr sgs where b: "q_pending a = b # bs" "h = b_head b"
      "b_segs b = (buf, len, wr) # sgs"
      "dev_own ?dev = dev_own (s_dev c\<lparr>vq_available_idx := vq_available_idx (s_dev c) + 1\<rparr>)"
    by auto
  have "b \<in> set (bufs a)" by (simp add: bufs_def b(1))
  from sim_apart(2)[OF R(1) this] have len: "d_len (vq_desc ?drv ! unat h) = len"
    by (rule avail_view_segment[OF R(6) b(1)]) (simp add: b(2,3))
  have e: "e = Some (Take buf h len)" "pc' = V_Idle" "d = ?dev"
    using nx pc len by (auto simp: same split: bind_splits)
  from sim_take[OF R(1) b(1)] b(2,3) obtain cd a' where s:
      "virtqueue_get_available_buffer (s_dev c) = Some (buf, Some (h, len), cd)"
      "abs_step (vq_shm_io (s_dev c)) a (Take buf h len) a'"
      "sim (c\<lparr>s_drv := share cd (s_drv c), s_dev := cd, s_held := h # s_held c\<rparr>) a'"
    by auto
  let ?c' = "c\<lparr>s_drv := share cd (s_drv c), s_dev := cd, s_held := h # s_held c\<rparr>"
  have step: "vq_step c (Take buf h len) ?c'"
    using s(1) by (rule vq_step.take)
  have cd: "cd = s_dev c\<lparr>vq_available_idx := vq_available_idx (s_dev c) + 1\<rparr>"
    using s(1) by (auto simp: virtqueue_get_available_buffer_def Let_def split: if_splits bind_splits)
  from s(2) b(1) have a': "a' = a\<lparr>q_pending := bs, q_held := b # q_held a\<rparr>"
    by (cases rule: abs_step.cases) simp
  have own: "drv_own (share cd (s_drv c)) = drv_own (s_drv c)"
    using sim_same_ring[OF R(1)] by (intro own_share) (simp_all add: same_ring_def cd)
  have "fsim (dev_moved f e pc' d) ?c' a'"
  proof (rule fsim_dev[OF f nx s(3), of "[]"])
    show "avail_view ?drv (s_dev ?c') a'"
      using avail_view_first(4)[OF R(6) b(1) R(3)] by (simp add: a' cd)
    show "used_view d (s_drv ?c') a'"
      using R(7) by (simp add: used_view_def e(3) a')
  qed (use own e b(4) a' cd in \<open>simp_all add: held_after_def\<close>)
  then show ?thesis
    using step s(2) e(1) by blast
qed


subsection \<open>Giving a buffer back\<close>

text \<open>What the driver may read of the used ring does not change before \<^verbatim>\<open>used->idx\<close> does.\<close>

lemma used_view_write:
  assumes view: "used_view vq (s_drv c) a" and sim: "sim c a" and wf: "vq_wf vq"
    and n: "vq_nentries vq = vq_nentries (s_drv c)" and held: "q_held a \<noteq> []"
    and u: "vq_nentries vq' = vq_nentries vq" "u_idx (vq_used vq') = u_idx (vq_used vq)"
      "u_ring (vq_used vq') = (u_ring (vq_used vq))[unat (u_idx (vq_used vq) AND (vq_nentries vq - 1)) := e]"
  shows "used_view vq' (s_drv c) a"
proof -
  note ix = vq_wf_index[OF wf]
  have room: "length (map used_elem (q_done a)) < unat (vq_nentries vq)"
  proof (rule sim_free[OF sim])
    fix fs :: "u16 list"
    assume "length fs + length (q_pending a) + length (q_held a) + length (q_done a) \<le> unat (vq_nentries (s_drv c))"
    moreover have "0 < length (q_held a)" using held by simp
    ultimately show ?thesis unfolding n length_map by linarith
  qed
  have "in_flight (unat (vq_nentries vq)) (u_idx (vq_used vq)) (\<lambda>j. u_ring (vq_used vq') ! j)
      (vq_used_cons_idx (s_drv c)) (map used_elem (q_done a))"
  proof (rule in_flight_beyond[OF _ ix(3) room])
    show "in_flight (unat (vq_nentries vq)) (u_idx (vq_used vq)) (\<lambda>j. u_ring (vq_used vq) ! j)
        (vq_used_cons_idx (s_drv c)) (map used_elem (q_done a))"
      using view by (simp only: used_view_def)
    show "u_ring (vq_used vq') ! j = u_ring (vq_used vq) ! j"
      if "j \<noteq> unat (u_idx (vq_used vq)) mod unat (vq_nentries vq)" for j
      using that by (simp add: u(3) ix(1))
  qed
  then show ?thesis
    by (simp add: used_view_def u(1,2))
qed

lemma sim_held_index:
  assumes "sim c a" "h \<in> b_head ` set (q_held a)"
  shows "unat h < unat (vq_nentries (s_drv c))"
proof -
  from assms(2) obtain b where b: "b \<in> set (q_held a)" "h = b_head b" by blast
  have "b \<in> set (bufs a)" using b(1) by (simp add: bufs_def)
  from sim_apart(3)[OF assms(1) this] show ?thesis by (simp add: b(2))
qed

lemma dev_putting:
  assumes f: "fsim f c a" and pc: "f_dev f = Put_Id h len \<or> f_dev f = Put_Len h len i"
    and nx: "dev_next (f_dev f) (s_dev (f_sys f)) = Some (e, pc', d)"
  shows "e = None \<and> fsim (dev_moved f e pc' d) c a"
proof (rule fsimD[OF f])
  let ?drv = "s_drv (f_sys f)" and ?dev = "s_dev (f_sys f)" and ?D = "dev_own (s_dev c)"
  assume R: "sim c a" "same_ring (f_sys f)" "vq_wf ?dev" "dev_at (f_dev f) (dev_own ?dev) ?D a"
    "used_view ?dev (s_drv c) a" "vq_nentries ?drv = vq_nentries (s_drv c)"
  have n: "vq_nentries ?dev = vq_nentries (s_drv c)"
    using R(2,6) by (simp add: same_ring_def)
  have n': "vq_nentries (s_dev c) = vq_nentries (s_drv c)"
    using sim_same_ring[OF R(1)] by (simp add: same_ring_def)
  have held: "h \<in> b_head ` set (q_held a)"
    using R(4) pc by auto
  then have ne: "q_held a \<noteq> []" by auto
  have lt: "\<not> vq_nentries ?dev < h"
    using sim_held_index[OF R(1) held] n by (simp add: word_less_nat_alt)
  have res: "e = None \<and> dev_at pc' (dev_own d) ?D a \<and> u_idx (vq_used d) = u_idx (vq_used ?dev) \<and>
      (\<exists>x. u_ring (vq_used d) =
        (u_ring (vq_used ?dev))[unat (u_idx (vq_used ?dev) AND (vq_nentries ?dev - 1)) := x])"
    using pc
  proof (elim disjE)
    assume pc: "f_dev f = Put_Id h len"
    let ?u = "vq_used ?dev"
    let ?i = "u_idx ?u AND (vq_nentries ?dev - 1)"
    have own: "dev_own ?dev = ?D" using R(4) pc by simp
    have d: "e = None" "pc' = Put_Len h len ?i" "d = upd_used (?u\<lparr>u_ring := (u_ring ?u)[unat ?i :=
        (u_ring ?u ! unat ?i)\<lparr>e_id := ucast h\<rparr>]\<rparr>) ?dev"
      using nx pc lt by (auto simp: Let_def split: bind_splits)
    have "dev_own d = upd_used (?u\<lparr>u_ring := (u_ring ?u)[unat ?i :=
        (u_ring ?u ! unat ?i)\<lparr>e_id := ucast h\<rparr>]\<rparr>) ?D"
      unfolding d(3) dev_own_updates(1)[symmetric] own ..
    then show ?thesis
      using held d by (auto simp: dev_own_eqD[OF own])
  next
    assume pc: "f_dev f = Put_Len h len i"
    let ?U = "vq_used (s_dev c)"
    from R(4) pc have i: "i = u_idx ?U AND (vq_nentries (s_dev c) - 1)"
      and own: "dev_own ?dev = dev_own (upd_used (?U\<lparr>u_ring := (u_ring ?U)[unat i :=
        (u_ring ?U ! unat i)\<lparr>e_id := ucast h\<rparr>]\<rparr>) (s_dev c))"
      by simp_all
    note own' = dev_own_eqD[OF own]
    let ?u = "vq_used ?dev"
    have u: "?u = ?U\<lparr>u_ring := (u_ring ?U)[unat i := (u_ring ?U ! unat i)\<lparr>e_id := ucast h\<rparr>]\<rparr>"
      using own'(1) by simp
    have d: "e = None" "pc' = Put_Idx h len" "unat i < length (u_ring ?u)"
        "d = upd_used (?u\<lparr>u_ring := (u_ring ?u)[unat i := (u_ring ?u ! unat i)\<lparr>e_len := len\<rparr>]\<rparr>) ?dev"
      using nx pc by (auto simp: Let_def split: bind_splits)
    have w: "?u\<lparr>u_ring := (u_ring ?u)[unat i := (u_ring ?u ! unat i)\<lparr>e_len := len\<rparr>]\<rparr> =
        ?U\<lparr>u_ring := (u_ring ?U)[unat i := \<lparr>e_id = ucast h, e_len = len\<rparr>]\<rparr>"
      using d(3) by (simp add: u)
    have "dev_own d = upd_used (?U\<lparr>u_ring := (u_ring ?U)[unat i := \<lparr>e_id = ucast h, e_len = len\<rparr>]\<rparr>) ?D"
      unfolding d(4) w dev_own_updates(1)[symmetric] own by (simp add: dev_own_def)
    moreover have "u_idx ?u = u_idx ?U" "i = u_idx ?u AND (vq_nentries ?dev - 1)"
      using i n n' by (simp_all add: u)
    ultimately show ?thesis
      using held d(1,2,4) i by auto
  qed
  then obtain x where x: "u_idx (vq_used d) = u_idx (vq_used ?dev)" "u_ring (vq_used d) =
      (u_ring (vq_used ?dev))[unat (u_idx (vq_used ?dev) AND (vq_nentries ?dev - 1)) := x]"
    by blast
  have "used_view d (s_drv c) a"
    by (rule used_view_write[OF R(5,1,3) n ne dev_next_keeps(3)[OF nx] x])
  then have "fsim (dev_moved f None pc' d) c a"
    using nx res by (intro fsim_dev_quiet[OF f]) simp_all
  then show ?thesis using res by blast
qed

lemma dev_put:
  assumes f: "fsim f c a" and pc: "f_dev f = Put_Idx h len"
    and nx: "dev_next (f_dev f) (s_dev (f_sys f)) = Some (e, pc', d)"
  shows "\<exists>ev c' a'. e = Some ev \<and> vq_step c ev c' \<and> abs_step (vq_shm_io (s_dev c)) a ev a' \<and>
    fsim (dev_moved f e pc' d) c' a'"
proof (rule fsimD[OF f])
  let ?drv = "s_drv (f_sys f)" and ?dev = "s_dev (f_sys f)" and ?U = "vq_used (s_dev c)"
  assume R: "sim c a" "same_ring (f_sys f)" "dev_at (f_dev f) (dev_own ?dev) (dev_own (s_dev c)) a"
    "avail_view ?drv (s_dev c) a" "vq_nentries ?drv = vq_nentries (s_drv c)"
  let ?i = "u_idx ?U AND (vq_nentries (s_dev c) - 1)"
  from R(3) pc have held: "h \<in> b_head ` set (q_held a)"
    and own: "dev_own ?dev = dev_own (upd_used (?U\<lparr>u_ring := (u_ring ?U)[unat ?i :=
      \<lparr>e_id = ucast h, e_len = len\<rparr>]\<rparr>) (s_dev c))"
    by simp_all
  from held have "\<exists>b \<in> set (q_held a). b_head b = h" by auto
  from split_list_first_prop[OF this] obtain bs1 b bs2 where
      b: "q_held a = bs1 @ b # bs2" "b_head b = h" "\<forall>y \<in> set bs1. b_head y \<noteq> h"
    by auto
  then have "b_head b \<notin> b_head ` set bs1" by auto
  from sim_complete[OF R(1) b(1) this, of len] b(2) obtain cd a' where s:
      "virtqueue_add_consumed_buffer (s_dev c) h len = Some (VQUEUE_SUCCESS, cd)"
      "abs_step (vq_shm_io (s_dev c)) a (Complete h len) a'"
      "sim (c\<lparr>s_drv := share cd (s_drv c), s_dev := cd, s_held := remove1 h (s_held c)\<rparr>) a'"
    by auto
  let ?c' = "c\<lparr>s_drv := share cd (s_drv c), s_dev := cd, s_held := remove1 h (s_held c)\<rparr>"
  have "h \<in> set (s_held c)"
    using held by (simp add: sim_held[OF R(1)])
  then have step: "vq_step c (Complete h len) ?c'"
    using s(1) by (rule vq_step.complete)
  have cd: "cd = upd_used (?U\<lparr>u_ring := (u_ring ?U)[unat ?i := \<lparr>e_id = ucast h, e_len = len\<rparr>],
      u_idx := u_idx ?U + 1\<rparr>) (s_dev c)"
    using s(1) by (auto simp: virtqueue_add_consumed_buffer_def Let_def array_set_Some VQUEUE_SUCCESS_def
        ERROR_VRING_NO_BUFF_def VQ_ERROR_BASE_def split: if_splits bind_splits)
  have u: "vq_used ?dev = ?U\<lparr>u_ring := (u_ring ?U)[unat ?i := \<lparr>e_id = ucast h, e_len = len\<rparr>]\<rparr>"
    using dev_own_eqD(1)[OF own] by simp
  have e: "e = Some (Complete h len)" "pc' = V_Idle"
      "d = upd_used ((vq_used ?dev)\<lparr>u_idx := u_idx (vq_used ?dev) + 1\<rparr>) ?dev"
    using nx pc by (simp_all add: Let_def)
  have dd: "dev_own d = dev_own cd"
    unfolding e(3) dev_own_updates(1)[symmetric] own u cd by (simp add: dev_own_def)
  have a': "q_free a' = q_free a \<and> q_pending a' = q_pending a \<and> (\<exists>ds. q_done a' = q_done a @ ds)"
    using s(2) by (cases rule: abs_step.cases) simp
  then obtain ds where ds: "q_done a' = q_done a @ ds" by blast
  have sr: "vq_desc (s_dev c) = vq_desc (s_drv c)" "vq_avail (s_dev c) = vq_avail (s_drv c)"
      "vq_nentries (s_dev c) = vq_nentries (s_drv c)"
    using sim_same_ring[OF R(1)] by (simp_all add: same_ring_def)
  have own': "drv_own (share cd (s_drv c)) = drv_own (s_drv c)"
    by (intro own_share) (simp_all add: sr cd)
  have "fsim (dev_moved f e pc' d) ?c' a'"
  proof (rule fsim_dev[OF f nx s(3) _ _ _ _ a'[THEN conjunct1] ds])
    show "avail_view ?drv (s_dev ?c') a'"
      using R(4) a' by (simp add: avail_view_def cd)
    show "used_view d (s_drv ?c') a'"
      using dev_own_eqD(1,2)[OF dd] by (intro sim_used_view[OF s(3)]) (simp_all add: cd sr)
  qed (use own' e dd cd in \<open>simp_all add: held_after_def\<close>)
  then show ?thesis
    using step s(2) e(1) by blast
qed

lemma dev_step_sim:
  assumes f: "fsim f c a" and nx: "dev_next (f_dev f) (s_dev (f_sys f)) = Some (e, pc', d)"
  shows "fine_matches e (dev_moved f e pc' d) c a"
proof (cases "f_dev f")
  case (Take_Addr h)
  then show ?thesis using fine_matchesI(1)[OF dev_taking[OF f _ nx, of h]] by simp
next
  case (Take_Len buf h)
  from fine_matchesI(2)[OF dev_taken[OF f Take_Len nx]] show ?thesis .
next
  case (Put_Id h len)
  then show ?thesis using fine_matchesI(1)[OF dev_putting[OF f _ nx, of h len]] by simp
next
  case (Put_Len h len i)
  then show ?thesis using fine_matchesI(1)[OF dev_putting[OF f _ nx, of h len i]] by simp
next
  case (Put_Idx h len)
  from fine_matchesI(2)[OF dev_put[OF f Put_Idx nx]] show ?thesis .
qed (use fine_matchesI(1)[OF dev_taking[OF f _ nx]] nx in simp_all)

end
