(* ===== verification/Virtqueue_Concurrent.thy ===== *)
theory Virtqueue_Concurrent
  imports Virtqueue_Interleaving
begin

text \<open>
  Runs of a driver and a device whose accesses to the ring interleave: each has the events of
  a run of whole operations, and each side, left alone, finishes what it has begun.
\<close>

section \<open>Runs\<close>

lemma fsim_start:
  assumes "sim s a"
  shows "fsim (fine_start s) s a"
  using sim_avail_view[OF assms refl] sim_used_view[OF assms] sim_wf[OF assms] sim_same_ring[OF assms]
    assms
  by (simp add: fsim_def fine_start_def call_ok_def same_ring_def)

lemma fsim_drv_start:
  assumes f: "fsim f c a" and pc: "f_drv f = D_Idle" "drv_call (f_sys f) pc"
  shows "fsim (f\<lparr>f_drv := pc\<rparr>) c a"
proof (rule fsimD[OF f])
  let ?drv = "s_drv (f_sys f)"
  assume R: "sim c a" "same_ring (f_sys f)" "vq_wf ?drv" "vq_wf (s_dev (f_sys f))"
    "vq_nentries ?drv = vq_nentries (s_drv c)" "vq_shm_io (s_dev (f_sys f)) = vq_shm_io (s_dev c)"
    "s_held (f_sys f) = s_held c" "drv_at (f_drv f) (drv_own ?drv) (drv_own (s_drv c)) a"
    "dev_at (f_dev f) (dev_own (s_dev (f_sys f))) (dev_own (s_dev c)) a"
    "avail_view ?drv (s_dev c) a" "used_view (s_dev (f_sys f)) (s_drv c) a"
  have own: "drv_own ?drv = drv_own (s_drv c)"
    using R(8) pc(1) by simp
  have "drv_at pc (drv_own ?drv) (drv_own (s_drv c)) a \<and> call_ok pc c"
  proof (cases pc)
    case (Add_Start q)
    have ok: "submit_ok c (ac_sg q) (ac_readable q) (ac_writable q)"
      using pc(2) Add_Start submit_ok_cong[OF drv_own_eqD(6)[OF own] R(6)] by simp
    from sim_submit[OF R(1) ok, of "ac_cookie q"] obtain cd where cd:
        "virtqueue_add_buffer (s_drv c) (ac_sg q) (ac_readable q) (ac_writable q) (ac_cookie q) =
           Some (VQUEUE_SUCCESS, cd)"
      by blast
    then have "adding q (Add_Start q) (drv_own ?drv) (drv_own (s_drv c))"
      unfolding adding_def own
      by (intro exI[of _ "drv_own cd"] conjI add_alone[where rc = VQUEUE_SUCCESS]) (simp_all add: add_buffer_own)
    moreover have "filling ?drv a q (vq_desc_head_idx ?drv) 0"
    proof (rule sim_free[OF R(1)])
      fix fs
      assume fs: "free_list (vq_desc (s_drv c)) (vq_desc_head_idx (s_drv c)) fs" "distinct fs"
        "set fs = q_free a" "unat (vq_free_cnt (s_drv c)) = length fs"
      have "vq_desc_head_idx ?drv = vq_desc_head_idx (s_drv c)"
        using arg_cong[OF own, of vq_desc_head_idx] by simp
      then show ?thesis
        unfolding filling_def using fs ok drv_own_eqD(1)[OF own]
        by (intro conjI exI[of _ fs]) (simp_all add: submit_ok_def)
    qed
    ultimately show ?thesis
      using ok Add_Start by (simp add: call_ok_def)
  qed (use pc(2) own in \<open>simp_all add: call_ok_def\<close>)
  then show ?thesis
    using R by (simp add: fsim_def)
qed

lemma fsim_dev_start:
  assumes f: "fsim f c a" and pc: "f_dev f = V_Idle" "dev_call (f_sys f) pc"
  shows "fsim (f\<lparr>f_dev := pc\<rparr>) c a"
proof (rule fsimD[OF f])
  let ?dev = "s_dev (f_sys f)"
  assume R: "sim c a" "same_ring (f_sys f)" "vq_wf (s_drv (f_sys f))" "vq_wf ?dev"
    "vq_nentries (s_drv (f_sys f)) = vq_nentries (s_drv c)" "vq_shm_io ?dev = vq_shm_io (s_dev c)"
    "s_held (f_sys f) = s_held c" "drv_at (f_drv f) (drv_own (s_drv (f_sys f))) (drv_own (s_drv c)) a"
    "call_ok (f_drv f) c" "dev_at (f_dev f) (dev_own ?dev) (dev_own (s_dev c)) a"
    "avail_view (s_drv (f_sys f)) (s_dev c) a" "used_view ?dev (s_drv c) a"
  have own: "dev_own ?dev = dev_own (s_dev c)"
    using R(10) pc(1) by simp
  have "dev_at pc (dev_own ?dev) (dev_own (s_dev c)) a"
    using pc(2) own sim_held[OF R(1)] by (cases pc) (simp_all add: R(7))
  then show ?thesis
    using R by (simp add: fsim_def)
qed

lemma fine_step_sim:
  assumes "fine_step f e f'" "fsim f c a"
  shows "fine_matches e f' c a"
  using assms
proof (cases rule: fine_step.cases)
  case (drv_start pc)
  then show ?thesis using fsim_drv_start[OF assms(2)] by (simp add: fine_matches_def)
next
  case (dev_start pc)
  then show ?thesis using fsim_dev_start[OF assms(2)] by (simp add: fine_matches_def)
next
  case (drv_move pc d)
  then show ?thesis using drv_step_sim[OF assms(2)] by (simp add: drv_moved_def)
next
  case (dev_move pc d)
  then show ?thesis using dev_step_sim[OF assms(2)] by (simp add: dev_moved_def)
qed

lemma fine_run_sim:
  assumes "fine_run f0 es f" "fsim f0 c0 a0"
  shows "\<exists>c a. vq_run c0 es c \<and> abs_run (vq_shm_io (s_dev c0)) a0 es a \<and> fsim f c a"
  using assms
proof (induction rule: fine_run.induct)
  case (fine_Nil f)
  then show ?case using run_Nil a_Nil by blast
next
  case (fine_snoc f es f' e f'')
  then obtain c a where c: "vq_run c0 es c" "abs_run (vq_shm_io (s_dev c0)) a0 es a" "fsim f' c a"
    by blast
  note m = fine_step_sim[OF fine_snoc.hyps(2) c(3)]
  show ?case
  proof (cases e)
    case None
    then show ?thesis using m c by (auto simp: fine_matches_def)
  next
    case (Some ev)
    then obtain c' a' where "vq_step c ev c'" "abs_step (vq_shm_io (s_dev c)) a ev a'" "fsim f'' c' a'"
      using m by (auto simp: fine_matches_def)
    then show ?thesis
      using run_snoc[OF c(1)] a_snoc[OF c(2)] vq_run_io[OF c(1)] Some by fastforce
  qed
qed

text \<open>With both sides between operations, the fine state is the state of whole operations.\<close>

lemma fsim_idle:
  assumes "fsim f c a" "f_drv f = D_Idle" "f_dev f = V_Idle"
  shows "f_sys f = c"
proof (rule fsimD[OF assms(1)])
  let ?drv = "s_drv (f_sys f)" and ?dev = "s_dev (f_sys f)"
  assume R: "sim c a" "same_ring (f_sys f)" "s_held (f_sys f) = s_held c"
    "drv_at (f_drv f) (drv_own ?drv) (drv_own (s_drv c)) a"
    "dev_at (f_dev f) (dev_own ?dev) (dev_own (s_dev c)) a"
  have own: "drv_own ?drv = drv_own (s_drv c)" "dev_own ?dev = dev_own (s_dev c)"
    using R(4,5) assms(2,3) by simp_all
  have sr: "vq_desc (s_dev c) = vq_desc (s_drv c)" "vq_avail (s_dev c) = vq_avail (s_drv c)"
      "vq_used (s_dev c) = vq_used (s_drv c)"
      "vq_desc ?dev = vq_desc ?drv" "vq_avail ?dev = vq_avail ?drv" "vq_used ?dev = vq_used ?drv"
    using sim_same_ring[OF R(1)] R(2) by (simp_all add: same_ring_def)
  have "vq_used ?drv = vq_used (s_drv c)"
    using dev_own_eqD(1)[OF own(2)] sr by metis
  then have "?drv = s_drv c"
    by (rule drv_own_full[OF own(1)])
  moreover have "?dev = s_dev c"
    using drv_own_eqD(1,2)[OF own(1)] sr by (intro dev_own_full[OF own(2)]) metis+
  ultimately show ?thesis
    using R(3) by (intro vq_sys.equality) simp_all
qed

section \<open>Each side finishes alone\<close>

lemma drv_alone_unown:
  assumes "drv_alone pc X es Y" "X = drv_own vq" "own_pc pc"
  shows "\<exists>d. drv_alone pc vq es d"
  using assms
proof (induction arbitrary: vq rule: drv_alone.induct)
  case (da_step pc X e pc' X' es d)
  then obtain vq' where vq': "drv_next pc vq = Some (e, pc', vq')" "X' = drv_own vq'"
    by (auto simp: drv_next_own map_next_def)
  from da_step.IH[OF vq'(2) own_pc_next[OF vq'(1) da_step.prems(2)]] show ?case
    using vq'(1) by (blast intro: drv_alone.da_step)
qed (blast intro: da_idle)

lemma drv_moved_simps [simp]:
  "s_drv (f_sys (drv_moved f pc d)) = d" "f_drv (drv_moved f pc d) = pc"
  by (simp_all add: drv_moved_def)

lemma dev_moved_simps [simp]:
  "s_dev (f_sys (dev_moved f e pc d)) = d" "f_dev (dev_moved f e pc d) = pc"
  by (simp_all add: dev_moved_def)

lemma fsim_used_first:
  assumes "fsim f c a" "q_done a \<noteq> []"
  shows "unat (vq_used_cons_idx (s_drv c) AND (vq_nentries (s_drv (f_sys f)) - 1)) <
    length (u_ring (vq_used (s_drv (f_sys f))))"
proof (rule fsimD[OF assms(1)])
  assume R: "same_ring (f_sys f)" "vq_wf (s_dev (f_sys f))" "used_view (s_dev (f_sys f)) (s_drv c) a"
  obtain b len ds where "q_done a = (b, len) # ds"
    using assms(2) by (cases "q_done a") auto
  from used_view_first(3)[OF R(3) this R(2)] show ?thesis
    using R(1) by (simp add: same_ring_def)
qed

text \<open>A reap that has found an entry: the entry is there, and then the chain is the driver's own.\<close>

lemma freeing_finishes:
  assumes "freeing pc len (drv_own vq) C a" "own_pc pc"
  shows "\<exists>es d. drv_alone pc vq es d"
  using assms drv_alone_unown[OF _ refl assms(2)] unfolding freeing_def by blast

lemma get_finishes:
  assumes f: "fsim f c a" and pc: "f_drv f = Get_Len i h \<or> f_drv f = Get_Id \<or> f_drv f = Get_Check"
  shows "\<exists>es d. drv_alone (f_drv f) (s_drv (f_sys f)) es d"
proof -
  have at: "drv_at (f_drv g) (drv_own (s_drv (f_sys g))) (drv_own (s_drv c)) a" if "fsim g c a" for g
    using that by (elim fsimD)
  have len: "\<exists>es d. drv_alone (f_drv g) (s_drv (f_sys g)) es d"
    if g: "fsim g c a" and pg: "f_drv g = Get_Len i h" for g i h
  proof -
    let ?drv = "s_drv (f_sys g)"
    have n: "vq_nentries ?drv = vq_nentries (s_drv c)"
      using g by (elim fsimD)
    have "unat i < length (u_ring (vq_used ?drv))"
      using at[OF g] pg fsim_used_first[OF g] by (auto simp: n)
    then have nx: "drv_next (f_drv g) ?drv = Some (None, Free_Start (e_len (u_ring (vq_used ?drv) ! unat i)) h, ?drv)"
      by (simp add: pg)
    have "fsim (drv_moved g (Free_Start (e_len (u_ring (vq_used ?drv) ! unat i)) h) ?drv) c a"
      using drv_getting[OF g _ nx, of i h] pg by blast
    from at[OF this] obtain es d where
        "drv_alone (Free_Start (e_len (u_ring (vq_used ?drv) ! unat i)) h) ?drv es d"
      using freeing_finishes by fastforce
    from drv_alone_quiet[OF nx this] show ?thesis by blast
  qed
  have gid: "\<exists>es d. drv_alone (f_drv g) (s_drv (f_sys g)) es d" if g: "fsim g c a" and pg: "f_drv g = Get_Id" for g
  proof -
    let ?drv = "s_drv (f_sys g)"
    have "vq_used_cons_idx ?drv = vq_used_cons_idx (s_drv c)"
      using at[OF g] pg by (intro drv_own_eqD(4)) simp
    then have "unat (vq_used_cons_idx ?drv AND (vq_nentries ?drv - 1)) < length (u_ring (vq_used ?drv))"
      using at[OF g] pg fsim_used_first[OF g] by simp
    then obtain h' i' d where nx: "drv_next (f_drv g) ?drv = Some (None, Get_Len i' h', d)"
      by (simp add: pg Let_def)
    have "fsim (drv_moved g (Get_Len i' h') d) c a"
      using drv_getting[OF g _ nx] pg by blast
    from len[OF this] drv_alone_quiet[OF nx] show ?thesis by fastforce
  qed
  from pc show ?thesis
  proof (elim disjE)
    assume pc: "f_drv f = Get_Check"
    show ?thesis
    proof (cases "vq_used_cons_idx (s_drv (f_sys f)) = u_idx (vq_used (s_drv (f_sys f)))")
      case True
      then have "drv_next (f_drv f) (s_drv (f_sys f)) = Some (None, D_Idle, s_drv (f_sys f))"
        by (simp add: pc)
      then show ?thesis using drv_alone_quiet da_idle by blast
    next
      case False
      then have nx: "drv_next (f_drv f) (s_drv (f_sys f)) = Some (None, Get_Id, s_drv (f_sys f))"
        by (simp add: pc)
      have "fsim (drv_moved f Get_Id (s_drv (f_sys f))) c a"
        using drv_getting[OF f _ nx] pc by blast
      from gid[OF this] drv_alone_quiet[OF nx] show ?thesis by fastforce
    qed
  qed (use len[OF f] gid[OF f] in blast)+
qed

lemma drv_finishes:
  assumes f: "fsim f c a"
  shows "\<exists>es d. drv_alone (f_drv f) (s_drv (f_sys f)) es d"
proof (rule fsimD[OF f])
  let ?drv = "s_drv (f_sys f)" and ?C = "drv_own (s_drv c)"
  assume R: "sim c a" "drv_at (f_drv f) (drv_own ?drv) ?C a"
  have fl: "vq_flags (s_drv c) = 0"
    using R(1) by (elim simD)
  have used: "\<exists>es d. drv_alone Enable_Used vq es d" for vq
  proof -
    have "drv_next Enable_Used vq = Some (Some (Enable_Cb (if 0 < virtqueue_nused vq then 1 else 0)), D_Idle, vq)"
      by simp
    from drv_alone_event[OF this da_idle] show ?thesis by blast
  qed
  have clear: "\<exists>es d. drv_alone Kick_Clear vq es d" for vq
    by (rule exI, rule exI, rule drv_alone_quiet[OF trans[OF drv_next.simps(23) kick_next.simps(2)]], rule da_idle)
  have free: ?thesis if "freeing (f_drv f) len (drv_own ?drv) ?C a" "own_pc (f_drv f)" for len
    by (rule freeing_finishes[OF that])
  have queued: "\<exists>es d. drv_alone Add_Queued vq es d" for vq
    by (rule exI, rule exI, rule drv_alone_quiet[OF trans[OF drv_next.simps(10) publish_next.simps(3)]], rule da_idle)
  have flags: "\<exists>es d. drv_alone pc ?drv es d" if "pc \<in> {Enable_Flag, Disable_Flag}" "drv_own ?drv = ?C" for pc
  proof -
    have "vq_flags ?drv = 0"
      using drv_own_eqD(5)[OF that(2)] fl by simp
    note cb = cb_flagged[OF this]
    then show ?thesis
      using that(1) cb_alone(1) cb_alone(2)[OF cb(1)] by blast
  qed
  have add: ?thesis if q: "add_of (f_drv f) = Some q" for q
  proof -
    have "adding q (f_drv f) (drv_own ?drv) ?C"
      using R(2) q by (simp add: drv_at_add)
    then obtain X where "drv_alone (f_drv f) (drv_own ?drv) [ac_event q] X"
      by (auto simp: adding_def)
    from drv_alone_unown[OF this refl add_of_own[OF q]] show ?thesis by blast
  qed
  show ?thesis
  proof (cases "f_drv f")
    case Kick_Clear
    then show ?thesis using clear by simp
  next
    case Kick_Check
    have "\<exists>d w. virtqueue_kick (\<lambda>_ _ n. n) ?drv (0 :: nat) = (d, w)"
      by (rule surj_pair)
    then show ?thesis using kick_alone Kick_Check by metis
  next
    case D_Idle
    then show ?thesis using da_idle by metis
  next
    case (Get_Len i h)
    then show ?thesis using get_finishes[OF f, of i h] by simp
  next
    case Get_Id
    then show ?thesis using get_finishes[OF f] by simp
  next
    case Get_Check
    then show ?thesis using get_finishes[OF f] by simp
  next
    case (Free_Start len h)
    then show ?thesis using free[of len] R(2) by simp
  next
    case (Free_Flags len h idx)
    then show ?thesis using free[of len] R(2) by simp
  next
    case (Free_Next len h idx)
    then show ?thesis using free[of len] R(2) by simp
  next
    case (Free_Link len h idx)
    then show ?thesis using free[of len] R(2) by simp
  next
    case (Get_Cookie len h)
    then show ?thesis using free[of len] R(2) by simp
  qed (use R(2) add used queued flags in simp_all)
qed

lemma fsim_avail_first:
  assumes "fsim f c a" "q_pending a \<noteq> []"
  shows "unat (vq_available_idx (s_dev c) AND (vq_nentries (s_dev (f_sys f)) - 1)) <
    length (a_ring (vq_avail (s_dev (f_sys f))))"
proof (rule fsimD[OF assms(1)])
  assume R: "same_ring (f_sys f)" "vq_wf (s_drv (f_sys f))" "avail_view (s_drv (f_sys f)) (s_dev c) a"
  obtain b bs where "q_pending a = b # bs"
    using assms(2) by (cases "q_pending a") auto
  from avail_view_first(3)[OF R(3) this R(2)] show ?thesis
    using R(1) by (simp add: same_ring_def)
qed

lemma fsim_segment:
  assumes "fsim f c a" "q_pending a = b # bs"
  obtains adr len wr sgs where "b_segs b = (adr, len, wr) # sgs"
    "metal_io_phys_to_virt (vq_shm_io (s_dev (f_sys f)))
       (d_addr (vq_desc (s_dev (f_sys f)) ! unat (b_head b))) = Some adr"
    "unat (b_head b) < length (vq_desc (s_dev (f_sys f)))"
proof (rule fsimD[OF assms(1)])
  assume R: "sim c a" "same_ring (f_sys f)" "vq_wf (s_dev (f_sys f))" "avail_view (s_drv (f_sys f)) (s_dev c) a"
    "vq_shm_io (s_dev (f_sys f)) = vq_shm_io (s_dev c)"
    "vq_nentries (s_drv (f_sys f)) = vq_nentries (s_drv c)"
  have "b \<in> set (bufs a)" by (simp add: bufs_def assms(2))
  note apart = sim_apart(2,3)[OF R(1) this]
  have "unat (b_head b) < length (vq_desc (s_dev (f_sys f)))"
    using R(2,3,6) apart(2) by (simp add: same_ring_def vq_wf_def)
  moreover obtain adr len wr sgs where "b_segs b = (adr, len, wr) # sgs"
      "metal_io_phys_to_virt (vq_shm_io (s_dev c)) (d_addr (vq_desc (s_drv (f_sys f)) ! unat (b_head b))) = Some adr"
    by (rule avail_view_segment[OF R(4) assms(2) apart(1)])
  ultimately show ?thesis
    using R(2,5) by (intro that[of adr len wr sgs]) (simp_all add: same_ring_def)
qed

lemma take_finishes:
  assumes f: "fsim f c a" and pc: "f_dev f = Take_Len buf h \<or> f_dev f = Take_Addr h \<or> f_dev f = Take_Slot \<or> f_dev f = Take_Check"
  shows "\<exists>es d. dev_alone (f_dev f) (s_dev (f_sys f)) es d"
proof -
  have at: "dev_at (f_dev g) (dev_own (s_dev (f_sys g))) (dev_own (s_dev c)) a" if "fsim g c a" for g
    using that by (elim fsimD)
  have len: "\<exists>es d. dev_alone (f_dev g) (s_dev (f_sys g)) es d"
    if g: "fsim g c a" and pg: "f_dev g = Take_Len buf h" for g buf h
  proof -
    obtain b bs where b: "q_pending a = b # bs" "h = b_head b"
      using at[OF g] pg by auto
    have "unat h < length (vq_desc (s_dev (f_sys g)))"
      unfolding b(2) by (rule fsim_segment[OF g b(1)])
    then show ?thesis
      using dev_alone_event[of "Take_Len buf h" "s_dev (f_sys g)" _ V_Idle] pg by fastforce
  qed
  have addr: "\<exists>es d. dev_alone (f_dev g) (s_dev (f_sys g)) es d"
    if g: "fsim g c a" and pg: "f_dev g = Take_Addr h" for g h
  proof -
    let ?dev = "s_dev (f_sys g)"
    obtain b bs where b: "q_pending a = b # bs" "h = b_head b"
      using at[OF g] pg by auto
    obtain adr where adr: "metal_io_phys_to_virt (vq_shm_io ?dev) (d_addr (vq_desc ?dev ! unat h)) = Some adr"
        "unat h < length (vq_desc ?dev)"
      unfolding b(2) by (rule fsim_segment[OF g b(1)])
    then have nx: "dev_next (f_dev g) ?dev = Some (None, Take_Len adr h, ?dev)"
      by (simp add: pg)
    have "fsim (dev_moved g None (Take_Len adr h) ?dev) c a"
      using dev_taking[OF g _ nx, of h] pg by blast
    from len[OF this] dev_alone_quiet[OF nx] show ?thesis by fastforce
  qed
  have slot: "\<exists>es d. dev_alone (f_dev g) (s_dev (f_sys g)) es d"
    if g: "fsim g c a" and pg: "f_dev g = Take_Slot" for g
  proof -
    let ?dev = "s_dev (f_sys g)"
    have "vq_available_idx ?dev = vq_available_idx (s_dev c)"
      using at[OF g] pg by (intro dev_own_eqD(3)) simp
    then have "unat (vq_available_idx ?dev AND (vq_nentries ?dev - 1)) < length (a_ring (vq_avail ?dev))"
      using at[OF g] pg fsim_avail_first[OF g] by simp
    then obtain h' d where nx: "dev_next (f_dev g) ?dev = Some (None, Take_Addr h', d)"
      by (simp add: pg Let_def)
    have "fsim (dev_moved g None (Take_Addr h') d) c a"
      using dev_taking[OF g _ nx] pg by blast
    from addr[OF this] dev_alone_quiet[OF nx] show ?thesis by fastforce
  qed
  from pc show ?thesis
  proof (elim disjE)
    assume pc: "f_dev f = Take_Check"
    show ?thesis
    proof (cases "vq_available_idx (s_dev (f_sys f)) = a_idx (vq_avail (s_dev (f_sys f)))")
      case True
      then have "dev_next (f_dev f) (s_dev (f_sys f)) = Some (None, V_Idle, s_dev (f_sys f))"
        by (simp add: pc)
      then show ?thesis using dev_alone_quiet va_idle by blast
    next
      case False
      then have nx: "dev_next (f_dev f) (s_dev (f_sys f)) = Some (None, Take_Slot, s_dev (f_sys f))"
        by (simp add: pc)
      have "fsim (dev_moved f None Take_Slot (s_dev (f_sys f))) c a"
        using dev_taking[OF f _ nx] pc by blast
      from slot[OF this] dev_alone_quiet[OF nx] show ?thesis by fastforce
    qed
  qed (use len[OF f] addr[OF f] slot[OF f] in blast)+
qed

lemma put_idx_alone: "\<exists>es d. dev_alone (Put_Idx h len) vq es d"
  by (intro exI) (rule dev_alone_event[OF trans[OF dev_next.simps(8) put_next.simps(3)[unfolded Let_def]]], rule va_idle)

lemma dev_finishes:
  assumes f: "fsim f c a"
  shows "\<exists>es d. dev_alone (f_dev f) (s_dev (f_sys f)) es d"
proof (rule fsimD[OF f])
  let ?dev = "s_dev (f_sys f)"
  assume R: "sim c a" "same_ring (f_sys f)" "vq_wf ?dev" "vq_nentries (s_drv (f_sys f)) = vq_nentries (s_drv c)"
    "dev_at (f_dev f) (dev_own ?dev) (dev_own (s_dev c)) a"
  have n: "vq_nentries ?dev = vq_nentries (s_drv c)" "vq_nentries (s_dev c) = vq_nentries (s_drv c)"
    using R(2,4) sim_same_ring[OF R(1)] by (simp_all add: same_ring_def)
  show ?thesis
  proof (cases "f_dev f")
    case V_Idle
    then show ?thesis using va_idle by metis
  next
    case (Take_Addr h)
    then show ?thesis using take_finishes[OF f, of _ h] by simp
  next
    case (Take_Len buf h)
    then show ?thesis using take_finishes[OF f, of buf h] by simp
  next
    case (Put_Id h len)
    then have "unat h \<le> unat (vq_nentries ?dev)"
      using sim_held_index[OF R(1), of h] R(5) n(1) by simp
    from put_alone[OF add_consumed_spec[OF R(3) this]] show ?thesis
      using Put_Id by metis
  next
    case (Put_Len h len i)
    note ix = vq_wf_index[OF R(3)]
    have "i = u_idx (vq_used (s_dev c)) AND (vq_nentries ?dev - 1)"
      using Put_Len R(5) n by simp
    then have "unat i < length (u_ring (vq_used ?dev))"
      using ix(1,2) vq_wf_ring(2)[OF R(3)] by simp
    then obtain d where "dev_next (f_dev f) ?dev = Some (None, Put_Idx h len, d)"
      by (simp add: Put_Len Let_def)
    then show ?thesis
      using dev_alone_quiet put_idx_alone by blast
  next
    case (Put_Idx h len)
    then show ?thesis using put_idx_alone by simp
  qed (use take_finishes[OF f] in simp_all)
qed


section \<open>Runs from creation\<close>

lemma created_fine_run:
  assumes "vq_sys_create dev qid name ring ring' cb nf io io' mem = Some s0"
    "ai_num_descs ring = 2 ^ k" "ai_num_descs ring' = 2 ^ k" "k \<le> 15" "fresh_mem mem (2 ^ k)"
    "fine_run (fine_start s0) es f"
  shows "\<exists>s a. vq_run s0 es s \<and> abs_run io' (abs_init (2 ^ k)) es a \<and> fsim f s a"
proof -
  have "sim s0 (abs_init (2 ^ k))" "vq_shm_io (s_dev s0) = io'"
    using sys_create_spec[OF assms(2-5), of dev qid name cb nf io io'] assms(1) by auto
  then show ?thesis using fine_run_sim[OF assms(6) fsim_start] by blast
qed

text \<open>
  One run, evaluated: the device looks while the driver is between the slot and the index of
  its first buffer, reads the descriptor while the driver fills the next one, gives the buffer
  back while that one is published, and takes the second while the driver reaps the first.
\<close>

definition fine_schedule :: "fine_choice list" where
  "fine_schedule =
     [Start_Drv (Add_Start \<lparr>ac_sg = run_sg, ac_readable = 1, ac_writable = 1, ac_cookie = 77\<rparr>)] @
     replicate 13 Drv @ [Start_Dev Take_Check, Drv, Dev, Drv,
      Start_Drv (Add_Start \<lparr>ac_sg = run_sg, ac_readable = 0, ac_writable = 1, ac_cookie = 78\<rparr>),
      Drv, Dev, Drv, Drv, Dev, Drv, Dev, Start_Dev (Put_Id 0 20), Drv, Dev, Drv, Drv, Dev, Drv, Drv, Dev, Drv,
      Start_Drv Get_Check, Drv, Start_Dev Take_Check, Drv, Dev, Drv, Drv, Dev, Drv, Drv, Dev, Drv, Drv, Dev, Drv]"

definition fine_events :: "vq_event list" where
  "fine_events = [Submit run_sg 1 1 77, Take 4112 0 64, Submit run_sg 0 1 78, Complete 0 20,
     Take 4112 2 64, Reap 77 20]"

definition fine_end :: vq_fine where
  "fine_end = snd (the (fine_exec (fine_start run_start) fine_schedule))"

lemma fine_facts:
  "fine_run (fine_start run_start) fine_events fine_end"
  "f_drv fine_end = D_Idle" "f_dev fine_end = V_Idle"
proof -
  have "case fine_exec (fine_start run_start) fine_schedule of
      None \<Rightarrow> False
    | Some (es, f) \<Rightarrow> es = fine_events \<and> f_drv f = D_Idle \<and> f_dev f = V_Idle"
    by code_simp
  then have e: "fine_exec (fine_start run_start) fine_schedule = Some (fine_events, fine_end)"
      "f_drv fine_end = D_Idle" "f_dev fine_end = V_Idle"
    by (auto simp: fine_end_def split: option.splits)
  show "fine_run (fine_start run_start) fine_events fine_end"
    by (rule fine_exec_run[OF e(1)])
  show "f_drv fine_end = D_Idle" "f_dev fine_end = V_Idle"
    using e(2,3) .
qed


section \<open>Properties\<close>

text \<open>
  C3: interleaving the accesses of the two sides refines running their operations one at a
  time. However the steps of a driver and a device over a freshly created ring interleave,
  there is a run of whole operations with the same events in the same order (a buffer is
  submitted at the increment of the available index and completed at the increment of the used
  one), hence a run of the specification of buffers; and when neither side is inside an
  operation, the two control blocks and the ring are exactly those of that run.
\<close>

theorem virtqueue_interleavings_refine:
  assumes "vq_sys_create dev qid name ring ring' cb nf io io' mem = Some s0"
    and "ai_num_descs ring = 2 ^ k" "ai_num_descs ring' = 2 ^ k" "k \<le> 15" "fresh_mem mem (2 ^ k)"
    and "fine_run (fine_start s0) es f"
  shows "\<exists>s a. vq_run s0 es s \<and> abs_run io' (abs_init (2 ^ k)) es a \<and> sim s a \<and>
    s_held (f_sys f) = s_held s \<and> (f_drv f = D_Idle \<longrightarrow> f_dev f = V_Idle \<longrightarrow> f_sys f = s)"
proof -
  obtain s a where s: "vq_run s0 es s" "abs_run io' (abs_init (2 ^ k)) es a" "fsim f s a"
    using created_fine_run[OF assms] by blast
  then have "sim s a" "s_held (f_sys f) = s_held s"
    by (auto elim: fsimD)
  then show ?thesis using s fsim_idle[OF s(3)] by blast
qed

theorem virtqueue_interleavings_refine_witness:
  "\<exists>s a. vq_run run_start fine_events s \<and> abs_run run_io (abs_init (2 ^ 2)) fine_events a \<and> sim s a \<and>
     f_sys fine_end = s"
  using virtqueue_interleavings_refine[OF run_facts(1,2,2) _ run_facts(3) fine_facts(1)] fine_facts(2,3)
  by force

text \<open>
  C4: however the accesses interleave, the device is given the buffers in the order of the
  increments of the available index, each with the address and length of its first segment as
  the driver wrote them, the driver gets completions back in the order of the increments of the
  used index, with the lengths the device wrote, and every cookie at most as often as it was
  submitted. Neither side acts on what the other is still writing.
\<close>

theorem virtqueue_interleavings_order:
  assumes "vq_sys_create dev qid name ring ring' cb nf io io' mem = Some s0"
    and "ai_num_descs ring = 2 ^ k" "ai_num_descs ring' = 2 ^ k" "k \<le> 15" "fresh_mem mem (2 ^ k)"
    and "fine_run (fine_start s0) es f"
  shows "(\<exists>rest. map snd (submitted io' es) = taken_by_dev es @ rest) \<and>
    (\<exists>rest. completed es = map snd (reaped_by_drv es) @ rest) \<and>
    mset (map fst (reaped_by_drv es)) \<subseteq># mset (map fst (submitted io' es))"
proof -
  obtain a where "abs_run io' (abs_init (2 ^ k)) es a"
    using created_fine_run[OF assms] by blast
  note hist = abs_run_prefix[OF this]
  show ?thesis
    by (simp only: hist[symmetric] mset_subset_eq_add_left) blast
qed

theorem virtqueue_interleavings_order_witness:
  "(\<exists>rest. map snd (submitted run_io fine_events) = taken_by_dev fine_events @ rest) \<and>
   (\<exists>rest. completed fine_events = map snd (reaped_by_drv fine_events) @ rest) \<and>
   mset (map fst (reaped_by_drv fine_events)) \<subseteq># mset (map fst (submitted run_io fine_events))"
  by (rule virtqueue_interleavings_order[OF run_facts(1,2,2) _ run_facts(3) fine_facts(1)]) simp

text \<open>
  C5: neither side waits for the other. In every state an interleaving reaches, wherever
  the driver is in an operation, its remaining steps are defined one after the other and lead
  to the end of the operation without a step of the device, and the same holds for the device:
  no lock, no unbounded loop, no access out of the bounds of the ring.
\<close>

theorem virtqueue_interleavings_finish:
  assumes "vq_sys_create dev qid name ring ring' cb nf io io' mem = Some s0"
    and "ai_num_descs ring = 2 ^ k" "ai_num_descs ring' = 2 ^ k" "k \<le> 15" "fresh_mem mem (2 ^ k)"
    and "fine_run (fine_start s0) es f"
  shows "(\<exists>es' d. drv_alone (f_drv f) (s_drv (f_sys f)) es' d) \<and>
    (\<exists>es' d. dev_alone (f_dev f) (s_dev (f_sys f)) es' d)"
  using created_fine_run[OF assms] drv_finishes dev_finishes by metis

theorem virtqueue_interleavings_finish_witness:
  "(\<exists>es' d. drv_alone (f_drv fine_end) (s_drv (f_sys fine_end)) es' d) \<and>
   (\<exists>es' d. dev_alone (f_dev fine_end) (s_dev (f_sys fine_end)) es' d)"
  by (rule virtqueue_interleavings_finish[OF run_facts(1,2,2) _ run_facts(3) fine_facts(1)]) simp

text \<open>
  C9: the steps are the operations. Run without the other side, the steps of adding a
  buffer, getting one back, switching callbacks, kicking, taking a buffer and giving one back
  go one way only, end in the control block the operation leaves, and report what it returns:
  adding succeeds and submits the buffer; getting one back gives the cookie and the length, or
  no event, 0, when there is none; enabling the callbacks gives the 0 or 1 of the entries
  already used; kicking calls the other side's \<^verbatim>\<open>notify\<close> when the event says so and never else;
  taking gives the address, the index and the length, or a null pointer and no event; giving
  back succeeds with the event or fails with \<^verbatim>\<open>ERROR_VRING_NO_BUFF\<close> without one.
\<close>

theorem virtqueue_steps_alone:
  "(virtqueue_add_buffer vq (ac_sg q) (ac_readable q) (ac_writable q) (ac_cookie q) = Some (rc, d) \<longrightarrow>
      rc = VQUEUE_SUCCESS \<and> drv_alone (Add_Start q) vq [ac_event q] d) \<and>
   (virtqueue_get_buffer (Some vq) = Some (c, got, Some d) \<longrightarrow>
      drv_alone Get_Check vq (case got of None \<Rightarrow> [] | Some (len, i) \<Rightarrow> [Reap c len]) d \<and>
      (got = None \<longrightarrow> c = 0)) \<and>
   (virtqueue_enable_cb vq = Some (r, d) \<longrightarrow> drv_alone Enable_Flag vq [Enable_Cb r] d) \<and>
   (virtqueue_disable_cb vq = Some d \<longrightarrow> drv_alone Disable_Flag vq [Disable_Cb] d) \<and>
   (virtqueue_kick call vq w = (d, w') \<longrightarrow>
      (\<exists>notified. drv_alone Kick_Check vq [Kick notified] d \<and>
         w' = (if notified then call (vq_notify vq) vq w else w))) \<and>
   (virtqueue_get_available_buffer vq = Some (b, av, d) \<longrightarrow>
      dev_alone Take_Check vq (case av of None \<Rightarrow> [] | Some (h, len) \<Rightarrow> [Take b h len]) d \<and>
      (av = None \<longrightarrow> b = 0)) \<and>
   (virtqueue_add_consumed_buffer vq h l = Some (rc, d) \<longrightarrow>
      (rc = VQUEUE_SUCCESS \<and> dev_alone (Put_Id h l) vq [Complete h l] d \<or>
       rc = ERROR_VRING_NO_BUFF \<and> dev_alone (Put_Id h l) vq [] d)) \<and>
   (drv_alone pc vq es1 d1 \<and> drv_alone pc vq es2 d2 \<longrightarrow> es1 = es2 \<and> d1 = d2) \<and>
   (dev_alone vpc vq es1 d1 \<and> dev_alone vpc vq es2 d2 \<longrightarrow> es1 = es2 \<and> d1 = d2)"
proof (intro conjI impI)
  assume "virtqueue_get_buffer (Some vq) = Some (c, got, Some d)"
  then show "drv_alone Get_Check vq (case got of None \<Rightarrow> [] | Some (len, i) \<Rightarrow> [Reap c len]) d"
    using get_alone by (cases got) auto
next
  assume "virtqueue_get_available_buffer vq = Some (b, av, d)"
  then show "dev_alone Take_Check vq (case av of None \<Rightarrow> [] | Some (h, len) \<Rightarrow> [Take b h len]) d"
    using take_alone by (cases av) auto
next
  assume "virtqueue_add_consumed_buffer vq h l = Some (rc, d)"
  moreover from this have "rc = VQUEUE_SUCCESS \<or> rc = ERROR_VRING_NO_BUFF"
    by (auto simp: virtqueue_add_consumed_buffer_def Let_def split: if_splits bind_splits)
  ultimately show "rc = VQUEUE_SUCCESS \<and> dev_alone (Put_Id h l) vq [Complete h l] d \<or>
      rc = ERROR_VRING_NO_BUFF \<and> dev_alone (Put_Id h l) vq [] d"
    using put_alone[of vq h l rc d]
    by (auto simp: VQUEUE_SUCCESS_def ERROR_VRING_NO_BUFF_def VQ_ERROR_BASE_def)
next
  assume "virtqueue_add_buffer vq (ac_sg q) (ac_readable q) (ac_writable q) (ac_cookie q) = Some (rc, d)"
  then show "rc = VQUEUE_SUCCESS" "drv_alone (Add_Start q) vq [ac_event q] d"
    using add_alone[of vq q rc d] by (auto simp: virtqueue_add_buffer_def Let_def split: bind_splits if_splits)
next
  assume "drv_alone pc vq es1 d1 \<and> drv_alone pc vq es2 d2"
  then show "es1 = es2" "d1 = d2" using drv_alone_same[of pc vq es1 d1 es2 d2] by blast+
next
  assume "dev_alone vpc vq es1 d1 \<and> dev_alone vpc vq es2 d2"
  then show "es1 = es2" "d1 = d2" using dev_alone_same[of vpc vq es1 d1 es2 d2] by blast+
next
  assume "virtqueue_get_buffer (Some vq) = Some (c, got, Some d)" "got = None"
  then show "c = 0"
    by (auto simp: Let_def split: bind_splits if_splits)
next
  assume "virtqueue_get_available_buffer vq = Some (b, av, d)" "av = None"
  then show "b = 0"
    by (auto simp: virtqueue_get_available_buffer_def Let_def split: bind_splits if_splits)
qed (rule cb_alone kick_alone; assumption)+

theorem virtqueue_steps_alone_witness:
  "drv_alone (Add_Start \<lparr>ac_sg = run_sg, ac_readable = 1, ac_writable = 1, ac_cookie = 77\<rparr>) (s_drv run_start)
     [Submit run_sg 1 1 77] (snd (the (virtqueue_add_buffer (s_drv run_start) run_sg 1 1 77)))"
proof -
  have "virtqueue_add_buffer (s_drv run_start) run_sg 1 1 77 \<noteq> None"
    by code_simp
  then show ?thesis
    using virtqueue_steps_alone[THEN conjunct1, of "s_drv run_start"
        "\<lparr>ac_sg = run_sg, ac_readable = 1, ac_writable = 1, ac_cookie = 77\<rparr>"
        "fst (the (virtqueue_add_buffer (s_drv run_start) run_sg 1 1 77))"
        "snd (the (virtqueue_add_buffer (s_drv run_start) run_sg 1 1 77))"]
    by simp
qed


end
