(* ===== verification/List_Head.thy ===== *)
theory List_Head
  imports Prelude
begin

text \<open>
  The circular doubly linked lists of \<^verbatim>\<open>include/list.h\<close>, on a store of
  \<^verbatim>\<open>struct list_head\<close> cells: every primitive is the sequence of pointer writes the
  header makes, in its order, so that aliasing between the arguments has the effect it has
  in C. The abstraction \<open>dll\<close> relates a head to the list of its entries; the lemmas give
  the effect of each primitive on that list.
\<close>

section \<open>The store\<close>

record list_mem =
  next_of :: "addr \<Rightarrow> addr"
  prev_of :: "addr \<Rightarrow> addr"

definition set_next :: "list_mem \<Rightarrow> addr \<Rightarrow> addr \<Rightarrow> list_mem" where
  [list_ops]: "set_next h p q = h\<lparr>next_of := (next_of h)(p := q)\<rparr>"

definition set_prev :: "list_mem \<Rightarrow> addr \<Rightarrow> addr \<Rightarrow> list_mem" where
  [list_ops]: "set_prev h p q = h\<lparr>prev_of := (prev_of h)(p := q)\<rparr>"

definition LIST_POISON1 :: addr where
  [list_ops]: "LIST_POISON1 = 0x00100100"

definition LIST_POISON2 :: addr where
  [list_ops]: "LIST_POISON2 = 0x00200200"

section \<open>The primitives\<close>

definition INIT_LIST_HEAD :: "list_mem \<Rightarrow> addr \<Rightarrow> list_mem" where
  [list_ops]: "INIT_LIST_HEAD h l =
     (let h1 = set_next h l l
      in set_prev h1 l l)"

definition raw_list_add :: "list_mem \<Rightarrow> addr \<Rightarrow> addr \<Rightarrow> addr \<Rightarrow> list_mem" where
  [list_ops]: "raw_list_add h new prev nxt =
     (let h1 = set_prev h nxt new;
          h2 = set_next h1 new nxt;
          h3 = set_prev h2 new prev
      in set_next h3 prev new)"

definition list_add :: "list_mem \<Rightarrow> addr \<Rightarrow> addr \<Rightarrow> list_mem" where
  [list_ops]: "list_add h new head = raw_list_add h new head (next_of h head)"

definition list_add_tail :: "list_mem \<Rightarrow> addr \<Rightarrow> addr \<Rightarrow> list_mem" where
  [list_ops]: "list_add_tail h new head = raw_list_add h new (prev_of h head) head"

definition raw_list_del :: "list_mem \<Rightarrow> addr \<Rightarrow> addr \<Rightarrow> list_mem" where
  [list_ops]: "raw_list_del h prev nxt =
     (let h1 = set_prev h nxt prev
      in set_next h1 prev nxt)"

definition raw_list_del_entry :: "list_mem \<Rightarrow> addr \<Rightarrow> list_mem" where
  [list_ops]: "raw_list_del_entry h entry = raw_list_del h (prev_of h entry) (next_of h entry)"

definition list_del :: "list_mem \<Rightarrow> addr \<Rightarrow> list_mem" where
  [list_ops]: "list_del h entry =
     (let h1 = raw_list_del h (prev_of h entry) (next_of h entry);
          h2 = set_next h1 entry LIST_POISON1
      in set_prev h2 entry LIST_POISON2)"

definition list_replace :: "list_mem \<Rightarrow> addr \<Rightarrow> addr \<Rightarrow> list_mem" where
  [list_ops]: "list_replace h old new =
     (let h1 = set_next h new (next_of h old);
          h2 = set_prev h1 (next_of h1 new) new;
          h3 = set_prev h2 new (prev_of h2 old)
      in set_next h3 (prev_of h3 new) new)"

definition list_replace_init :: "list_mem \<Rightarrow> addr \<Rightarrow> addr \<Rightarrow> list_mem" where
  [list_ops]: "list_replace_init h old new = INIT_LIST_HEAD (list_replace h old new) old"

definition list_del_init :: "list_mem \<Rightarrow> addr \<Rightarrow> list_mem" where
  [list_ops]: "list_del_init h entry = INIT_LIST_HEAD (raw_list_del_entry h entry) entry"

definition list_move :: "list_mem \<Rightarrow> addr \<Rightarrow> addr \<Rightarrow> list_mem" where
  [list_ops]: "list_move h l head = list_add (raw_list_del_entry h l) l head"

definition list_move_tail :: "list_mem \<Rightarrow> addr \<Rightarrow> addr \<Rightarrow> list_mem" where
  [list_ops]: "list_move_tail h l head = list_add_tail (raw_list_del_entry h l) l head"

definition list_is_last :: "list_mem \<Rightarrow> addr \<Rightarrow> addr \<Rightarrow> bool" where
  "list_is_last h l head \<longleftrightarrow> next_of h l = head"

definition list_empty :: "list_mem \<Rightarrow> addr \<Rightarrow> bool" where
  "list_empty h head \<longleftrightarrow> next_of h head = head"

definition list_empty_careful :: "list_mem \<Rightarrow> addr \<Rightarrow> bool" where
  "list_empty_careful h head \<longleftrightarrow>
     (let nxt = next_of h head in nxt = head \<and> nxt = prev_of h head)"

definition list_rotate_left :: "list_mem \<Rightarrow> addr \<Rightarrow> list_mem" where
  "list_rotate_left h head =
     (if \<not> list_empty h head then list_move_tail h (next_of h head) head else h)"

definition list_is_singular :: "list_mem \<Rightarrow> addr \<Rightarrow> bool" where
  "list_is_singular h head \<longleftrightarrow> \<not> list_empty h head \<and> next_of h head = prev_of h head"

definition raw_list_cut_position :: "list_mem \<Rightarrow> addr \<Rightarrow> addr \<Rightarrow> addr \<Rightarrow> list_mem" where
  [list_ops]: "raw_list_cut_position h l head entry =
     (let new_first = next_of h entry;
          h1 = set_next h l (next_of h head);
          h2 = set_prev h1 (next_of h1 l) l;
          h3 = set_prev h2 l entry;
          h4 = set_next h3 entry l;
          h5 = set_next h4 head new_first
      in set_prev h5 new_first head)"

definition list_cut_position :: "list_mem \<Rightarrow> addr \<Rightarrow> addr \<Rightarrow> addr \<Rightarrow> list_mem" where
  "list_cut_position h l head entry =
     (if list_empty h head then h
      else if list_is_singular h head \<and> next_of h head \<noteq> entry \<and> head \<noteq> entry then h
      else if entry = head then INIT_LIST_HEAD h l
      else raw_list_cut_position h l head entry)"

definition raw_list_splice :: "list_mem \<Rightarrow> addr \<Rightarrow> addr \<Rightarrow> addr \<Rightarrow> list_mem" where
  [list_ops]: "raw_list_splice h l prev nxt =
     (let first = next_of h l;
          lst = prev_of h l;
          h1 = set_prev h first prev;
          h2 = set_next h1 prev first;
          h3 = set_next h2 lst nxt
      in set_prev h3 nxt lst)"

definition list_splice :: "list_mem \<Rightarrow> addr \<Rightarrow> addr \<Rightarrow> list_mem" where
  "list_splice h l head =
     (if \<not> list_empty h l then raw_list_splice h l head (next_of h head) else h)"

definition list_splice_tail :: "list_mem \<Rightarrow> addr \<Rightarrow> addr \<Rightarrow> list_mem" where
  "list_splice_tail h l head =
     (if \<not> list_empty h l then raw_list_splice h l (prev_of h head) head else h)"

definition list_splice_init :: "list_mem \<Rightarrow> addr \<Rightarrow> addr \<Rightarrow> list_mem" where
  "list_splice_init h l head =
     (if \<not> list_empty h l
      then INIT_LIST_HEAD (raw_list_splice h l head (next_of h head)) l else h)"

definition list_splice_tail_init :: "list_mem \<Rightarrow> addr \<Rightarrow> addr \<Rightarrow> list_mem" where
  "list_splice_tail_init h l head =
     (if \<not> list_empty h l
      then INIT_LIST_HEAD (raw_list_splice h l (prev_of h head) head) l else h)"

definition list_first_entry :: "list_mem \<Rightarrow> addr \<Rightarrow> addr" where
  "list_first_entry h head = next_of h head"

text \<open>
  The traversals. \<open>list_for_each\<close> collects the entries a full traversal visits;
  \<open>list_find\<close> is the traversal that returns at the first entry with a property. A
  traversal that never comes back to the head is \<^term>\<open>None\<close>.
\<close>

partial_function (option) list_for_each ::
    "list_mem \<Rightarrow> addr \<Rightarrow> addr \<Rightarrow> addr list option" where
  "list_for_each h head pos =
     (if pos = head then Some []
      else Option.bind (list_for_each h head (next_of h pos)) (\<lambda>r. Some (pos # r)))"

declare list_for_each.simps [code]

definition list_for_each_entry :: "list_mem \<Rightarrow> addr \<Rightarrow> addr list option" where
  "list_for_each_entry h head = list_for_each h head (next_of h head)"

definition list_for_each_prev :: "list_mem \<Rightarrow> addr \<Rightarrow> addr list option" where
  "list_for_each_prev h head =
     list_for_each (h\<lparr>next_of := prev_of h\<rparr>) head (prev_of h head)"

partial_function (option) list_find ::
    "(addr \<Rightarrow> bool) \<Rightarrow> list_mem \<Rightarrow> addr \<Rightarrow> addr \<Rightarrow> addr option option" where
  "list_find found h head pos =
     (if pos = head then Some None
      else if found pos then Some (Some pos)
      else list_find found h head (next_of h pos))"

declare list_find.simps [code]

definition list_find_entry :: "(addr \<Rightarrow> bool) \<Rightarrow> list_mem \<Rightarrow> addr \<Rightarrow> addr option option" where
  "list_find_entry P h head = list_find P h head (next_of h head)"

section \<open>The abstraction: a head and its entries\<close>

text \<open>
  \<open>linked h p xs q\<close>: following the next pointers from \<open>p\<close> visits \<open>xs\<close> and arrives at
  \<open>q\<close>, and the previous pointers lead back. \<open>dll h head xs\<close>: the entries of the list at
  \<open>head\<close> are \<open>xs\<close>.
\<close>

fun linked :: "list_mem \<Rightarrow> addr \<Rightarrow> addr list \<Rightarrow> addr \<Rightarrow> bool" where
  "linked h p [] q \<longleftrightarrow> next_of h p = q \<and> prev_of h q = p"
| "linked h p (x # xs) q \<longleftrightarrow> next_of h p = x \<and> prev_of h x = p \<and> linked h x xs q"

definition dll :: "list_mem \<Rightarrow> addr \<Rightarrow> addr list \<Rightarrow> bool" where
  "dll h head xs \<longleftrightarrow> distinct (head # xs) \<and> linked h head xs head"

subsection \<open>Segments\<close>

lemma linked_append [simp]:
  "linked h p (xs @ y # ys) q \<longleftrightarrow> linked h p xs y \<and> linked h y ys q"
  by (induction xs arbitrary: p) auto

lemma linked_snoc: "linked h p (xs @ [y]) q \<longleftrightarrow> linked h p xs y \<and> linked h y [] q"
  by simp

lemma linked_set_next [simp]:
  "a \<notin> set (p # xs) \<Longrightarrow> linked (set_next h a v) p xs q = linked h p xs q"
  by (induction xs arbitrary: p) (auto simp: set_next_def)

lemma linked_set_prev [simp]:
  "a \<notin> set xs \<Longrightarrow> a \<noteq> q \<Longrightarrow> linked (set_prev h a v) p xs q = linked h p xs q"
  by (induction xs arbitrary: p) (auto simp: set_prev_def)

lemma set_next_sel [simp]:
  "next_of (set_next h a v) = (next_of h)(a := v)" "prev_of (set_next h a v) = prev_of h"
  by (simp_all add: set_next_def)

lemma set_prev_sel [simp]:
  "prev_of (set_prev h a v) = (prev_of h)(a := v)" "next_of (set_prev h a v) = next_of h"
  by (simp_all add: set_prev_def)

lemma linked_first: "linked h p xs q \<Longrightarrow> next_of h p = List.hd (xs @ [q])"
  by (cases xs) auto

lemma linked_last: "linked h p xs q \<Longrightarrow> prev_of h q = List.last (p # xs)"
  by (cases xs rule: rev_cases) auto

lemma linked_unique:
  "linked h p xs q \<Longrightarrow> linked h p ys q \<Longrightarrow> q \<notin> set xs \<Longrightarrow> q \<notin> set ys \<Longrightarrow> xs = ys"
proof (induction xs arbitrary: p ys)
  case Nil
  then show ?case by (cases ys) auto
next
  case (Cons x xs)
  then show ?case by (cases ys) auto
qed

subsection \<open>Whole lists\<close>

lemma dll_distinct: "dll h head xs \<Longrightarrow> distinct xs \<and> head \<notin> set xs"
  by (simp add: dll_def)

lemma dll_unique: "dll h head xs \<Longrightarrow> dll h head ys \<Longrightarrow> xs = ys"
  by (auto simp: dll_def intro: linked_unique)

lemma dll_next: "dll h head (xs @ e # ys) \<Longrightarrow> next_of h e = List.hd (ys @ [head])"
  by (auto simp: dll_def dest: linked_first)

lemma dll_prev: "dll h head (xs @ e # ys) \<Longrightarrow> prev_of h e = List.last (head # xs)"
  by (auto simp: dll_def dest: linked_last)

lemma dll_head_next: "dll h head xs \<Longrightarrow> next_of h head = List.hd (xs @ [head])"
  by (auto simp: dll_def dest: linked_first)

lemma dll_head_prev: "dll h head xs \<Longrightarrow> prev_of h head = List.last (head # xs)"
  by (auto simp: dll_def dest: linked_last)

lemma dll_list_empty: "dll h head xs \<Longrightarrow> list_empty h head \<longleftrightarrow> xs = []"
  by (cases xs) (auto simp: dll_def list_empty_def)

lemma dll_frame_set_next: "a \<notin> set (head # xs) \<Longrightarrow> dll (set_next h a v) head xs = dll h head xs"
  by (simp add: dll_def)

lemma dll_frame_set_prev: "a \<notin> set (head # xs) \<Longrightarrow> dll (set_prev h a v) head xs = dll h head xs"
  by (simp add: dll_def)

lemmas dll_frame = dll_frame_set_next dll_frame_set_prev

subsection \<open>The effect of the primitives\<close>

lemma dll_INIT_LIST_HEAD: "dll (INIT_LIST_HEAD h l) l []"
  by (simp add: dll_def INIT_LIST_HEAD_def Let_def)

lemma dll_INIT_frame: "l \<notin> set (head # xs) \<Longrightarrow> dll (INIT_LIST_HEAD h l) head xs = dll h head xs"
  by (simp add: INIT_LIST_HEAD_def Let_def dll_frame)

lemma dll_raw_list_add:
  assumes "dll h head (xs @ ys)" "n \<notin> set (head # xs @ ys)"
  shows "dll (raw_list_add h n (List.last (head # xs)) (List.hd (ys @ [head]))) head (xs @ n # ys)"
  using assms
  by (cases xs rule: rev_cases; cases ys)
    (auto simp: dll_def raw_list_add_def Let_def)

lemma dll_list_add:
  assumes "dll h head xs" "n \<notin> set (head # xs)"
  shows "dll (list_add h n head) head (n # xs)"
  using dll_raw_list_add[of h head "[]" xs n] assms
  by (simp add: list_add_def dll_head_next)

lemma dll_list_add_tail:
  assumes "dll h head xs" "n \<notin> set (head # xs)"
  shows "dll (list_add_tail h n head) head (xs @ [n])"
  using dll_raw_list_add[of h head xs "[]" n] assms
  by (simp add: list_add_tail_def dll_head_prev)

lemma dll_list_add_before:
  assumes "dll h head (xs @ e # ys)" "n \<notin> set (head # xs @ e # ys)"
  shows "dll (list_add_tail h n e) head (xs @ n # e # ys)"
  using dll_raw_list_add[of h head xs "e # ys" n] assms dll_prev[OF assms(1)]
  by (simp add: list_add_tail_def)

lemma dll_raw_list_del:
  assumes "dll h head (xs @ e # ys)"
  shows "dll (raw_list_del_entry h e) head (xs @ ys)"
  using assms dll_prev[OF assms] dll_next[OF assms]
  by (cases xs rule: rev_cases; cases ys)
    (auto simp: dll_def raw_list_del_entry_def raw_list_del_def Let_def)

lemma raw_list_del_entry_frame:
  assumes "dll h head (xs @ e # ys)" "set (head # xs @ e # ys) \<inter> set (l # zs) = {}"
  shows "dll (raw_list_del_entry h e) l zs = dll h l zs"
proof -
  have "List.last (head # xs) \<in> set (head # xs)" "List.hd (ys @ [head]) \<in> set (head # ys)"
    by (rule last_in_set, simp, cases ys, auto)
  then have "List.last (head # xs) \<notin> set (l # zs)" "List.hd (ys @ [head]) \<notin> set (l # zs)"
    using assms(2) by auto
  then show ?thesis
    using dll_prev[OF assms(1)] dll_next[OF assms(1)]
    by (simp add: raw_list_del_entry_def raw_list_del_def Let_def dll_frame)
qed

lemma dll_list_del:
  assumes "dll h head (xs @ e # ys)"
  shows "dll (list_del h e) head (xs @ ys)"
  using dll_raw_list_del[OF assms] dll_distinct[OF assms]
  by (simp add: list_del_def raw_list_del_entry_def Let_def dll_frame)

lemma list_del_poison:
  "next_of (list_del h e) e = LIST_POISON1" "prev_of (list_del h e) e = LIST_POISON2"
  by (simp_all add: list_del_def Let_def)

lemma dll_list_del_init:
  assumes "dll h head (xs @ e # ys)"
  shows "dll (list_del_init h e) head (xs @ ys)" "dll (list_del_init h e) e []"
  using dll_raw_list_del[OF assms] dll_distinct[OF assms]
  by (simp_all add: list_del_init_def dll_INIT_frame dll_INIT_LIST_HEAD)

lemma dll_list_move:
  assumes "dll h a (xs @ e # ys)" "dll h b zs" "set (a # xs @ e # ys) \<inter> set (b # zs) = {}"
  shows "dll (list_move h e b) a (xs @ ys)" "dll (list_move h e b) b (e # zs)"
proof -
  let ?h = "raw_list_del_entry h e"
  have a: "dll ?h a (xs @ ys)"
    using assms(1) by (rule dll_raw_list_del)
  have b: "dll ?h b zs"
    using assms raw_list_del_entry_frame by metis
  show "dll (list_move h e b) b (e # zs)"
    using dll_list_add[OF b] assms(3) by (auto simp: list_move_def)
  have hd: "List.hd (zs @ [b]) \<in> set (b # zs)"
    by (cases zs) auto
  have e: "e \<notin> set (a # xs @ ys)"
    using dll_distinct[OF assms(1)] by auto
  have bs: "b \<notin> set (a # xs @ ys)" "List.hd (zs @ [b]) \<notin> set (a # xs @ ys)"
    using assms(3) hd by auto
  show "dll (list_move h e b) a (xs @ ys)"
    unfolding list_move_def list_add_def raw_list_add_def Let_def dll_head_next[OF b]
    using a e bs by (simp add: dll_frame)
qed

lemma dll_list_move_tail:
  assumes "dll h a (xs @ e # ys)"
  shows "dll (list_move_tail h e a) a (xs @ ys @ [e])"
  using dll_list_add_tail[OF dll_raw_list_del[OF assms]] dll_distinct[OF assms]
  by (simp add: list_move_tail_def)

lemma list_add_tail_frame:
  assumes "dll h b zs" "dll h a xs" "set (b # zs) \<inter> set (a # xs) = {}" "n \<notin> set (a # xs)"
  shows "dll (list_add_tail h n b) a xs"
proof -
  have "List.last (b # zs) \<in> set (b # zs)"
    by (rule last_in_set) simp
  then have "List.last (b # zs) \<notin> set (a # xs)" "b \<notin> set (a # xs)"
    using assms(3) by auto
  then show ?thesis
    using assms(2,4) dll_head_prev[OF assms(1)]
    by (simp add: list_add_tail_def raw_list_add_def Let_def dll_frame)
qed

lemma dll_list_rotate_left:
  "dll h head xs \<Longrightarrow> dll (list_rotate_left h head) head (rotate1 xs)"
proof (cases xs)
  case Nil
  moreover assume "dll h head xs"
  ultimately show ?thesis by (simp add: list_rotate_left_def dll_list_empty)
next
  case (Cons x us)
  moreover assume d: "dll h head xs"
  moreover have "next_of h head = x"
    using Cons d by (simp add: dll_def)
  ultimately show ?thesis
    using dll_list_move_tail[of h head "[]" x us]
    by (simp add: list_rotate_left_def dll_list_empty)
qed

lemma dll_list_is_singular: "dll h head xs \<Longrightarrow> list_is_singular h head \<longleftrightarrow> length xs = 1"
  by (cases xs; cases "tl xs" rule: rev_cases)
    (auto simp: list_is_singular_def list_empty_def dll_def)

lemma dll_list_is_last:
  "dll h head (xs @ e # ys) \<Longrightarrow> list_is_last h e head \<longleftrightarrow> ys = []"
  by (cases ys) (auto simp: list_is_last_def dll_def)

lemma dll_list_empty_careful: "dll h head xs \<Longrightarrow> list_empty_careful h head \<longleftrightarrow> xs = []"
  by (cases xs) (auto simp: list_empty_careful_def dll_def)

lemma dll_list_replace:
  assumes "dll h head (xs @ old # ys)" "new \<notin> set (head # xs @ old # ys)"
  shows "dll (list_replace h old new) head (xs @ new # ys)"
  using assms dll_prev[OF assms(1)] dll_next[OF assms(1)]
  by (cases xs rule: rev_cases; cases ys)
    (auto simp: dll_def list_replace_def Let_def)

lemma dll_list_replace_init:
  assumes "dll h head (xs @ old # ys)" "new \<notin> set (head # xs @ old # ys)"
  shows "dll (list_replace_init h old new) head (xs @ new # ys)"
    "dll (list_replace_init h old new) old []"
  using dll_list_replace[OF assms] dll_distinct[OF assms(1)] assms(2)
  by (auto simp: list_replace_init_def dll_INIT_frame dll_INIT_LIST_HEAD)

lemma linked_retarget:
  assumes "linked h p xs l"
    and "\<And>a. a \<in> set (butlast (p # xs)) \<Longrightarrow> next_of h' a = next_of h a"
    and "\<And>a. a \<in> set xs \<Longrightarrow> prev_of h' a = prev_of h a"
    and "next_of h' (List.last (p # xs)) = q" "prev_of h' q = List.last (p # xs)"
  shows "linked h' p xs q"
  using assms by (induction xs arbitrary: p) (auto split: if_splits)

lemma linked_frame:
  assumes "linked h p xs q"
    and "\<And>a. a \<in> set (p # xs) \<Longrightarrow> next_of h' a = next_of h a"
    and "\<And>a. a \<in> set (xs @ [q]) \<Longrightarrow> prev_of h' a = prev_of h a"
  shows "linked h' p xs q"
  using assms by (induction xs arbitrary: p) auto

lemma linked_gap:
  "linked h p (xs @ ys) q \<longleftrightarrow>
     linked h p xs (List.hd (ys @ [q])) \<and> linked h (List.last (p # xs)) ys q"
  by (induction xs arbitrary: p; cases ys) auto

lemma in_butlast_distinct: "distinct xs \<Longrightarrow> a \<in> set (butlast xs) \<Longrightarrow> a \<in> set xs \<and> a \<noteq> List.last xs"
  by (cases xs rule: rev_cases) auto

lemma dll_raw_list_splice:
  assumes "dll h l us" "us \<noteq> []" "dll h head (xs @ ys)"
    "set (l # us) \<inter> set (head # xs @ ys) = {}"
  shows "dll (raw_list_splice h l (List.last (head # xs)) (List.hd (ys @ [head]))) head (xs @ us @ ys)"
proof -
  obtain u vs where us: "us = u # vs"
    using assms(2) by (cases us) auto
  define prv nxt lst where "prv = List.last (head # xs)" "nxt = List.hd (ys @ [head])"
    "lst = List.last (u # vs)"
  note ends = this
  have f: "next_of h l = u" "prev_of h l = lst"
    using dll_head_next[OF assms(1)] dll_head_prev[OF assms(1)] us ends by simp_all
  define h' where "h' = raw_list_splice h l prv nxt"
  have n: "next_of h' = (next_of h)(prv := u, lst := nxt)"
    and p: "prev_of h' = (prev_of h)(u := prv, nxt := lst)"
    using f by (simp_all add: h'_def raw_list_splice_def Let_def)
  have mem: "prv \<in> set (head # xs)" "nxt \<in> set (head # ys)" "lst \<in> set (u # vs)"
    unfolding ends by (simp, cases ys, simp, simp, rule last_in_set, simp)
  have dis: "distinct (head # xs @ ys)" "distinct (u # vs)"
    "set (u # vs) \<inter> set (head # xs @ ys) = {}"
    using assms us by (auto simp: dll_def)
  have old: "linked h head xs nxt" "linked h prv ys head" "linked h u vs l"
    using assms(1,3) us ends linked_gap[of h head xs ys head] by (auto simp: dll_def)
  have nx: "next_of h' a = next_of h a" if "a \<noteq> prv" "a \<noteq> lst" for a
    using that by (simp add: n)
  have pv: "prev_of h' a = prev_of h a" if "a \<noteq> u" "a \<noteq> nxt" for a
    using that by (simp add: p)
  have apart: "prv \<notin> set (u # vs)" "nxt \<notin> set (u # vs)" "lst \<notin> set (head # xs @ ys)"
      "u \<notin> set (head # xs @ ys)" "nxt \<notin> set xs" "u \<notin> set vs" "prv \<notin> set ys"
    using mem dis by auto
  have ne: "prv \<noteq> lst" "u \<noteq> nxt"
    using apart mem by auto
  have s1: "linked h' head xs u"
    using old(1)
  proof (rule linked_retarget)
    fix a assume "a \<in> set (butlast (head # xs))"
    then have "a \<noteq> prv" "a \<in> set (head # xs)"
      using in_butlast_distinct[of "head # xs" a] dis(1) ends(1) by auto
    then show "next_of h' a = next_of h a"
      using apart(3) by (intro nx) auto
  next
    fix a assume "a \<in> set xs"
    then show "prev_of h' a = prev_of h a"
      using apart by (intro pv) auto
  qed (use n p ne ends(1) in simp_all)
  have s2: "linked h' u vs nxt"
    using old(3)
  proof (rule linked_retarget)
    fix a assume "a \<in> set (butlast (u # vs))"
    then have "a \<noteq> lst" "a \<in> set (u # vs)"
      using in_butlast_distinct[of "u # vs" a] dis(2) ends(3) by auto
    then show "next_of h' a = next_of h a"
      using apart(1) by (intro nx) auto
  next
    fix a assume "a \<in> set vs"
    then show "prev_of h' a = prev_of h a"
      using apart by (intro pv) auto
  qed (use n p ends(3) in simp_all)
  have s3: "linked h' lst ys head"
  proof (cases ys)
    case Nil
    then show ?thesis using n p ends by simp
  next
    case (Cons y zs)
    then have y: "nxt = y" "linked h y zs head" using old(2) ends by auto
    from y(2) have "linked h' y zs head"
      by (rule linked_frame) (use apart mem dis Cons y(1) in \<open>auto intro!: nx pv\<close>)
    then show ?thesis using n p Cons y(1) by simp
  qed
  have "linked h' head (xs @ u # vs @ ys) head"
    using s1 s2 s3 linked_gap[of h' u vs ys head] ends by simp
  then show ?thesis
    using dis us by (auto simp: dll_def h'_def ends)
qed

lemma dll_list_splice:
  assumes "dll h l us" "dll h head xs" "set (l # us) \<inter> set (head # xs) = {}"
  shows "dll (list_splice h l head) head (us @ xs)"
  using dll_raw_list_splice[of h l us head "[]" xs] assms
  by (cases "us = []") (simp_all add: list_splice_def dll_list_empty dll_head_next)

lemma dll_list_splice_tail:
  assumes "dll h l us" "dll h head xs" "set (l # us) \<inter> set (head # xs) = {}"
  shows "dll (list_splice_tail h l head) head (xs @ us)"
  using dll_raw_list_splice[of h l us head xs "[]"] assms
  by (cases "us = []") (simp_all add: list_splice_tail_def dll_list_empty dll_head_prev)

lemma list_splice_init_eq:
  "list_splice_init h l head =
     (if list_empty h l then h else INIT_LIST_HEAD (list_splice h l head) l)"
  "list_splice_tail_init h l head =
     (if list_empty h l then h else INIT_LIST_HEAD (list_splice_tail h l head) l)"
  by (simp_all add: list_splice_init_def list_splice_tail_init_def list_splice_def
      list_splice_tail_def)

lemma dll_list_splice_init:
  assumes "dll h l us" "dll h head xs" "set (l # us) \<inter> set (head # xs) = {}"
  shows "dll (list_splice_init h l head) head (us @ xs)" "dll (list_splice_init h l head) l []"
  using assms dll_list_splice[OF assms] dll_INIT_frame[of l head "us @ xs"] dll_distinct[OF assms(1)]
  by (auto simp: list_splice_init_eq dll_list_empty dll_INIT_LIST_HEAD)

lemma dll_list_splice_tail_init:
  assumes "dll h l us" "dll h head xs" "set (l # us) \<inter> set (head # xs) = {}"
  shows "dll (list_splice_tail_init h l head) head (xs @ us)"
    "dll (list_splice_tail_init h l head) l []"
  using assms dll_list_splice_tail[OF assms] dll_INIT_frame[of l head "xs @ us"]
    dll_distinct[OF assms(1)]
  by (auto simp: list_splice_init_eq dll_list_empty dll_INIT_LIST_HEAD)

lemma dll_raw_list_cut_position:
  assumes "dll h head (xs @ e # ys)" "l \<notin> set (head # xs @ e # ys)"
  shows "dll (raw_list_cut_position h l head e) l (xs @ [e])"
    "dll (raw_list_cut_position h l head e) head ys"
proof -
  have e: "next_of h e = List.hd (ys @ [head])"
    using assms(1) by (rule dll_next)
  have f: "next_of h head = List.hd (xs @ [e])"
    using dll_head_next[OF assms(1)] by (cases xs) auto
  show "dll (raw_list_cut_position h l head e) l (xs @ [e])"
    using assms e f by (cases xs; cases ys) (auto simp: dll_def raw_list_cut_position_def Let_def)
  show "dll (raw_list_cut_position h l head e) head ys"
    using assms e f by (cases xs; cases ys) (auto simp: dll_def raw_list_cut_position_def Let_def)
qed

lemma dll_list_cut_position:
  assumes "dll h head (xs @ e # ys)" "l \<notin> set (head # xs @ e # ys)"
  shows "dll (list_cut_position h l head e) l (xs @ [e])"
    "dll (list_cut_position h l head e) head ys"
proof -
  have ne: "\<not> list_empty h head" "e \<noteq> head"
    using assms dll_list_empty[OF assms(1)] dll_distinct[OF assms(1)] by auto
  have "list_is_singular h head \<Longrightarrow> next_of h head = e"
    using dll_list_is_singular[OF assms(1)] dll_head_next[OF assms(1)] by auto
  then have "list_cut_position h l head e = raw_list_cut_position h l head e"
    using ne by (auto simp: list_cut_position_def)
  then show "dll (list_cut_position h l head e) l (xs @ [e])"
    "dll (list_cut_position h l head e) head ys"
    using dll_raw_list_cut_position[OF assms] by simp_all
qed

subsection \<open>Traversals\<close>

lemma list_for_each_linked:
  "linked h p xs q \<Longrightarrow> q \<notin> set xs \<Longrightarrow> list_for_each h q (next_of h p) = Some xs"
  by (induction xs arbitrary: p) (simp_all add: list_for_each.simps)

lemma dll_for_each_entry: "dll h head xs \<Longrightarrow> list_for_each_entry h head = Some xs"
  by (simp add: list_for_each_entry_def dll_def list_for_each_linked)

lemma list_find_linked:
  "linked h p xs q \<Longrightarrow> q \<notin> set xs \<Longrightarrow> list_find P h q (next_of h p) = Some (List.find P xs)"
  by (induction xs arbitrary: p) (simp_all add: list_find.simps)

lemma dll_find_entry: "dll h head xs \<Longrightarrow> list_find_entry P h head = Some (List.find P xs)"
  by (simp add: list_find_entry_def dll_def list_find_linked)

text \<open>The same cells seen backwards.\<close>

lemma linked_rev:
  "linked h p xs q \<Longrightarrow> linked (h\<lparr>next_of := prev_of h, prev_of := next_of h\<rparr>) q (rev xs) p"
  by (induction xs arbitrary: p) auto

lemma list_for_each_prev_irrelevant:
  "list_for_each h q p = Some xs \<Longrightarrow> list_for_each (h\<lparr>prev_of := f\<rparr>) q p = Some xs"
proof (induction xs arbitrary: p)
  case Nil
  then show ?case
    by (subst (asm) list_for_each.simps)
      (auto simp: list_for_each.simps[of _ q q] bind_eq_Some_conv split: if_splits)
next
  case (Cons x xs)
  then have "p \<noteq> q" "p = x" "list_for_each h q (next_of h p) = Some xs"
    by (auto simp: list_for_each.simps[of h q p] bind_eq_Some_conv split: if_splits)
  with Cons.IH show ?case
    by (subst list_for_each.simps) simp
qed

lemma dll_for_each_prev: "dll h head xs \<Longrightarrow> list_for_each_prev h head = Some (rev xs)"
proof -
  assume d: "dll h head xs"
  let ?h = "h\<lparr>next_of := prev_of h, prev_of := next_of h\<rparr>"
  have "list_for_each ?h head (next_of ?h head) = Some (rev xs)"
    using d by (intro list_for_each_linked linked_rev) (simp_all add: dll_def)
  from list_for_each_prev_irrelevant[OF this, of "prev_of h"]
  show ?thesis by (simp add: list_for_each_prev_def)
qed

text \<open>Cells whose successors are among them trap a traversal that does not stop at one.\<close>

lemma list_find_closed:
  assumes "n \<in> S" "\<And>x. x \<in> S \<Longrightarrow> next_of h x \<in> S" "head \<notin> S" "\<And>x. x \<in> S \<Longrightarrow> \<not> P x"
  shows "list_find P h head n = None"
proof (rule ccontr)
  assume "list_find P h head n \<noteq> None"
  then obtain r where r: "list_find P h head n = Some r" by auto
  have "P = P \<longrightarrow> h = h \<longrightarrow> head = head \<longrightarrow> n \<notin> S"
  proof (rule list_find.raw_induct
      [where P = "\<lambda>Q g hd' p r. Q = P \<longrightarrow> g = h \<longrightarrow> hd' = head \<longrightarrow> p \<notin> S", OF _ r])
    fix f :: "(addr \<Rightarrow> bool) \<Rightarrow> list_mem \<Rightarrow> addr \<Rightarrow> addr \<Rightarrow> addr option option" and Q g hd' p r
    assume "\<And>Q g hd' p r. f Q g hd' p = Some r \<Longrightarrow> Q = P \<longrightarrow> g = h \<longrightarrow> hd' = head \<longrightarrow> p \<notin> S"
      and "(if p = hd' then Some None else if Q p then Some (Some p)
        else f Q g hd' (next_of g p)) = Some r"
    then show "Q = P \<longrightarrow> g = h \<longrightarrow> hd' = head \<longrightarrow> p \<notin> S"
      using assms(2-4) by (metis option.distinct(1))
  qed
  then show False using assms(1) by simp
qed

lemma list_find_self_loop:
  assumes "next_of h n = n" "n \<noteq> head" "\<not> P n"
  shows "list_find P h head n = None"
  by (rule list_find_closed[where S = "{n}"]) (use assms in auto)

section \<open>The interface the clients rely on\<close>

text \<open>
  What the users of \<^verbatim>\<open>list.h\<close> in this program (the timeouts, the event lists, the node
  lists) rely on: a representation predicate, initialisation, insertion before a cell
  (\<^verbatim>\<open>list_add_tail\<close>; at the head it appends), removal and traversal.
\<close>

locale list_store =
  fixes rep :: "'h \<Rightarrow> addr \<Rightarrow> addr list \<Rightarrow> bool"
    and init :: "'h \<Rightarrow> addr \<Rightarrow> 'h"
    and add_tail :: "'h \<Rightarrow> addr \<Rightarrow> addr \<Rightarrow> 'h"
    and del :: "'h \<Rightarrow> addr \<Rightarrow> 'h"
    and walk :: "'h \<Rightarrow> addr \<Rightarrow> addr list option"
  assumes rep_distinct: "rep h a xs \<Longrightarrow> distinct (a # xs)"
    and rep_unique: "rep h a xs \<Longrightarrow> rep h a ys \<Longrightarrow> xs = ys"
    and rep_init: "rep (init h a) a []"
    and rep_add_tail: "rep h a xs \<Longrightarrow> n \<notin> set (a # xs) \<Longrightarrow> rep (add_tail h n a) a (xs @ [n])"
    and rep_add_before: "rep h a (xs @ e # ys) \<Longrightarrow> n \<notin> set (a # xs @ e # ys) \<Longrightarrow>
      rep (add_tail h n e) a (xs @ n # e # ys)"
    and rep_del: "rep h a (xs @ e # ys) \<Longrightarrow> rep (del h e) a (xs @ ys)"
    and rep_walk: "rep h a xs \<Longrightarrow> walk h a = Some xs"
begin

lemma add_all:
  "rep h a xs \<Longrightarrow> distinct ns \<Longrightarrow> set ns \<inter> set (a # xs) = {} \<Longrightarrow>
    rep (fold (\<lambda>n h. add_tail h n a) ns h) a (xs @ ns)"
proof (induction ns arbitrary: h xs)
  case Nil
  then show ?case by simp
next
  case (Cons n ns)
  then have "rep (add_tail h n a) a (xs @ [n])"
    by (intro rep_add_tail) auto
  from Cons.IH[OF this] Cons.prems show ?case by auto
qed

lemma init_add_all:
  "distinct ns \<Longrightarrow> a \<notin> set ns \<Longrightarrow> rep (fold (\<lambda>n h. add_tail h n a) ns (init h a)) a ns"
proof -
  assume "distinct ns" "a \<notin> set ns"
  then have "rep (fold (\<lambda>n h. add_tail h n a) ns (init h a)) a ([] @ ns)"
    by (intro add_all rep_init) auto
  then show ?thesis by simp
qed

lemma del_member: "rep h a xs \<Longrightarrow> e \<in> set xs \<Longrightarrow> rep (del h e) a (remove1 e xs)"
proof -
  assume r: "rep h a xs" and "e \<in> set xs"
  then obtain us vs where xs: "xs = us @ e # vs" "e \<notin> set us"
    by (meson split_list_first)
  then show ?thesis
    using rep_del[of h a us e vs] r by (simp add: remove1_append)
qed

lemma del_first: "rep h a (x # xs) \<Longrightarrow> rep (del h x) a xs"
  using rep_del[of h a "[]" x xs] by simp

lemma add_then_del: "rep h a xs \<Longrightarrow> n \<notin> set (a # xs) \<Longrightarrow> rep (del (add_tail h n a) n) a xs"
  using rep_del[of "add_tail h n a" a xs n "[]"] rep_add_tail[of h a xs n] by simp

lemma walk_add_tail:
  "rep h a xs \<Longrightarrow> n \<notin> set (a # xs) \<Longrightarrow> walk (add_tail h n a) a = Some (xs @ [n])"
  by (rule rep_walk, rule rep_add_tail)

lemma walk_del: "rep h a xs \<Longrightarrow> e \<in> set xs \<Longrightarrow> walk (del h e) a = Some (remove1 e xs)"
  by (rule rep_walk, rule del_member)

end

interpretation dl: list_store dll INIT_LIST_HEAD list_add_tail list_del list_for_each_entry
  by unfold_locales
    (auto simp: dll_unique dll_INIT_LIST_HEAD dll_list_add_tail dll_list_add_before dll_list_del
      dll_for_each_entry dest: dll_distinct)

interpretation dli: list_store dll INIT_LIST_HEAD list_add_tail list_del_init list_for_each_entry
  by unfold_locales
    (auto simp: dll_unique dll_INIT_LIST_HEAD dll_list_add_tail dll_list_add_before
      dll_list_del_init dll_for_each_entry dest: dll_distinct)

section \<open>Properties\<close>

text \<open>Two lists for the witnesses: \<open>1, 2, 3\<close> at \<open>100\<close> and \<open>7\<close> at \<open>200\<close>.\<close>

definition two_lists :: list_mem where
  "two_lists = \<lparr>next_of = (\<lambda>_. 0)(100 := 1, 1 := 2, 2 := 3, 3 := 100, 200 := 7, 7 := 200),
     prev_of = (\<lambda>_. 0)(1 := 100, 2 := 1, 3 := 2, 100 := 3, 7 := 200, 200 := 7)\<rparr>"

lemma two_lists_dll: "dll two_lists 100 [1, 2, 3]" "dll two_lists 200 [7]"
  by (simp_all add: two_lists_def dll_def)

text \<open>
  Moving an entry from a list to another list unlinks it from the first, links it
  in front of the second, and leaves both well linked: the traversals of the two visit what
  they should, forwards and backwards.
\<close>

lemma list_move_between:
  assumes "dll h a (xs @ e # ys)" "dll h b zs" "set (a # xs @ e # ys) \<inter> set (b # zs) = {}"
  shows "list_for_each_entry (list_move h e b) a = Some (xs @ ys) \<and>
    list_for_each_prev (list_move h e b) a = Some (rev (xs @ ys)) \<and>
    list_for_each_entry (list_move h e b) b = Some (e # zs) \<and>
    list_for_each_prev (list_move h e b) b = Some (rev (e # zs))"
  using dll_list_move[OF assms] by (simp only: dll_for_each_entry dll_for_each_prev)

lemma list_move_between_witness:
  "list_for_each_entry (list_move two_lists 2 200) 100 = Some [1, 3] \<and>
   list_for_each_entry (list_move two_lists 2 200) 200 = Some [2, 7]"
  using list_move_between[of two_lists 100 "[1]" 2 "[3]" 200 "[7]"] two_lists_dll by simp

text \<open>
  Cutting a list after one of its entries moves the entries up to it to the new
  head, and splicing them back gives the list that was cut.
\<close>

lemma list_cut_splice:
  assumes "dll h head (xs @ e # ys)" "l \<notin> set (head # xs @ e # ys)"
  shows "dll (list_cut_position h l head e) l (xs @ [e]) \<and>
    dll (list_cut_position h l head e) head ys \<and>
    dll (list_splice_init (list_cut_position h l head e) l head) head (xs @ e # ys) \<and>
    dll (list_splice_init (list_cut_position h l head e) l head) l []"
proof -
  note cut = dll_list_cut_position[OF assms]
  have "set (l # xs @ [e]) \<inter> set (head # ys) = {}"
    using assms(2) dll_distinct[OF assms(1)] by auto
  from dll_list_splice_init[OF cut this] cut show ?thesis by simp
qed

lemma list_cut_splice_witness:
  "dll (list_cut_position two_lists 300 100 2) 300 [1, 2] \<and>
   dll (list_splice_init (list_cut_position two_lists 300 100 2) 300 100) 100 [1, 2, 3]"
  using list_cut_splice[of two_lists 100 "[1]" 2 "[3]" 300] two_lists_dll(1) by simp

end
