(* ===== verification/List_Traversal.thy ===== *)
theory List_Traversal
  imports List_Head
begin

text \<open>
  The traversal macros of \<^verbatim>\<open>include/list.h\<close> with the loop body as an argument: a body works on
  the store of cells and on a state of the client, and may unlink, insert or move entries while
  the macro walks. The macros on structures (\<^verbatim>\<open>list_for_each_entry\<close> and its kin) are the ones on
  cells: \<^verbatim>\<open>list_entry\<close> goes from a cell to the structure around it and \<^verbatim>\<open>&pos->member\<close> back, so
  that the cursor here is the cell. A loop that does not end is \<^term>\<open>None\<close>.
\<close>

section \<open>The loops\<close>

text \<open>
  \<^verbatim>\<open>for (...; pos != head; pos = step(pos))\<close>, where \<open>step\<close> reads the pointer to the next or the
  previous cell when the body is through.
\<close>

partial_function (option) for_cursor ::
    "(list_mem \<Rightarrow> addr \<Rightarrow> addr) \<Rightarrow> (addr \<Rightarrow> list_mem \<times> 'c \<Rightarrow> list_mem \<times> 'c) \<Rightarrow> addr \<Rightarrow> addr \<Rightarrow>
     list_mem \<times> 'c \<Rightarrow> (list_mem \<times> 'c) option" where
  "for_cursor step body head pos s =
     (if pos = head then Some s
      else (let s' = body pos s in for_cursor step body head (step (fst s') pos) s'))"

declare for_cursor.simps [code]

text \<open>
  The loops with a second cursor \<open>n\<close>, read before the body runs: \<^verbatim>\<open>pos = n, n = step(n)\<close>. The
  body gets \<open>n\<close> and may set it.
\<close>

partial_function (option) for_safe ::
    "(list_mem \<Rightarrow> addr \<Rightarrow> addr) \<Rightarrow> (addr \<Rightarrow> addr \<Rightarrow> list_mem \<times> 'c \<Rightarrow> (list_mem \<times> 'c) \<times> addr) \<Rightarrow>
     addr \<Rightarrow> addr \<Rightarrow> addr \<Rightarrow> list_mem \<times> 'c \<Rightarrow> (list_mem \<times> 'c) option" where
  "for_safe step body head pos n s =
     (if pos = head then Some s
      else (let (s', n') = body pos n s in for_safe step body head n' (step (fst s') n') s'))"

declare for_safe.simps [code]

section \<open>The macros\<close>

type_synonym 'c body = "addr \<Rightarrow> list_mem \<times> 'c \<Rightarrow> list_mem \<times> 'c"
type_synonym 'c safe_body = "addr \<Rightarrow> addr \<Rightarrow> list_mem \<times> 'c \<Rightarrow> (list_mem \<times> 'c) \<times> addr"

definition list_for_each_do :: "addr \<Rightarrow> 'c body \<Rightarrow> list_mem \<times> 'c \<Rightarrow> (list_mem \<times> 'c) option" where
  "list_for_each_do head body s = for_cursor next_of body head (next_of (fst s) head) s"

definition list_for_each_prev_do :: "addr \<Rightarrow> 'c body \<Rightarrow> list_mem \<times> 'c \<Rightarrow> (list_mem \<times> 'c) option" where
  "list_for_each_prev_do head body s = for_cursor prev_of body head (prev_of (fst s) head) s"

definition list_for_each_safe ::
    "addr \<Rightarrow> 'c safe_body \<Rightarrow> list_mem \<times> 'c \<Rightarrow> (list_mem \<times> 'c) option" where
  "list_for_each_safe head body s =
     (let pos = next_of (fst s) head; n = next_of (fst s) pos
      in for_safe next_of body head pos n s)"

definition list_for_each_prev_safe ::
    "addr \<Rightarrow> 'c safe_body \<Rightarrow> list_mem \<times> 'c \<Rightarrow> (list_mem \<times> 'c) option" where
  "list_for_each_prev_safe head body s =
     (let pos = prev_of (fst s) head; n = prev_of (fst s) pos
      in for_safe prev_of body head pos n s)"

definition list_for_each_entry_do ::
    "addr \<Rightarrow> 'c body \<Rightarrow> list_mem \<times> 'c \<Rightarrow> (list_mem \<times> 'c) option" where
  "list_for_each_entry_do head body s = for_cursor next_of body head (next_of (fst s) head) s"

definition list_for_each_entry_reverse ::
    "addr \<Rightarrow> 'c body \<Rightarrow> list_mem \<times> 'c \<Rightarrow> (list_mem \<times> 'c) option" where
  "list_for_each_entry_reverse head body s = for_cursor prev_of body head (prev_of (fst s) head) s"

text \<open>The null pointer to an entry is \<^term>\<open>None\<close>, whatever the offset of its member.\<close>

definition list_prepare_entry :: "addr option \<Rightarrow> addr \<Rightarrow> addr" where
  "list_prepare_entry pos head = (case pos of Some p \<Rightarrow> p | None \<Rightarrow> head)"

definition list_for_each_entry_continue ::
    "addr \<Rightarrow> addr \<Rightarrow> 'c body \<Rightarrow> list_mem \<times> 'c \<Rightarrow> (list_mem \<times> 'c) option" where
  "list_for_each_entry_continue pos head body s =
     for_cursor next_of body head (next_of (fst s) pos) s"

definition list_for_each_entry_continue_reverse ::
    "addr \<Rightarrow> addr \<Rightarrow> 'c body \<Rightarrow> list_mem \<times> 'c \<Rightarrow> (list_mem \<times> 'c) option" where
  "list_for_each_entry_continue_reverse pos head body s =
     for_cursor prev_of body head (prev_of (fst s) pos) s"

definition list_for_each_entry_from ::
    "addr \<Rightarrow> addr \<Rightarrow> 'c body \<Rightarrow> list_mem \<times> 'c \<Rightarrow> (list_mem \<times> 'c) option" where
  "list_for_each_entry_from pos head body s = for_cursor next_of body head pos s"

definition list_for_each_entry_safe ::
    "addr \<Rightarrow> 'c safe_body \<Rightarrow> list_mem \<times> 'c \<Rightarrow> (list_mem \<times> 'c) option" where
  "list_for_each_entry_safe head body s =
     (let pos = next_of (fst s) head; n = next_of (fst s) pos
      in for_safe next_of body head pos n s)"

definition list_for_each_entry_safe_continue ::
    "addr \<Rightarrow> addr \<Rightarrow> 'c safe_body \<Rightarrow> list_mem \<times> 'c \<Rightarrow> (list_mem \<times> 'c) option" where
  "list_for_each_entry_safe_continue pos0 head body s =
     (let pos = next_of (fst s) pos0; n = next_of (fst s) pos
      in for_safe next_of body head pos n s)"

definition list_for_each_entry_safe_from ::
    "addr \<Rightarrow> addr \<Rightarrow> 'c safe_body \<Rightarrow> list_mem \<times> 'c \<Rightarrow> (list_mem \<times> 'c) option" where
  "list_for_each_entry_safe_from pos head body s =
     (let n = next_of (fst s) pos in for_safe next_of body head pos n s)"

definition list_for_each_entry_safe_reverse ::
    "addr \<Rightarrow> 'c safe_body \<Rightarrow> list_mem \<times> 'c \<Rightarrow> (list_mem \<times> 'c) option" where
  "list_for_each_entry_safe_reverse head body s =
     (let pos = prev_of (fst s) head; n = prev_of (fst s) pos
      in for_safe prev_of body head pos n s)"

definition list_safe_reset_next :: "list_mem \<Rightarrow> addr \<Rightarrow> addr" where
  "list_safe_reset_next h pos = next_of h pos"


section \<open>Directions\<close>

text \<open>
  What a walk relies on, forwards and backwards: a list seen in the order of the walk, and the
  pointer read at the head and at an entry.
\<close>

locale walk_dir =
  fixes step :: "list_mem \<Rightarrow> addr \<Rightarrow> addr" and view :: "list_mem \<Rightarrow> addr \<Rightarrow> addr list \<Rightarrow> bool"
  assumes view_distinct: "view h a xs \<Longrightarrow> distinct (a # xs)"
    and step_head: "view h a xs \<Longrightarrow> step h a = hd (xs @ [a])"
    and step_entry: "view h a (zs @ x # ys) \<Longrightarrow> step h x = hd (ys @ [a])"
begin

text \<open>
  A body that keeps the entry it is at and those to come is run once for each of them, in
  order, and the loop ends.
\<close>

lemma for_cursor_fold:
  assumes keep: "\<And>s x zs ys. view (fst s) a (zs @ x # ys) \<Longrightarrow> \<exists>zs'. view (fst (f x s)) a (zs' @ x # ys)"
    and "view (fst s) a (zs @ ys)"
  shows "for_cursor step f a (hd (ys @ [a])) s = Some (fold f ys s)"
  using assms(2)
proof (induction ys arbitrary: s zs)
  case Nil
  then show ?case by (subst for_cursor.simps) simp
next
  case (Cons x ys)
  obtain zs' where v: "view (fst (f x s)) a (zs' @ x # ys)"
    using keep[OF Cons.prems] by blast
  then have "step (fst (f x s)) x = hd (ys @ [a])"
    by (rule step_entry)
  moreover have "x \<noteq> a"
    using view_distinct[OF Cons.prems] by auto
  moreover have "view (fst (f x s)) a ((zs' @ [x]) @ ys)"
    using v by simp
  note Cons.IH[OF this]
  ultimately show ?case
    by (subst for_cursor.simps) (simp add: Let_def)
qed

text \<open>With the second cursor it is enough that the body keeps the entries to come.\<close>

lemma for_safe_fold:
  assumes keep: "\<And>s x zs ys. view (fst s) a (zs @ x # ys) \<Longrightarrow> \<exists>zs'. view (fst (f x s)) a (zs' @ ys)"
    and "view (fst s) a (zs @ ys)"
  shows "for_safe step (\<lambda>pos n s. (f pos s, n)) a (hd (ys @ [a])) (step (fst s) (hd (ys @ [a]))) s =
    Some (fold f ys s)"
  using assms(2)
proof (induction ys arbitrary: s zs)
  case Nil
  then show ?case by (subst for_safe.simps) simp
next
  case (Cons x ys)
  obtain zs' where v: "view (fst (f x s)) a (zs' @ ys)"
    using keep[OF Cons.prems] by blast
  have "step (fst s) x = hd (ys @ [a])"
    using Cons.prems by (rule step_entry)
  moreover have "x \<noteq> a"
    using view_distinct[OF Cons.prems] by auto
  ultimately show ?case
    using Cons.IH[OF v] by (subst for_safe.simps) simp
qed

text \<open>A body that unlinks every entry it is at leaves what comes before the walk.\<close>

lemma for_safe_unlinks:
  assumes unlink: "\<And>s x zs ys. view (fst s) a (zs @ x # ys) \<Longrightarrow> view (fst (f x s)) a (zs @ ys)"
    and "view (fst s) a (zs @ ys)"
  shows "view (fst (fold f ys s)) a zs"
  using assms(2)
proof (induction ys arbitrary: s)
  case (Cons x ys)
  then show ?case using unlink by simp
qed simp

lemma safe_from_head:
  assumes "\<And>s x zs ys. view (fst s) a (zs @ x # ys) \<Longrightarrow> \<exists>zs'. view (fst (f x s)) a (zs' @ ys)"
    and "view (fst s) a ys"
  shows "for_safe step (\<lambda>pos n s. (f pos s, n)) a (step (fst s) a) (step (fst s) (step (fst s) a)) s =
    Some (fold f ys s)"
  using for_safe_fold[where s = s and f = f and zs = "[]" and ys = ys, OF assms(1)] assms(2) step_head[OF assms(2)] by simp

lemma cursor_from_head:
  assumes "\<And>s x zs ys. view (fst s) a (zs @ x # ys) \<Longrightarrow> \<exists>zs'. view (fst (f x s)) a (zs' @ x # ys)"
    and "view (fst s) a ys"
  shows "for_cursor step f a (step (fst s) a) s = Some (fold f ys s)"
  using for_cursor_fold[where s = s and f = f and zs = "[]" and ys = ys, OF assms(1)] assms(2) step_head[OF assms(2)] by simp

end

interpretation fwd: walk_dir next_of dll
  by unfold_locales (auto simp: dll_def dest: dll_head_next dll_next linked_first)

lemma dll_rev_entry: "dll h a (rev (zs @ x # ys)) \<Longrightarrow> prev_of h x = hd (ys @ [a])"
  using dll_prev[of h a "rev ys" x "rev zs"] by (cases ys) auto

lemma dll_rev_head: "dll h a (rev xs) \<Longrightarrow> prev_of h a = hd (xs @ [a])"
  using dll_head_prev[of h a "rev xs"] by (cases xs) auto

interpretation bwd: walk_dir prev_of "\<lambda>h a xs. dll h a (rev xs)"
  by unfold_locales (auto simp: dll_rev_entry dll_rev_head dest: dll_distinct)

section \<open>Bodies\<close>

text \<open>A body that keeps the list, and one that may unlink the entry it is at.\<close>

definition keeps_list :: "addr \<Rightarrow> 'c body \<Rightarrow> bool" where
  "keeps_list head f \<longleftrightarrow>
     (\<forall>s xs x. dll (fst s) head xs \<longrightarrow> x \<in> set xs \<longrightarrow> dll (fst (f x s)) head xs)"

definition at_most_unlinks :: "addr \<Rightarrow> 'c body \<Rightarrow> bool" where
  "at_most_unlinks head f \<longleftrightarrow>
     (\<forall>s xs x ys. dll (fst s) head (xs @ x # ys) \<longrightarrow>
        dll (fst (f x s)) head (xs @ x # ys) \<or> dll (fst (f x s)) head (xs @ ys))"

lemma keeps_cursor:
  assumes "keeps_list head f"
  shows "dll (fst s) head (zs @ x # ys) \<Longrightarrow> \<exists>zs'. dll (fst (f x s)) head (zs' @ x # ys)"
    "dll (fst s) head (rev (zs @ x # ys)) \<Longrightarrow> \<exists>zs'. dll (fst (f x s)) head (rev (zs' @ x # ys))"
proof -
  assume d: "dll (fst s) head (zs @ x # ys)"
  then have "dll (fst (f x s)) head (zs @ x # ys)"
    using assms unfolding keeps_list_def by (metis in_set_conv_decomp)
  then show "\<exists>zs'. dll (fst (f x s)) head (zs' @ x # ys)" by blast
next
  assume d: "dll (fst s) head (rev (zs @ x # ys))"
  moreover have "x \<in> set (rev (zs @ x # ys))" by simp
  ultimately have "dll (fst (f x s)) head (rev (zs @ x # ys))"
    using assms unfolding keeps_list_def by blast
  then show "\<exists>zs'. dll (fst (f x s)) head (rev (zs' @ x # ys))" by blast
qed

lemma unlinks_safe:
  assumes "at_most_unlinks head f"
  shows "dll (fst s) head (zs @ x # ys) \<Longrightarrow> \<exists>zs'. dll (fst (f x s)) head (zs' @ ys)"
    "dll (fst s) head (rev (zs @ x # ys)) \<Longrightarrow> \<exists>zs'. dll (fst (f x s)) head (rev (zs' @ ys))"
proof -
  assume "dll (fst s) head (zs @ x # ys)"
  then have "dll (fst (f x s)) head (zs @ x # ys) \<or> dll (fst (f x s)) head (zs @ ys)"
    using assms unfolding at_most_unlinks_def by blast
  then have "dll (fst (f x s)) head ((zs @ [x]) @ ys) \<or> dll (fst (f x s)) head (zs @ ys)"
    by simp
  then show "\<exists>zs'. dll (fst (f x s)) head (zs' @ ys)" by blast
next
  assume "dll (fst s) head (rev (zs @ x # ys))"
  then have "dll (fst s) head (rev ys @ x # rev zs)" by simp
  then have "dll (fst (f x s)) head (rev ys @ x # rev zs) \<or> dll (fst (f x s)) head (rev ys @ rev zs)"
    using assms unfolding at_most_unlinks_def by blast
  then have "dll (fst (f x s)) head (rev ((zs @ [x]) @ ys)) \<or> dll (fst (f x s)) head (rev (zs @ ys))"
    by simp
  then show "\<exists>zs'. dll (fst (f x s)) head (rev (zs' @ ys))" by blast
qed

text \<open>The traversals that start at the head, and those that start at an entry.\<close>

lemma plain_traversals:
  assumes "dll (fst s) head xs" "keeps_list head f"
  shows "list_for_each_do head f s = Some (fold f xs s)"
    "list_for_each_prev_do head f s = Some (fold f (rev xs) s)"
    "list_for_each_entry_do head f s = Some (fold f xs s)"
    "list_for_each_entry_reverse head f s = Some (fold f (rev xs) s)"
  using fwd.cursor_from_head[OF keeps_cursor(1)[OF assms(2)] assms(1)]
    bwd.cursor_from_head[where s = s and f = f and ys = "rev xs", OF keeps_cursor(2)[OF assms(2)]] assms(1)
  by (simp_all add: list_for_each_do_def list_for_each_prev_do_def list_for_each_entry_do_def
      list_for_each_entry_reverse_def)

lemma plain_traversals_from:
  assumes "dll (fst s) head (xs @ e # ys)" "keeps_list head f"
  shows "list_for_each_entry_continue e head f s = Some (fold f ys s)"
    "list_for_each_entry_continue_reverse e head f s = Some (fold f (rev xs) s)"
    "list_for_each_entry_from e head f s = Some (fold f (e # ys) s)"
proof -
  have "dll (fst s) head ((xs @ [e]) @ ys)" using assms(1) by simp
  from fwd.for_cursor_fold[OF keeps_cursor(1)[OF assms(2)] this]
  show "list_for_each_entry_continue e head f s = Some (fold f ys s)"
    using fwd.step_entry[OF assms(1)] by (simp add: list_for_each_entry_continue_def)
  have r: "dll (fst s) head (rev ((rev ys @ [e]) @ rev xs))" using assms(1) by simp
  have "prev_of (fst s) e = hd (rev xs @ [head])"
    using bwd.step_entry[of "fst s" head "rev ys" e "rev xs"] assms(1) by simp
  then show "list_for_each_entry_continue_reverse e head f s = Some (fold f (rev xs) s)"
    using bwd.for_cursor_fold[OF keeps_cursor(2)[OF assms(2)] r]
    by (simp add: list_for_each_entry_continue_reverse_def)
  show "list_for_each_entry_from e head f s = Some (fold f (e # ys) s)"
    using fwd.for_cursor_fold[OF keeps_cursor(1)[OF assms(2)] assms(1)]
    by (simp add: list_for_each_entry_from_def)
qed

text \<open>Starting from a null cursor is starting at the head.\<close>

lemma prepared_continue:
  "list_for_each_entry_continue (list_prepare_entry None head) head f s = list_for_each_entry_do head f s"
  by (simp add: list_for_each_entry_continue_def list_prepare_entry_def list_for_each_entry_do_def)

lemma safe_traversals_from:
  assumes "dll (fst s) head (xs @ e # ys)" "at_most_unlinks head f"
  shows "list_for_each_entry_safe_continue e head (\<lambda>pos n s. (f pos s, n)) s = Some (fold f ys s)"
    "list_for_each_entry_safe_from e head (\<lambda>pos n s. (f pos s, n)) s = Some (fold f (e # ys) s)"
proof -
  have "dll (fst s) head ((xs @ [e]) @ ys)" using assms(1) by simp
  from fwd.for_safe_fold[OF unlinks_safe(1)[OF assms(2)] this]
  show "list_for_each_entry_safe_continue e head (\<lambda>pos n s. (f pos s, n)) s = Some (fold f ys s)"
    using fwd.step_entry[OF assms(1)] by (simp add: list_for_each_entry_safe_continue_def)
  show "list_for_each_entry_safe_from e head (\<lambda>pos n s. (f pos s, n)) s = Some (fold f (e # ys) s)"
    using fwd.for_safe_fold[OF unlinks_safe(1)[OF assms(2)] assms(1)]
    by (simp add: list_for_each_entry_safe_from_def)
qed


lemma safe_traversals:
  assumes "dll (fst s) head xs" "at_most_unlinks head f"
  shows "list_for_each_safe head (\<lambda>pos n s. (f pos s, n)) s = Some (fold f xs s)"
    "list_for_each_entry_safe head (\<lambda>pos n s. (f pos s, n)) s = Some (fold f xs s)"
    "list_for_each_prev_safe head (\<lambda>pos n s. (f pos s, n)) s = Some (fold f (rev xs) s)"
    "list_for_each_entry_safe_reverse head (\<lambda>pos n s. (f pos s, n)) s = Some (fold f (rev xs) s)"
  using fwd.safe_from_head[OF unlinks_safe(1)[OF assms(2)] assms(1)]
    bwd.safe_from_head[where s = s and f = f and ys = "rev xs", OF unlinks_safe(2)[OF assms(2)]] assms(1)
  by (simp_all add: list_for_each_safe_def list_for_each_entry_safe_def list_for_each_prev_safe_def
      list_for_each_entry_safe_reverse_def Let_def)

text \<open>A loop whose cursor never gets to the head does not end.\<close>

lemma for_cursor_closed:
  assumes closed: "\<And>pos s. P pos s \<Longrightarrow> pos \<noteq> head \<and> P (step (fst (f pos s)) pos) (f pos s)"
    and "P pos s"
  shows "for_cursor step f head pos s = None"
proof (rule ccontr)
  assume "for_cursor step f head pos s \<noteq> None"
  then obtain r where "for_cursor step f head pos s = Some r" by blast
  note r = this
  have "step = step \<longrightarrow> f = f \<longrightarrow> head = head \<longrightarrow> \<not> P pos s"
  proof (rule for_cursor.raw_induct
      [where P = "\<lambda>step' f' hd' p s r. step' = step \<longrightarrow> f' = f \<longrightarrow> hd' = head \<longrightarrow> \<not> P p s", OF _ r])
    fix loop :: "(list_mem \<Rightarrow> addr \<Rightarrow> addr) \<Rightarrow> 'a body \<Rightarrow> addr \<Rightarrow> addr \<Rightarrow> list_mem \<times> 'a \<Rightarrow>
        (list_mem \<times> 'a) option"
      and step' f' hd' p s r
    assume IH: "\<And>step' f' hd' p s r. loop step' f' hd' p s = Some r \<Longrightarrow>
        step' = step \<longrightarrow> f' = f \<longrightarrow> hd' = head \<longrightarrow> \<not> P p s"
      and it: "(if p = hd' then Some s
        else let s' = f' p s in loop step' f' hd' (step' (fst s') p) s') = Some r"
    show "step' = step \<longrightarrow> f' = f \<longrightarrow> hd' = head \<longrightarrow> \<not> P p s"
      using it IH[of step f head "step (fst (f p s)) p" "f p s" r] closed[of p s]
      by (auto simp: Let_def)
  qed
  then show False using assms(2) by simp
qed

definition unlink_each :: "(list_mem \<Rightarrow> addr \<Rightarrow> list_mem) \<Rightarrow> addr list body" where
  "unlink_each del pos s = (del (fst s) pos, snd s @ [pos])"

lemma unlink_each_fold:
  "snd (fold (unlink_each del) xs s) = snd s @ xs"
  by (induction xs arbitrary: s) (simp_all add: unlink_each_def)

lemma del_unlinks: "at_most_unlinks head (unlink_each list_del)"
  by (simp add: at_most_unlinks_def unlink_each_def dll_list_del)

lemma plain_del_init_stuck:
  assumes "x \<noteq> head"
  shows "for_cursor next_of (unlink_each list_del_init) head x s = None"
proof -
  let ?P = "\<lambda>pos s :: list_mem \<times> addr list. pos = x"
  have "next_of (list_del_init h x) x = x" for h
    by (simp add: list_del_init_def INIT_LIST_HEAD_def Let_def)
  then show ?thesis
    by (intro for_cursor_closed[where P = ?P]) (auto simp: unlink_each_def assms)
qed

text \<open>A cursor reset in the body goes on with what the body put behind the entry.\<close>

lemma reset_next_inserted:
  "n \<noteq> pos \<Longrightarrow> list_safe_reset_next (list_add h n pos) pos = n"
  by (simp add: list_safe_reset_next_def list_add_def raw_list_add_def Let_def)

section \<open>Properties\<close>

text \<open>
  C24: a traversal with the second cursor ends whatever its body does to the entry it is
  at, as long as it does no more to the list than unlinking that entry: the body runs once for
  each entry the list had, in order (backwards for the reverse macros), and the loop is done.
\<close>

theorem list_safe_traversals_end:
  assumes "dll (fst s) head xs" "at_most_unlinks head f"
  shows "list_for_each_safe head (\<lambda>pos n s. (f pos s, n)) s = Some (fold f xs s) \<and>
    list_for_each_entry_safe head (\<lambda>pos n s. (f pos s, n)) s = Some (fold f xs s) \<and>
    list_for_each_prev_safe head (\<lambda>pos n s. (f pos s, n)) s = Some (fold f (rev xs) s) \<and>
    list_for_each_entry_safe_reverse head (\<lambda>pos n s. (f pos s, n)) s = Some (fold f (rev xs) s)"
  using safe_traversals[OF assms] by simp

theorem list_safe_traversals_end_witness:
  "list_for_each_entry_safe 100 (\<lambda>pos n s. (unlink_each list_del pos s, n)) (two_lists, []) =
     Some (fold (unlink_each list_del) [1, 2, 3] (two_lists, []))"
  using list_safe_traversals_end[of "(two_lists, [])" 100 "[1, 2, 3]" "unlink_each list_del"]
    two_lists_dll(1) del_unlinks by simp

text \<open>
  Why the second cursor is needed. Deleting every entry with the safe macros visits
  them all and leaves the list empty. With the plain macros the entry just unlinked is where
  the walk goes on: after \<^verbatim>\<open>list_del\<close> at the poison of its next pointer, and after
  \<^verbatim>\<open>list_del_init\<close> at the entry itself, for ever.
\<close>

lemma list_delete_all:
  assumes "dll h head (x # xs)"
  shows "(\<exists>h'. list_for_each_entry_safe head (\<lambda>pos n s. (unlink_each list_del pos s, n)) (h, []) =
      Some (h', x # xs) \<and> dll h' head []) \<and>
    (\<exists>h'. list_for_each_entry_safe_reverse head (\<lambda>pos n s. (unlink_each list_del pos s, n)) (h, []) =
      Some (h', rev (x # xs)) \<and> dll h' head []) \<and>
    list_for_each_entry_do head (unlink_each list_del) (h, []) =
      for_cursor next_of (unlink_each list_del) head LIST_POISON1 (list_del h x, [x]) \<and>
    list_for_each_entry_do head (unlink_each list_del_init) (h, []) = None"
proof -
  have "x \<noteq> head" and nx: "next_of h head = x"
    using assms by (auto simp: dll_def)
  have f: "dll (fst (fold (unlink_each list_del) (x # xs) (h, []))) head []"
    by (rule fwd.for_safe_unlinks) (use assms in \<open>simp_all add: unlink_each_def dll_list_del\<close>)
  have b: "dll (fst (fold (unlink_each list_del) (rev (x # xs)) (h, []))) head []"
    using bwd.for_safe_unlinks[where f = "unlink_each list_del" and zs = "[]" and ys = "rev (x # xs)"
        and s = "(h, [])" and a = head] assms
    by (simp add: unlink_each_def dll_list_del)
  have "next_of (list_del h x) x = LIST_POISON1"
    by (simp add: list_del_def Let_def)
  then have "list_for_each_entry_do head (unlink_each list_del) (h, []) =
      for_cursor next_of (unlink_each list_del) head LIST_POISON1 (list_del h x, [x])"
    using \<open>x \<noteq> head\<close> nx
    by (simp add: list_for_each_entry_do_def for_cursor.simps[of _ _ _ x] unlink_each_def Let_def)
  moreover have "list_for_each_entry_do head (unlink_each list_del_init) (h, []) = None"
    using plain_del_init_stuck[OF \<open>x \<noteq> head\<close>] nx by (simp add: list_for_each_entry_do_def)
  moreover note safe_traversals[OF _ del_unlinks, of "(h, [])", unfolded fst_conv, OF assms]
  ultimately show ?thesis
    using f b unlink_each_fold[of list_del "x # xs" "(h, [])"]
      unlink_each_fold[of list_del "rev (x # xs)" "(h, [])"]
    by (auto simp: prod_eq_iff simp del: fold.simps rev.simps)
qed

lemma list_delete_all_witness:
  "list_for_each_entry_do 100 (unlink_each list_del_init) (two_lists, []) = None \<and>
   (\<exists>h'. list_for_each_entry_safe 100 (\<lambda>pos n s. (unlink_each list_del pos s, n)) (two_lists, []) =
      Some (h', [1, 2, 3]) \<and> dll h' 100 [])"
  using list_delete_all[OF two_lists_dll(1)] by blast

end
