(* ===== verification/Lininoio_Proto.thy ===== *)
theory Lininoio_Proto
  imports Prelude
begin

text \<open>
  The lininoio protocol, \<^verbatim>\<open>include/lininoio.h\<close>, and the table of its protocol handlers,
  \<^verbatim>\<open>util/lininoio.c\<close>: the channel descriptors, the word that holds a channel and a data
  length, the packets as they lie in the receive buffer, and the lookup that loads a handler
  on its first use.
\<close>

section \<open>Constants\<close>

definition LININOIO_PACKET_AREQUEST :: u8 where "LININOIO_PACKET_AREQUEST = 1"
definition LININOIO_PACKET_AREPLY :: u8 where "LININOIO_PACKET_AREPLY = 2"
definition LININOIO_PACKET_DATA :: u8 where "LININOIO_PACKET_DATA = 3"
definition LININOIO_PROTO_MCUIO_V0 :: u16 where "LININOIO_PROTO_MCUIO_V0 = 1"
definition LININOIO_PROTO_CONSOLE :: u16 where "LININOIO_PROTO_CONSOLE = 2"
definition LININOIO_MAX_NCHANNELS :: nat where "LININOIO_MAX_NCHANNELS = 16"
definition LININOIO_MAX_NCORES :: nat where "LININOIO_MAX_NCORES = 8"
definition LININOIO_N_PROTOS :: nat where "LININOIO_N_PROTOS = 2 ^ 13"

section \<open>Descriptors and lengths\<close>

definition lininoio_cdescr_to_core_id :: "u16 \<Rightarrow> u8" where
  "lininoio_cdescr_to_core_id chan_descr = ucast (drop_bit 13 chan_descr)"

definition lininoio_cdescr_to_proto_id :: "u16 \<Rightarrow> u16" where
  "lininoio_cdescr_to_proto_id chan_descr = chan_descr AND 0x1fff"

text \<open>The length, and the channel written through the pointer, when there is one.\<close>

definition lininoio_decode_cdlen :: "u16 \<Rightarrow> u16 \<times> u8" where
  "lininoio_decode_cdlen cdlen = (cdlen AND 0xfff, ucast (drop_bit 12 cdlen))"

definition lininoio_encode_cdlen :: "u16 \<Rightarrow> u8 \<Rightarrow> u16" where
  "lininoio_encode_cdlen dlen chan_id = push_bit 12 (ucast chan_id) OR (dlen AND 0xfff)"

section \<open>Packets\<close>

text \<open>
  A packet is read through a pointer into the receive buffer; the structures are packed. The
  16-bit fields are little endian, and so is the host (\<open>le16toh\<close> is the identity there).
\<close>

definition le16 :: "u8 list \<Rightarrow> nat \<Rightarrow> u16 option" where
  "le16 buf i =
     Option.bind (array_get buf i) (\<lambda>lo. Option.bind (array_get buf (Suc i)) (\<lambda>hi.
       Some (ucast lo OR push_bit 8 (ucast hi))))"

definition packet_type :: "u8 list \<Rightarrow> u8 option" where
  "packet_type buf = array_get buf 0"

definition areq_slave_name :: "u8 list \<Rightarrow> u8 list" where
  "areq_slave_name buf = take 16 (drop 1 buf)"

definition areq_nchannels :: "u8 list \<Rightarrow> u8 option" where
  "areq_nchannels buf = array_get buf 17"

definition areq_chan_descr :: "u8 list \<Rightarrow> nat \<Rightarrow> u16 option" where
  "areq_chan_descr buf i = le16 buf (18 + 2 * i)"

definition data_cdlen :: "u8 list \<Rightarrow> u16 option" where
  "data_cdlen buf = le16 buf 1"

definition data_data :: "u8 list \<Rightarrow> u8 list" where
  "data_data buf = drop 3 buf"

section \<open>The table of protocol handlers\<close>

text \<open>
  The table (\<^term>\<open>None\<close> before \<open>lininoio_init\<close>) holds the addresses of the operations of each
  protocol, 0 where there are none. \<open>load\<close> loads the handler of a protocol: the address of its
  operations, or no address when there is no such handler (\<^term>\<open>None\<close> is undefined
  behaviour of the loading).
\<close>

type_synonym ops_table = "addr list option"

definition lininoio_init :: "bool \<Rightarrow> int \<times> ops_table" where
  "lininoio_init alloc =
     (if alloc then (0, Some (replicate (2 ^ 13) 0)) else (- 1, None))"

definition lininoio_find_proto_ops ::
    "(u16 \<Rightarrow> 'p \<Rightarrow> (addr option \<times> 'p) option) \<Rightarrow> u16 \<Rightarrow> ops_table \<Rightarrow> 'p \<Rightarrow> (addr \<times> ops_table \<times> 'p) option" where
  "lininoio_find_proto_ops load proto_id tab w =
     (case tab of
        None \<Rightarrow> Some (0, tab, w)
      | Some ops \<Rightarrow>
          if LININOIO_N_PROTOS \<le> unat proto_id then Some (0, tab, w)
          else
            Option.bind (array_get ops (unat proto_id)) (\<lambda>o1.
              if o1 = 0
              then
                Option.bind (load proto_id w) (\<lambda>(h, w').
                  case h of
                    None \<Rightarrow> Some (0, tab, w')
                  | Some h_ops \<Rightarrow>
                      Option.bind (array_set ops (unat proto_id) h_ops) (\<lambda>ops'.
                        Some (h_ops, Some ops', w')))
              else Some (o1, tab, w)))"

definition lininoio_register_proto_handler :: "u16 \<Rightarrow> addr \<Rightarrow> ops_table \<Rightarrow> (int \<times> ops_table) option" where
  "lininoio_register_proto_handler proto_id h_ops tab =
     (case tab of
        None \<Rightarrow> Some (- 1, tab)
      | Some ops \<Rightarrow>
          if LININOIO_N_PROTOS \<le> unat proto_id then Some (- 1, tab)
          else Option.bind (array_set ops (unat proto_id) h_ops) (\<lambda>ops'. Some (0, Some ops')))"

text \<open>\<open>send\<close> is the node's function behind the pointer \<open>send_packet\<close>.\<close>

definition lininoio_send_packet ::
    "(addr \<Rightarrow> u8 list \<Rightarrow> 'w \<Rightarrow> int \<times> 'w) \<Rightarrow> ops_table \<Rightarrow> addr \<Rightarrow> u8 list \<Rightarrow> 'w \<Rightarrow> int \<times> 'w" where
  "lininoio_send_packet send tab send_packet packet w =
     (if tab = None then (- 1, w)
      else if send_packet = 0 then (- 1, w)
      else send send_packet packet w)"

section \<open>The codecs\<close>

lemma unat_drop_bit_u16: "unat (drop_bit n x) = unat x div 2 ^ n" for x :: u16
  by (simp add: unat_drop_bit_eq drop_bit_nat_def)

lemma unat_ucast_u8: "unat y < 256 \<Longrightarrow> unat (ucast y :: u8) = unat y" for y :: u16
  by (simp add: unsigned_ucast_eq take_bit_nat_eq_self)

lemma core_id_nat: "unat (lininoio_cdescr_to_core_id d) = unat d div 8192"
proof -
  have "unat d div 8192 < 256"
    by (rule less_mult_imp_div_less) (use unat_u16_less[of d] in linarith)
  then have "unat (drop_bit 13 d) < 256"
    by (simp add: unat_drop_bit_u16)
  then show ?thesis
    by (simp add: lininoio_cdescr_to_core_id_def unat_ucast_u8 unat_drop_bit_u16)
qed

lemma proto_id_nat: "unat (lininoio_cdescr_to_proto_id d) = unat d mod 8192"
  using unat_and_mask[of 8192 13 d] by (simp add: lininoio_cdescr_to_proto_id_def)

lemma decode_len_nat: "unat (fst (lininoio_decode_cdlen x)) = unat x mod 4096"
  using unat_and_mask[of 4096 12 x] by (simp add: lininoio_decode_cdlen_def)

lemma decode_id_nat: "unat (snd (lininoio_decode_cdlen x)) = unat x div 4096"
proof -
  have "unat x div 4096 < 256"
    by (rule less_mult_imp_div_less) (use unat_u16_less[of x] in linarith)
  then have "unat (drop_bit 12 x) < 256"
    by (simp add: unat_drop_bit_u16)
  then show ?thesis
    by (simp add: lininoio_decode_cdlen_def unat_ucast_u8 unat_drop_bit_u16)
qed

lemma masks: "(0xfff :: u16) = mask 12" "(0xf :: u8) = mask 4"
  by (simp_all add: mask_eq_exp_minus_1)

lemma decode_encode:
  "fst (lininoio_decode_cdlen (lininoio_encode_cdlen d c)) = d AND 0xfff"
  "snd (lininoio_decode_cdlen (lininoio_encode_cdlen d c)) = c AND 0xf"
proof -
  show "fst (lininoio_decode_cdlen (lininoio_encode_cdlen d c)) = d AND 0xfff"
    unfolding lininoio_decode_cdlen_def lininoio_encode_cdlen_def fst_conv masks
    by (rule bit_word_eqI) (auto simp: bit_simps)
  show "snd (lininoio_decode_cdlen (lininoio_encode_cdlen d c)) = c AND 0xf"
    unfolding lininoio_decode_cdlen_def lininoio_encode_cdlen_def snd_conv masks
    by (rule bit_word_eqI) (auto simp: bit_simps)
qed

lemma encode_decode:
  "lininoio_encode_cdlen (fst (lininoio_decode_cdlen x)) (snd (lininoio_decode_cdlen x)) = x"
  unfolding lininoio_decode_cdlen_def lininoio_encode_cdlen_def fst_conv snd_conv masks
  by (rule bit_word_eqI) (auto simp: bit_simps)

section \<open>Properties\<close>

text \<open>
  C29: decoding what was encoded gives the low 12 bits of the length and the low 4 bits
  of the channel, that is both exactly when they fit their fields, and encoding what was
  decoded gives the word back.
\<close>

theorem cdlen_roundtrip:
  "lininoio_decode_cdlen (lininoio_encode_cdlen dlen chan_id) = (dlen AND 0xfff, chan_id AND 0xf) \<and>
   (lininoio_decode_cdlen (lininoio_encode_cdlen dlen chan_id) = (dlen, chan_id) \<longleftrightarrow>
      unat dlen < 4096 \<and> unat chan_id < 16) \<and>
   lininoio_encode_cdlen (fst (lininoio_decode_cdlen x)) (snd (lininoio_decode_cdlen x)) = x"
proof -
  have "dlen AND 0xfff = dlen \<longleftrightarrow> unat dlen < 4096"
    using unat_and_mask[of 4096 12 dlen] by (simp add: unat_eq_iff[symmetric] del: unat_eq_iff) (metis mod_less mod_less_divisor zero_less_numeral)
  moreover have "chan_id AND 0xf = chan_id \<longleftrightarrow> unat chan_id < 16"
    using unat_and_mask[of 16 4 chan_id] by (simp add: unat_eq_iff[symmetric] del: unat_eq_iff) (metis mod_less mod_less_divisor zero_less_numeral)
  ultimately show ?thesis
    using decode_encode[of dlen chan_id] encode_decode[of x] by (simp add: prod_eq_iff)
qed

text \<open>
  The two fields of a channel descriptor are in the ranges of the tables they
  index, the cores of a node and the protocol handlers, and determine the descriptor.
\<close>

lemma cdescr_fields:
  "unat (lininoio_cdescr_to_core_id d) < LININOIO_MAX_NCORES \<and>
   unat (lininoio_cdescr_to_proto_id d) < LININOIO_N_PROTOS \<and>
   unat d = unat (lininoio_cdescr_to_core_id d) * LININOIO_N_PROTOS + unat (lininoio_cdescr_to_proto_id d)"
proof -
  have "unat d div 8192 < 8"
    by (rule less_mult_imp_div_less) (use unat_u16_less[of d] in linarith)
  then show ?thesis
    by (simp add: core_id_nat proto_id_nat LININOIO_MAX_NCORES_def LININOIO_N_PROTOS_def)
qed

text \<open>
  Looking a protocol up: a handler that is registered or was loaded before is found
  without loading anything; otherwise the handler is loaded and, if it has operations, kept, so
  that the next lookup loads nothing; without a handler the result is null and the table stays
  as it is. What is registered for a protocol is what is found. Before the table is allocated
  the result is null.
\<close>

lemma proto_ops_lookup:
  assumes "length ops = LININOIO_N_PROTOS" "unat p < LININOIO_N_PROTOS"
  shows "(ops ! unat p \<noteq> 0 \<longrightarrow>
      lininoio_find_proto_ops load p (Some ops) w = Some (ops ! unat p, Some ops, w)) \<and>
    (ops ! unat p = 0 \<longrightarrow>
      (load p w = Some (None, w1) \<longrightarrow>
        lininoio_find_proto_ops load p (Some ops) w = Some (0, Some ops, w1)) \<and>
      (load p w = Some (Some h, w1) \<longrightarrow> h \<noteq> 0 \<longrightarrow> (\<exists>tab.
        lininoio_find_proto_ops load p (Some ops) w = Some (h, tab, w1) \<and>
        (\<forall>w'. lininoio_find_proto_ops load p tab w' = Some (h, tab, w'))))) \<and>
    (h2 \<noteq> 0 \<longrightarrow> (\<exists>tab. lininoio_register_proto_handler p h2 (Some ops) = Some (0, tab) \<and>
        lininoio_find_proto_ops load p tab w = Some (h2, tab, w))) \<and>
    lininoio_find_proto_ops load q None w = Some (0, None, w)"
  using assms
  by (simp add: lininoio_find_proto_ops_def lininoio_register_proto_handler_def split: prod.split)

lemma proto_ops_lookup_witness:
  "\<exists>tab. lininoio_find_proto_ops (\<lambda>p n. Some (if p = 2 then Some 77 else None, n + (1 :: int))) 2
      (Some (replicate LININOIO_N_PROTOS 0)) (0 :: int) = Some (77, tab, 1) \<and>
    (\<forall>w'. lininoio_find_proto_ops (\<lambda>p n. Some (if p = 2 then Some 77 else None, n + (1 :: int))) 2 tab w' = Some (77, tab, w'))"
  using proto_ops_lookup[of "replicate LININOIO_N_PROTOS 0" 2 "\<lambda>p n. Some (if p = 2 then Some 77 else None, n + (1 :: int))" 0 1 77 0 0]
  by (simp add: LININOIO_N_PROTOS_def)

end
