(* ===== verification/Lininoio_Node.thy ===== *)
theory Lininoio_Node
  imports Lininoio_Proto
begin

text \<open>
  The nodes, cores and channels of \<^verbatim>\<open>include/lininoio-internal.h\<close>, and what they share: the
  allocator as the sequence of its answers.
\<close>

record assoc_data =
  ad_chan_dlen :: u16
  ad_chan_data :: "u8 list"

text \<open>
  A channel. \<open>ch_adata\<close> is what the pointer \<^verbatim>\<open>adata\<close> points to (\<^term>\<open>None\<close> for null): the channel's
  own empty association data or what its protocol's \<^verbatim>\<open>connect\<close> allocated; \<open>ch_resources\<close> is the
  address of its firmware resource. The member \<^verbatim>\<open>list\<close> is its place in the list of its core.
\<close>

record lininoio_channel =
  ch_protocol :: u16
  ch_core_id :: u8
  ch_id :: u8
  ch_ops :: addr
  ch_priv :: addr
  ch_null_adata :: assoc_data
  ch_adata :: "assoc_data option"
  ch_resources_len :: int
  ch_resources :: addr

text \<open>
  The processor data given to the kernel, as the program fills them in; the two names are
  arrays of characters.
\<close>

record r2p_processor_data =
  r2p_fw_type :: u32
  r2p_fw_name :: string
  r2p_name :: string
  r2p_start_fd :: int
  r2p_stop_fd :: int
  r2p_reserved_memsize :: int

text \<open>A core; the channels are the entries of its list, in order.\<close>

record lininoio_core =
  co_rproc_name :: string
  co_pd :: r2p_processor_data
  co_nchannels :: int
  co_channels :: "addr list"
  co_node :: addr

record lininoio_node =
  n_name :: "u8 list"
  n_alive_to :: addr
  n_cores :: "addr list"
  n_nchannels :: int
  n_ll_data :: addr
  n_send_packet :: addr
  n_channels :: "addr list"

text \<open>The allocator: the results of the next calls (0, or none left: it fails).\<close>

definition malloc :: "addr list \<Rightarrow> addr \<times> addr list" where
  "malloc as = (case as of [] \<Rightarrow> (0, []) | a # as' \<Rightarrow> (a, as'))"

lemma malloc_simps [simp]: "malloc [] = (0, [])" "malloc (a # as) = (a, as)"
  by (simp_all add: malloc_def)

end
