(* ===== verification/Timeout.thy ===== *)
theory Timeout
  imports List_Head
begin

text \<open>
  The timeouts of \<^verbatim>\<open>util/timeout.c\<close>: a list of the scheduled timeouts, each with the time it
  expires after the one before it. The lemmas relate it to a queue of deadlines: scheduling
  is a stable sorted insertion, and handling the timeouts runs the armed ones that are due,
  in their order, and frees them.
\<close>

section \<open>Time values\<close>

text \<open>\<^verbatim>\<open>struct timeval\<close> and the macros of \<^verbatim>\<open>sys/time.h\<close>; both fields are \<^verbatim>\<open>long\<close>.\<close>

record timeval =
  tv_sec :: int
  tv_usec :: int

definition timer_lt :: "timeval \<Rightarrow> timeval \<Rightarrow> bool" where
  "timer_lt a b \<longleftrightarrow>
     (if tv_sec a = tv_sec b then tv_usec a < tv_usec b else tv_sec a < tv_sec b)"

definition timer_eq :: "timeval \<Rightarrow> timeval \<Rightarrow> bool" where
  "timer_eq a b \<longleftrightarrow>
     (if tv_sec a = tv_sec b then tv_usec a = tv_usec b else tv_sec a = tv_sec b)"

definition timersub :: "timeval \<Rightarrow> timeval \<Rightarrow> timeval" where
  "timersub a b =
     (let sec = tv_sec a - tv_sec b; usec = tv_usec a - tv_usec b
      in if usec < 0 then \<lparr>tv_sec = sec - 1, tv_usec = usec + 1000000\<rparr>
         else \<lparr>tv_sec = sec, tv_usec = usec\<rparr>)"

definition tv_ok :: "timeval \<Rightarrow> bool" where
  "tv_ok t \<longleftrightarrow> 0 \<le> tv_sec t \<and> 0 \<le> tv_usec t \<and> tv_usec t < 1000000"

definition tv_us :: "timeval \<Rightarrow> int" where
  "tv_us t = tv_sec t * 1000000 + tv_usec t"

lemma tv_us_nonneg: "tv_ok t \<Longrightarrow> 0 \<le> tv_us t"
  by (simp add: tv_ok_def tv_us_def)

lemma timer_lt_us: "tv_ok a \<Longrightarrow> tv_ok b \<Longrightarrow> timer_lt a b \<longleftrightarrow> tv_us a < tv_us b"
  by (auto simp: timer_lt_def tv_ok_def tv_us_def)

lemma timer_eq_us: "tv_ok a \<Longrightarrow> tv_ok b \<Longrightarrow> timer_eq a b \<longleftrightarrow> tv_us a = tv_us b"
  by (auto simp: timer_eq_def tv_ok_def tv_us_def)

lemma timersub_us:
  "tv_ok a \<Longrightarrow> tv_ok b \<Longrightarrow> tv_us b \<le> tv_us a \<Longrightarrow> tv_ok (timersub a b)"
  "tv_us (timersub a b) = tv_us a - tv_us b"
  by (auto simp: timersub_def tv_ok_def tv_us_def Let_def)

section \<open>State and operations\<close>

record timeout =
  expires :: timeval
  handler :: addr
  priv :: addr
  armed :: int

text \<open>
  The scheduled timeouts: the cells of the lists, the allocated structures, and the address
  of the global head. The member \<^verbatim>\<open>list\<close> of the structure at \<open>to\<close> is at \<open>to_list to\<close>.
\<close>

record timeouts =
  to_mem :: list_mem
  to_objs :: "addr \<rightharpoonup> timeout"
  to_head :: addr

definition to_list :: "addr \<Rightarrow> addr" where "to_list to = to + 32"
definition to_entry :: "addr \<Rightarrow> addr" where "to_entry l = l - 32"

lemma to_entry_list [simp]: "to_entry (to_list to) = to"
  by (simp add: to_entry_def to_list_def)

lemma to_list_inj [simp]: "to_list a = to_list b \<longleftrightarrow> a = b"
  by (simp add: to_list_def)

definition timeouts_init :: "timeouts \<Rightarrow> int \<times> timeouts" where
  "timeouts_init st = (0, st\<lparr>to_mem := INIT_LIST_HEAD (to_mem st) (to_head st)\<rparr>)"

text \<open>\<open>(ms*1000)%1000000\<close> is computed in \<^verbatim>\<open>unsigned long\<close>, and wraps.\<close>

definition ms_timeval :: "u64 \<Rightarrow> timeval" where
  "ms_timeval ms = \<lparr>tv_sec = uint (ms div 1000), tv_usec = uint ((ms * 1000) mod 1000000)\<rparr>"

text \<open>
  The loop of \<open>schedule_timeout\<close>, at the entry whose list member is at \<open>pos\<close>. \<^term>\<open>None\<close> is
  a read of a structure that is not allocated or a traversal without end.
\<close>

partial_function (option) schedule_loop :: "timeouts \<Rightarrow> addr \<Rightarrow> addr \<Rightarrow> timeouts option" where
  "schedule_loop st to pos =
     (if pos = to_head st
      then Some (st\<lparr>to_mem := list_add_tail (to_mem st) (to_list to) pos\<rparr>)
      else
        Option.bind (to_objs st (to_entry pos)) (\<lambda>p.
        Option.bind (to_objs st to) (\<lambda>t.
          if timer_lt (expires t) (expires p)
          then Some (st\<lparr>to_mem := list_add_tail (to_mem st) (to_list to) pos,
                        to_objs := (to_objs st)(to_entry pos \<mapsto>
                          p\<lparr>expires := timersub (expires p) (expires t)\<rparr>)\<rparr>)
          else schedule_loop
                 (st\<lparr>to_objs := (to_objs st)(to \<mapsto>
                    t\<lparr>expires := timersub (expires t) (expires p)\<rparr>)\<rparr>)
                 to (next_of (to_mem st) pos))))"

declare schedule_loop.simps [code]

text \<open>\<open>alloc\<close> is what \<^verbatim>\<open>malloc\<close> returns (0 when it fails). The first component is the result.\<close>

definition schedule_timeout ::
    "timeouts \<Rightarrow> u64 \<Rightarrow> addr \<Rightarrow> addr \<Rightarrow> addr \<Rightarrow> (addr \<times> timeouts) option" where
  "schedule_timeout st ms toh prv alloc =
     (if toh = 0 then Some (0, st)
      else if alloc = 0 then Some (0, st)
      else
        let t = \<lparr>expires = ms_timeval ms, handler = toh, priv = prv, armed = 1\<rparr>;
            st1 = st\<lparr>to_objs := (to_objs st)(alloc \<mapsto> t)\<rparr>
        in if list_empty (to_mem st1) (to_head st1)
           then Some (alloc, st1\<lparr>to_mem := list_add_tail (to_mem st1) (to_list alloc) (to_head st1)\<rparr>)
           else Option.bind (schedule_loop st1 alloc (next_of (to_mem st1) (to_head st1)))
                  (\<lambda>st2. Some (alloc, st2)))"

definition cancel_timeout :: "timeouts \<Rightarrow> addr \<Rightarrow> timeouts option" where
  "cancel_timeout st to =
     Option.bind (to_objs st to) (\<lambda>t. Some (st\<lparr>to_objs := (to_objs st)(to \<mapsto> t\<lparr>armed := 0\<rparr>)\<rparr>))"

text \<open>The timeout whose \<^verbatim>\<open>expires\<close> the result points to.\<close>

definition get_next_timeout :: "timeouts \<Rightarrow> addr option" where
  "get_next_timeout st =
     (if list_empty (to_mem st) (to_head st) then None
      else Some (to_entry (next_of (to_mem st) (to_head st))))"

text \<open>
  \<open>handle_timeouts\<close>. A handler is called with the timeout and its private pointer; it may
  use the timeouts itself, and acts on the state \<^typ>\<open>'w\<close> of the rest of the program.
  \<^term>\<open>None\<close> is a failed assertion as well.
\<close>

type_synonym 'w to_handler = "addr \<Rightarrow> addr \<Rightarrow> addr \<Rightarrow> timeouts \<times> 'w \<Rightarrow> (timeouts \<times> 'w) option"

partial_function (option) handle_loop ::
    "'w to_handler \<Rightarrow> addr \<Rightarrow> addr \<Rightarrow> timeouts \<Rightarrow> 'w \<Rightarrow> (timeouts \<times> 'w) option" where
  "handle_loop call pos tmp st w =
     (if pos = to_head st then Some (st, w)
      else
        let to = to_entry pos
        in Option.bind (to_objs st to) (\<lambda>t.
           if \<not> timer_eq (expires t) \<lparr>tv_sec = 0, tv_usec = 0\<rparr> then Some (st, w)
           else
             let st1 = st\<lparr>to_mem := list_del_init (to_mem st) (to_list to)\<rparr>
             in if handler t = 0 then None
                else
                  Option.bind (if armed t \<noteq> 0 then call (handler t) to (priv t) (st1, w) else Some (st1, w))
                    (\<lambda>(st2, w').
                  let st3 = st2\<lparr>to_objs := (to_objs st2)(to := None)\<rparr>
                  in handle_loop call tmp (next_of (to_mem st3) tmp) st3 w')))"

declare handle_loop.simps [code]

definition handle_timeouts :: "'w to_handler \<Rightarrow> timeouts \<Rightarrow> 'w \<Rightarrow> (timeouts \<times> 'w) option" where
  "handle_timeouts call st w =
     (if list_empty (to_mem st) (to_head st) then None
      else
        let pos = next_of (to_mem st) (to_head st)
        in handle_loop call pos (next_of (to_mem st) pos) st w)"

section \<open>The queue of deadlines\<close>

text \<open>
  The state represents the timeouts \<open>xs\<close>, in the order of the list. Their deadlines are the
  sums of the times from the head on.
\<close>

definition to_rep :: "timeouts \<Rightarrow> addr list \<Rightarrow> bool" where
  "to_rep st xs \<longleftrightarrow>
     dll (to_mem st) (to_head st) (map to_list xs) \<and>
     (\<forall>x \<in> set xs. \<exists>t. to_objs st x = Some t \<and> tv_ok (expires t) \<and> handler t \<noteq> 0)"

definition delta :: "timeouts \<Rightarrow> addr \<Rightarrow> int" where
  "delta st x = tv_us (expires (the (to_objs st x)))"

fun deadlines :: "(addr \<Rightarrow> int) \<Rightarrow> int \<Rightarrow> addr list \<Rightarrow> (addr \<times> int) list" where
  "deadlines d a [] = []"
| "deadlines d a (x # xs) = (x, a + d x) # deadlines d (a + d x) xs"

definition to_queue :: "timeouts \<Rightarrow> addr list \<Rightarrow> (addr \<times> int) list" where
  "to_queue st xs = deadlines (delta st) 0 xs"

definition enqueue :: "addr \<Rightarrow> int \<Rightarrow> (addr \<times> int) list \<Rightarrow> (addr \<times> int) list" where
  "enqueue x d q = takeWhile (\<lambda>(_, e). e \<le> d) q @ (x, d) # dropWhile (\<lambda>(_, e). e \<le> d) q"

lemma deadlines_cong: "(\<And>x. x \<in> set xs \<Longrightarrow> d x = d' x) \<Longrightarrow> deadlines d a xs = deadlines d' a xs"
  by (induction d a xs rule: deadlines.induct) auto

lemma deadlines_ge: "(\<And>x. x \<in> set xs \<Longrightarrow> 0 \<le> d x) \<Longrightarrow> p \<in> set (deadlines d a xs) \<Longrightarrow> a \<le> snd p"
proof (induction d a xs rule: deadlines.induct)
  case (2 d a x xs)
  have "a \<le> a + d x" using 2(2)[of x] by simp
  moreover have "p \<in> set (deadlines d (a + d x) xs) \<Longrightarrow> a + d x \<le> snd p"
    using 2(1,2) by simp
  ultimately show ?case using 2(3) by auto
qed simp

lemma deadlines_sorted: "(\<And>x. x \<in> set xs \<Longrightarrow> 0 \<le> d x) \<Longrightarrow> sorted (map snd (deadlines d a xs))"
  by (induction d a xs rule: deadlines.induct) (auto dest: deadlines_ge[rotated])

lemma fst_deadlines [simp]: "map fst (deadlines d a xs) = xs"
  by (induction d a xs rule: deadlines.induct) simp_all

text \<open>What scheduling keeps of the structures: everything but the times.\<close>

definition same_but_time :: "timeouts \<Rightarrow> timeouts \<Rightarrow> addr \<Rightarrow> bool" where
  "same_but_time st st' x \<longleftrightarrow>
     map_option (\<lambda>t. t\<lparr>expires := undefined\<rparr>) (to_objs st' x) =
     map_option (\<lambda>t. t\<lparr>expires := undefined\<rparr>) (to_objs st x)"

lemma to_rep_get:
  assumes "to_rep st xs" "x \<in> set xs"
  obtains t where "to_objs st x = Some t" "tv_ok (expires t)" "handler t \<noteq> 0" "delta st x = tv_us (expires t)"
  using assms by (auto simp: to_rep_def delta_def)

lemma to_rep_objs:
  assumes "dll m h (map to_list xs)" "m = to_mem st" "h = to_head st"
    "\<And>x. x \<in> set xs \<Longrightarrow> \<exists>t. to_objs st x = Some t \<and> tv_ok (expires t) \<and> handler t \<noteq> 0"
  shows "to_rep st xs"
  using assms by (simp add: to_rep_def)

lemma to_list_in [simp]: "to_list x \<in> to_list ` A \<longleftrightarrow> x \<in> A"
  by auto

lemma dll_add_before:
  assumes "dll m h (map to_list (us @ ys))" "n \<notin> set (us @ ys)" "to_list n \<noteq> h"
  shows "dll (list_add_tail m (to_list n) (List.hd (map to_list ys @ [h]))) h (map to_list (us @ n # ys))"
proof (cases ys)
  case Nil
  then show ?thesis using dll_list_add_tail[of m h "map to_list us" "to_list n"] assms by auto
next
  case (Cons y zs)
  then show ?thesis
    using dll_list_add_before[of m h "map to_list us" "to_list y" "map to_list zs" "to_list n"] assms by auto
qed

text \<open>
  Where the loop has put the timeout: \<open>us\<close> is behind it, \<open>ys\<close> before it, \<open>a\<close> the time that has gone
  by at the end of \<open>us\<close> and \<open>e\<close> what is left of the timeout's own.
\<close>

definition enqueued ::
    "timeouts \<Rightarrow> addr \<Rightarrow> int \<Rightarrow> int \<Rightarrow> addr list \<Rightarrow> addr list \<Rightarrow> timeouts \<Rightarrow> bool" where
  "enqueued st to a e us ys st' \<longleftrightarrow> (\<exists>zs vs. ys = zs @ vs \<and>
     to_rep st' (us @ zs @ to # vs) \<and> to_head st' = to_head st \<and>
     deadlines (delta st') a (zs @ to # vs) = enqueue to (a + e) (deadlines (delta st) a ys) \<and>
     (\<forall>x \<in> set us. delta st' x = delta st x) \<and> (\<forall>x. same_but_time st st' x))"

text \<open>At the end of the list.\<close>

lemma schedule_last:
  assumes "to_rep st us" "to \<notin> set us" "to_list to \<noteq> to_head st"
    "to_objs st to = Some t" "tv_ok (expires t)" "handler t \<noteq> 0" "e = tv_us (expires t)"
  shows "\<exists>st'. schedule_loop st to (to_head st) = Some st' \<and> enqueued st to a e us [] st'"
proof -
  define st' where "st' = st\<lparr>to_mem := list_add_tail (to_mem st) (to_list to) (to_head st)\<rparr>"
  have "dll (to_mem st') (to_head st') (map to_list (us @ [to]))"
    using dll_add_before[of "to_mem st" "to_head st" us "[]" to] assms by (simp add: to_rep_def st'_def)
  then have "to_rep st' (us @ [to])"
    using assms by (intro to_rep_objs[OF _ refl refl]) (auto simp: to_rep_def st'_def)
  moreover have "schedule_loop st to (to_head st) = Some st'"
    by (simp add: schedule_loop.simps st'_def)
  ultimately show ?thesis
    using assms by (auto simp: enqueued_def delta_def st'_def enqueue_def same_but_time_def)
qed

text \<open>Before the first timeout that is due later, whose own time is reduced.\<close>

lemma schedule_before:
  assumes rep: "to_rep st (us @ y # ys)" and new: "to \<notin> set (us @ y # ys)" "to_list to \<noteq> to_head st"
    and t: "to_objs st to = Some t" "tv_ok (expires t)" "handler t \<noteq> 0" "e = tv_us (expires t)"
    and p: "to_objs st y = Some p" "timer_lt (expires t) (expires p)"
  shows "\<exists>st'. schedule_loop st to (to_list y) = Some st' \<and> enqueued st to a e us (y # ys) st'"
proof -
  have d: "dll (to_mem st) (to_head st) (map to_list (us @ y # ys))"
    and py: "tv_ok (expires p)" "handler p \<noteq> 0" "delta st y = tv_us (expires p)"
    using rep to_rep_get[OF rep, of y] p(1) by (auto simp: to_rep_def)
  have ne: "to_list y \<noteq> to_head st" "y \<notin> set us" "y \<notin> set ys" "y \<noteq> to" "to \<noteq> y"
    using dll_distinct[OF d] new by auto
  have lt: "e < tv_us (expires p)"
    using timer_lt_us t(2,4) p(2) py(1) by blast
  define st' where "st' = st\<lparr>to_mem := list_add_tail (to_mem st) (to_list to) (to_list y),
      to_objs := (to_objs st)(y \<mapsto> p\<lparr>expires := timersub (expires p) (expires t)\<rparr>)\<rparr>"
  have loop: "schedule_loop st to (to_list y) = Some st'"
    using p(2) by (subst schedule_loop.simps) (simp add: st'_def ne p(1) t(1))
  have "dll (to_mem st') (to_head st') (map to_list (us @ to # y # ys))"
    using dll_add_before[OF d new] by (simp add: st'_def)
  then have rep': "to_rep st' (us @ to # y # ys)"
  proof (rule to_rep_objs[OF _ refl refl])
    fix x
    assume "x \<in> set (us @ to # y # ys)"
    then show "\<exists>t. to_objs st' x = Some t \<and> tv_ok (expires t) \<and> handler t \<noteq> 0"
      using rep t p(1) py lt timersub_us(1)[OF py(1) t(2)] ne by (auto simp: to_rep_def st'_def)
  qed
  have dl: "delta st' to = e" "delta st' y = delta st y - e"
      "\<And>x. x \<noteq> to \<Longrightarrow> x \<noteq> y \<Longrightarrow> delta st' x = delta st x"
    using ne t(1,2,4) lt p(1) py by (simp_all add: delta_def st'_def timersub_us(2))
  have "deadlines (delta st') (a + delta st y) ys = deadlines (delta st) (a + delta st y) ys"
    using ne new by (intro deadlines_cong dl(3)) auto
  then have "deadlines (delta st') a (to # y # ys) = enqueue to (a + e) (deadlines (delta st) a (y # ys))"
    using dl(1,2) lt py(3) by (simp add: enqueue_def)
  moreover have "\<forall>x \<in> set us. delta st' x = delta st x"
    using ne new by (intro ballI dl(3)) auto
  moreover have "\<forall>x. same_but_time st st' x"
    using p(1) by (simp add: same_but_time_def st'_def)
  ultimately have "enqueued st to a e us (y # ys) st'"
    unfolding enqueued_def using rep' by (intro exI[of _ "[]"] exI[of _ "y # ys"]) (simp add: st'_def)
  then show ?thesis using loop by blast
qed

text \<open>Past a timeout that is due before, whose time is subtracted.\<close>

lemma enqueued_past:
  assumes "enqueued st1 to (a + delta st y) (e - delta st y) (us @ [y]) ys st'"
    and "to_objs st to = Some t" "st1 = st\<lparr>to_objs := (to_objs st)(to \<mapsto> t\<lparr>expires := x\<rparr>)\<rparr>"
    and "delta st y \<le> e" "to \<notin> set (us @ y # ys)"
  shows "enqueued st to a e us (y # ys) st'"
proof -
  have dl: "delta st1 x = delta st x" if "x \<noteq> to" for x
    using that by (simp add: delta_def assms(3))
  from assms(1) obtain zs vs where r: "ys = zs @ vs" "to_rep st' ((us @ [y]) @ zs @ to # vs)"
      "to_head st' = to_head st1"
      "deadlines (delta st') (a + delta st y) (zs @ to # vs) =
        enqueue to (a + e) (deadlines (delta st1) (a + delta st y) ys)"
      "\<forall>x \<in> set (us @ [y]). delta st' x = delta st1 x" "\<forall>x. same_but_time st1 st' x"
    unfolding enqueued_def by auto
  have same: "deadlines (delta st1) (a + delta st y) ys = deadlines (delta st) (a + delta st y) ys"
    using assms(5) by (intro deadlines_cong dl) auto
  have yd: "delta st' y = delta st y"
    using r(5) dl assms(5) by simp
  have "deadlines (delta st') a ((y # zs) @ to # vs) = enqueue to (a + e) (deadlines (delta st) a (y # ys))"
    using r(4)[unfolded same] assms(4) by (simp add: yd enqueue_def)
  moreover have "\<forall>x \<in> set us. delta st' x = delta st x"
    using r(5) assms(5) dl by (metis UnCI in_set_conv_decomp set_append)
  moreover have "\<forall>x. same_but_time st st' x"
    using r(6) assms(2) by (auto simp: same_but_time_def assms(3) split: if_splits)
  ultimately show ?thesis
    unfolding enqueued_def using r(1-3)
    by (intro exI[of _ "y # zs"] exI[of _ vs]) (simp add: assms(3))
qed

lemma schedule_loop_enqueues:
  assumes "to_rep st (us @ ys)" "to \<notin> set (us @ ys)" "to_list to \<noteq> to_head st"
    "to_objs st to = Some t" "tv_ok (expires t)" "handler t \<noteq> 0" "e = tv_us (expires t)"
  shows "\<exists>st'. schedule_loop st to (List.hd (map to_list ys @ [to_head st])) = Some st' \<and>
    enqueued st to a e us ys st'"
  using assms
proof (induction ys arbitrary: us st a e t)
  case Nil
  then show ?case using schedule_last[of st us to t e a] by simp
next
  case (Cons y ys)
  obtain p where p: "to_objs st y = Some p" "tv_ok (expires p)" "delta st y = tv_us (expires p)"
    using to_rep_get[OF Cons.prems(1)] by auto
  have d: "dll (to_mem st) (to_head st) (map to_list (us @ y # ys))"
    using Cons.prems(1) by (simp add: to_rep_def)
  have ne: "to_list y \<noteq> to_head st" "y \<noteq> to"
    using dll_distinct[OF d] Cons.prems(2) by auto
  show ?case
  proof (cases "timer_lt (expires t) (expires p)")
    case True
    then show ?thesis using schedule_before[OF Cons.prems p(1)] by simp
  next
    case False
    then have le: "tv_us (expires p) \<le> e"
      using timer_lt_us[OF Cons.prems(5) p(2)] Cons.prems(7) by simp
    let ?t1 = "t\<lparr>expires := timersub (expires t) (expires p)\<rparr>"
    let ?st1 = "st\<lparr>to_objs := (to_objs st)(to \<mapsto> ?t1)\<rparr>"
    have "next_of (to_mem st) (to_list y) = List.hd (map to_list ys @ [to_head st])"
      using dll_next[of "to_mem st" "to_head st" "map to_list us" "to_list y" "map to_list ys"] d by simp
    then have loop: "schedule_loop st to (to_list y) =
        schedule_loop ?st1 to (List.hd (map to_list ys @ [to_head ?st1]))"
      using False by (subst schedule_loop.simps) (simp add: ne p(1) Cons.prems(4))
    have "to_rep ?st1 ((us @ [y]) @ ys)"
      using Cons.prems(1,2) ne by (auto simp: to_rep_def)
    moreover have "tv_ok (expires ?t1)" "handler ?t1 \<noteq> 0" "e - delta st y = tv_us (expires ?t1)"
      using timersub_us(1)[OF Cons.prems(5) p(2)] le Cons.prems(6,7) p(3) by (simp_all add: timersub_us(2))
    ultimately have "\<exists>st'. schedule_loop ?st1 to (List.hd (map to_list ys @ [to_head ?st1])) = Some st' \<and>
        enqueued ?st1 to (a + delta st y) (e - delta st y) (us @ [y]) ys st'"
      using Cons.prems(2,3) by (intro Cons.IH[where t = ?t1]) auto
    then show ?thesis
      using loop enqueued_past[OF _ Cons.prems(4) refl _ Cons.prems(2)] le p(3) by auto
  qed
qed

lemma schedule_loop_spec:
  assumes "to_rep st (us @ ys)" "to \<notin> set (us @ ys)" "to_list to \<noteq> to_head st"
    "to_objs st to = Some t" "tv_ok (expires t)" "handler t \<noteq> 0" "e = tv_us (expires t)"
  shows "\<exists>st' zs vs. ys = zs @ vs \<and>
    schedule_loop st to (List.hd (map to_list ys @ [to_head st])) = Some st' \<and>
    to_rep st' (us @ zs @ to # vs) \<and> to_head st' = to_head st \<and>
    deadlines (delta st') a (zs @ to # vs) = enqueue to (a + e) (deadlines (delta st) a ys) \<and>
    (\<forall>x \<in> set us. delta st' x = delta st x) \<and> (\<forall>x. same_but_time st st' x)"
  using schedule_loop_enqueues[OF assms, of a] unfolding enqueued_def by blast

text \<open>\<open>ms_ok\<close>: the multiplication \<open>ms*1000\<close> does not wrap.\<close>

definition ms_ok :: "u64 \<Rightarrow> bool" where
  "ms_ok ms \<longleftrightarrow> unat ms * 1000 < 2 ^ 64"

lemma ms_timeval_ok: "tv_ok (ms_timeval ms)"
  by (simp add: tv_ok_def ms_timeval_def uint_mod uint_div pos_imp_zdiv_nonneg_iff)

lemma split_thousand: "x div 1000 * 1000000 + (x * 1000) mod 1000000 = x * (1000 :: int)"
proof -
  obtain q r where qr: "x div 1000 = q" "x mod 1000 = r" by blast
  have "x = q * 1000 + r"
    using div_mult_mod_eq[of x 1000] by (simp only: qr)
  moreover have "(x * 1000) mod 1000000 = r * 1000"
    using mult_mod_left[of x 1000 1000] qr(2) by simp
  ultimately show ?thesis
    unfolding qr by linarith
qed

lemma ms_timeval_us:
  assumes "ms_ok ms"
  shows "tv_us (ms_timeval ms) = uint ms * 1000"
proof -
  have "unat (ms * 1000) = unat ms * 1000"
    using assms by (simp add: unat_word_ariths(2) ms_ok_def)
  then have m: "uint (ms * 1000) = uint ms * 1000"
    by (metis int_ops(7) of_nat_numeral uint_nat)
  have "uint ms div 1000 * 1000000 + (uint ms * 1000) mod 1000000 = uint ms * 1000"
    by (rule split_thousand)
  then show ?thesis
    by (simp only: tv_us_def ms_timeval_def timeval.simps uint_mod uint_div m) simp
qed

definition fresh_timeout :: "timeouts \<Rightarrow> addr list \<Rightarrow> addr \<Rightarrow> bool" where
  "fresh_timeout st xs to \<longleftrightarrow> to \<noteq> 0 \<and> to \<notin> set xs \<and> to_list to \<noteq> to_head st"

lemma schedule_spec:
  assumes rep: "to_rep st xs" and fresh: "fresh_timeout st xs to" and h: "toh \<noteq> 0"
  shows "\<exists>st' ys. schedule_timeout st ms toh prv to = Some (to, st') \<and> to_rep st' ys \<and>
    to_head st' = to_head st \<and>
    to_queue st' ys = enqueue to (tv_us (ms_timeval ms)) (to_queue st xs) \<and>
    (\<exists>e. to_objs st' to = Some \<lparr>expires = e, handler = toh, priv = prv, armed = 1\<rparr>) \<and>
    (\<forall>x. x \<noteq> to \<longrightarrow> same_but_time st st' x)"
proof -
  define t where "t = \<lparr>expires = ms_timeval ms, handler = toh, priv = prv, armed = 1\<rparr>"
  define st1 where "st1 = st\<lparr>to_objs := (to_objs st)(to \<mapsto> t)\<rparr>"
  have f: "to \<noteq> 0" "to \<notin> set xs" "to_list to \<noteq> to_head st"
    using fresh by (auto simp: fresh_timeout_def)
  have rep1: "to_rep st1 ([] @ xs)"
    using rep f(2) by (auto simp: to_rep_def st1_def)
  have q: "deadlines (delta st1) 0 xs = to_queue st xs"
    unfolding to_queue_def using f(2) by (intro deadlines_cong) (auto simp: delta_def st1_def)
  have "\<exists>st' zs vs. xs = zs @ vs \<and>
    schedule_loop st1 to (List.hd (map to_list xs @ [to_head st1])) = Some st' \<and>
    to_rep st' ([] @ zs @ to # vs) \<and> to_head st' = to_head st1 \<and>
    deadlines (delta st') 0 (zs @ to # vs) =
      enqueue to (0 + tv_us (ms_timeval ms)) (deadlines (delta st1) 0 xs) \<and>
    (\<forall>x \<in> set []. delta st' x = delta st1 x) \<and> (\<forall>x. same_but_time st1 st' x)"
    using rep1 f h by (intro schedule_loop_spec[where t = t]) (auto simp: st1_def t_def ms_timeval_ok)
  then obtain st' zs vs where r0:
      "schedule_loop st1 to (List.hd (map to_list xs @ [to_head st1])) = Some st'"
      "to_rep st' ([] @ zs @ to # vs)" "to_head st' = to_head st1"
      "deadlines (delta st') 0 (zs @ to # vs) =
        enqueue to (0 + tv_us (ms_timeval ms)) (deadlines (delta st1) 0 xs)"
      "\<forall>x. same_but_time st1 st' x"
    by blast
  have h1: "to_head st1 = to_head st" by (simp add: st1_def)
  have r: "schedule_loop st1 to (List.hd (map to_list xs @ [to_head st])) = Some st'"
      "to_rep st' (zs @ to # vs)" "to_head st' = to_head st"
      "to_queue st' (zs @ to # vs) = enqueue to (tv_us (ms_timeval ms)) (to_queue st xs)"
      "\<And>x. same_but_time st1 st' x"
    using r0 by (simp_all add: h1 q to_queue_def[of st'])
  have dl: "dll (to_mem st) (to_head st) (map to_list xs)"
    using rep by (simp add: to_rep_def)
  have sch: "schedule_timeout st ms toh prv to = Some (to, st')"
  proof (cases "list_empty (to_mem st) (to_head st)")
    case True
    then have "xs = []" using dll_list_empty[OF dl] by simp
    then show ?thesis
      using True r(1) f(1) h
      by (simp add: schedule_timeout_def st1_def t_def Let_def schedule_loop.simps)
  next
    case False
    have "next_of (to_mem st) (to_head st) = List.hd (map to_list xs @ [to_head st])"
      by (rule dll_head_next[OF dl])
    then show ?thesis
      using False r(1) f(1) h by (simp add: schedule_timeout_def st1_def t_def Let_def)
  qed
  have "map_option (\<lambda>t. t\<lparr>expires := undefined\<rparr>) (to_objs st' to) = Some (t\<lparr>expires := undefined\<rparr>)"
    using r(5)[of to] by (simp add: same_but_time_def st1_def)
  then obtain t' where t': "to_objs st' to = Some t'" "t'\<lparr>expires := undefined\<rparr> = t\<lparr>expires := undefined\<rparr>"
    by auto
  then have "t' = \<lparr>expires = expires t', handler = toh, priv = prv, armed = 1\<rparr>"
    by (cases t') (simp add: t_def)
  then have "\<exists>e. to_objs st' to = Some \<lparr>expires = e, handler = toh, priv = prv, armed = 1\<rparr>"
    using t'(1) by metis
  moreover have "same_but_time st st' x" if "x \<noteq> to" for x
    using r(5)[of x] that by (simp add: same_but_time_def st1_def)
  ultimately show ?thesis
    using sch r by blast
qed

text \<open>Only the first timeout of a queue can be late: what \<open>enqueue\<close> keeps sorted.\<close>

lemma to_queue_sorted: "to_rep st xs \<Longrightarrow> sorted (map snd (to_queue st xs))"
  unfolding to_queue_def by (rule deadlines_sorted) (metis to_rep_get tv_us_nonneg)

section \<open>Handling\<close>

text \<open>
  A handler that leaves the timeouts alone acts on the rest of the program only; the armed
  timeouts that are due run in order.
\<close>

definition pure_handler :: "(addr \<Rightarrow> addr \<Rightarrow> addr \<Rightarrow> 'w \<Rightarrow> 'w) \<Rightarrow> 'w to_handler" where
  "pure_handler f h to prv sw = Some (fst sw, f h to prv (snd sw))"

definition fire :: "(addr \<Rightarrow> addr \<Rightarrow> addr \<Rightarrow> 'w \<Rightarrow> 'w) \<Rightarrow> timeouts \<Rightarrow> addr \<Rightarrow> 'w \<Rightarrow> 'w" where
  "fire f st x w =
     (let t = the (to_objs st x) in if armed t \<noteq> 0 then f (handler t) x (priv t) w else w)"

lemma handle_loop_spec:
  assumes "to_rep st xs"
  shows "\<exists>st'. handle_loop (pure_handler f) (List.hd (map to_list xs @ [to_head st]))
      (next_of (to_mem st) (List.hd (map to_list xs @ [to_head st]))) st w =
      Some (st', fold (fire f st) (takeWhile (\<lambda>x. delta st x = 0) xs) w) \<and>
    to_rep st' (dropWhile (\<lambda>x. delta st x = 0) xs) \<and> to_head st' = to_head st \<and>
    (\<forall>x. to_objs st' x =
       (if x \<in> set (takeWhile (\<lambda>x. delta st x = 0) xs) then None else to_objs st x))"
  using assms
proof (induction xs arbitrary: st w)
  case Nil
  then show ?case by (simp add: handle_loop.simps)
next
  case (Cons x xs)
  have d: "dll (to_mem st) (to_head st) (map to_list (x # xs))"
    using Cons.prems by (simp add: to_rep_def)
  obtain t where t: "to_objs st x = Some t" "tv_ok (expires t)" "handler t \<noteq> 0" "delta st x = tv_us (expires t)"
    using to_rep_get[OF Cons.prems] by auto
  have zero: "timer_eq (expires t) \<lparr>tv_sec = 0, tv_usec = 0\<rparr> \<longleftrightarrow> delta st x = 0"
    using timer_eq_us[OF t(2), of "\<lparr>tv_sec = 0, tv_usec = 0\<rparr>"] by (simp add: t(4)) (simp add: tv_ok_def tv_us_def)
  have ne: "to_list x \<noteq> to_head st" "x \<notin> set xs"
    using dll_distinct[OF d] by auto
  have nxt: "next_of (to_mem st) (to_list x) = List.hd (map to_list xs @ [to_head st])"
    using dll_next[of "to_mem st" "to_head st" "[]" "to_list x" "map to_list xs"] d by simp
  show ?case
  proof (cases "delta st x = 0")
    case False
    then show ?thesis
      using Cons.prems t zero ne by (subst handle_loop.simps) simp
  next
    case True
    define st1 where "st1 = st\<lparr>to_mem := list_del_init (to_mem st) (to_list x), to_objs := (to_objs st)(x := None)\<rparr>"
    let ?w = "fire f st x w"
    have "dll (to_mem st1) (to_head st1) (map to_list xs)"
      using dll_list_del_init(1)[of "to_mem st" "to_head st" "[]"] d by (simp add: st1_def)
    then have rep1: "to_rep st1 xs"
      using Cons.prems ne by (auto simp: to_rep_def st1_def)
    have dl: "delta st1 y = delta st y" "fire f st1 y = fire f st y" if "y \<in> set xs" for y
      using that ne(2) by (auto simp: delta_def st1_def fire_def)
    have tw: "takeWhile (\<lambda>x. delta st1 x = 0) xs = takeWhile (\<lambda>x. delta st x = 0) xs"
        "dropWhile (\<lambda>x. delta st1 x = 0) xs = dropWhile (\<lambda>x. delta st x = 0) xs"
      using dl(1) by (auto intro: takeWhile_cong dropWhile_cong)
    have fd: "fold (fire f st1) (takeWhile (\<lambda>x. delta st x = 0) xs) ?w =
        fold (fire f st) (takeWhile (\<lambda>x. delta st x = 0) xs) ?w"
      using dl(2) set_takeWhileD by (intro fold_cong) fastforce+
    have loop: "handle_loop (pure_handler f) (to_list x) (next_of (to_mem st) (to_list x)) st w =
        handle_loop (pure_handler f) (List.hd (map to_list xs @ [to_head st1]))
          (next_of (to_mem st1) (List.hd (map to_list xs @ [to_head st1]))) st1 ?w"
      using True zero t ne
      by (subst handle_loop.simps) (simp add: pure_handler_def fire_def st1_def nxt Let_def)
    have xs: "x \<notin> set (takeWhile (\<lambda>x. delta st x = 0) xs)"
      using ne(2) set_takeWhileD by fastforce
    have st1: "to_head st1 = to_head st" "to_objs st1 = (to_objs st)(x := None)"
      by (simp_all add: st1_def)
    from Cons.IH[OF rep1, of ?w, unfolded tw fd] obtain st' where r:
      "handle_loop (pure_handler f) (List.hd (map to_list xs @ [to_head st1]))
          (next_of (to_mem st1) (List.hd (map to_list xs @ [to_head st1]))) st1 ?w =
        Some (st', fold (fire f st) (takeWhile (\<lambda>x. delta st x = 0) xs) ?w)"
      "to_rep st' (dropWhile (\<lambda>x. delta st x = 0) xs)" "to_head st' = to_head st1"
      "\<forall>y. to_objs st' y = (if y \<in> set (takeWhile (\<lambda>x. delta st x = 0) xs) then None else to_objs st1 y)"
      by blast
    have "handle_loop (pure_handler f) (to_list x) (next_of (to_mem st) (to_list x)) st w =
        Some (st', fold (fire f st) (takeWhile (\<lambda>x. delta st x = 0) xs) ?w)"
      using loop r(1) by (simp only:)
    then show ?thesis
      using True xs r(2-4) by (intro exI[of _ st']) (simp add: st1)
  qed
qed

lemma handle_spec:
  assumes "to_rep st xs" "xs \<noteq> []"
  shows "\<exists>st'. handle_timeouts (pure_handler f) st w =
      Some (st', fold (fire f st) (takeWhile (\<lambda>x. delta st x = 0) xs) w) \<and>
    to_rep st' (dropWhile (\<lambda>x. delta st x = 0) xs) \<and> to_head st' = to_head st \<and>
    (\<forall>x. to_objs st' x =
       (if x \<in> set (takeWhile (\<lambda>x. delta st x = 0) xs) then None else to_objs st x))"
proof -
  have d: "dll (to_mem st) (to_head st) (map to_list xs)"
    using assms(1) by (simp add: to_rep_def)
  show ?thesis
    using handle_loop_spec[OF assms(1), of f w] assms(2) dll_list_empty[OF d] dll_head_next[OF d]
    by (simp add: handle_timeouts_def Let_def)
qed

section \<open>The passing of time\<close>

text \<open>
  The main loop passes \<^verbatim>\<open>select\<close> the pointer of \<open>get_next_timeout\<close>, and Linux writes the time
  not slept back through it.
\<close>

definition select_writes :: "timeouts \<Rightarrow> timeval \<Rightarrow> timeouts option" where
  "select_writes st left =
     (case get_next_timeout st of
        None \<Rightarrow> Some st
      | Some to \<Rightarrow> Option.bind (to_objs st to) (\<lambda>t.
          Some (st\<lparr>to_objs := (to_objs st)(to \<mapsto> t\<lparr>expires := left\<rparr>)\<rparr>)))"

text \<open>
  \<^verbatim>\<open>print_timeouts\<close>, which only the build with \<^verbatim>\<open>DEBUG\<close> has: the timeouts it prints, each with what
  is left of it. On the queue they are printed in the order they expire.
\<close>

definition print_timeouts :: "timeouts \<Rightarrow> (addr \<times> timeval) list option" where
  "print_timeouts st =
     Option.bind (list_for_each_entry (to_mem st) (to_head st)) (\<lambda>ls.
       those (map (\<lambda>l. map_option (\<lambda>t. (to_entry l, expires t)) (to_objs st (to_entry l))) ls))"

lemma print_timeouts_all:
  assumes "to_rep st xs"
  shows "print_timeouts st = Some (map (\<lambda>x. (x, expires (the (to_objs st x)))) xs)"
proof -
  have "those (map (\<lambda>l. map_option (\<lambda>t. (to_entry l, expires t)) (to_objs st (to_entry l))) (map to_list ys)) =
      Some (map (\<lambda>x. (x, expires (the (to_objs st x)))) ys)" if "set ys \<subseteq> set xs" for ys
    using that assms by (induction ys) (auto simp: to_rep_def)
  from this[of xs] show ?thesis
    using assms dll_for_each_entry by (auto simp: print_timeouts_def to_rep_def)
qed

lemma get_next_spec:
  assumes "to_rep st xs"
  shows "get_next_timeout st = (case xs of [] \<Rightarrow> None | x # _ \<Rightarrow> Some x)"
proof -
  have d: "dll (to_mem st) (to_head st) (map to_list xs)"
    using assms by (simp add: to_rep_def)
  show ?thesis
    using dll_list_empty[OF d] dll_head_next[OF d]
    by (cases xs) (simp_all add: get_next_timeout_def)
qed

lemma deadlines_shift: "deadlines d (a - k) xs = map (\<lambda>(x, e). (x, e - k)) (deadlines d a xs)"
proof (induction xs arbitrary: a)
  case (Cons x xs)
  then show ?case using Cons[of "a + d x"] by (simp add: algebra_simps)
qed simp

lemma select_writes_spec:
  assumes "to_rep st (x # xs)" "tv_ok left"
  shows "\<exists>st'. select_writes st left = Some st' \<and> to_rep st' (x # xs) \<and>
    to_queue st' (x # xs) = map (\<lambda>(y, e). (y, e - (delta st x - tv_us left))) (to_queue st (x # xs))"
proof -
  obtain t where t: "to_objs st x = Some t" "handler t \<noteq> 0"
    using to_rep_get[OF assms(1)] by auto
  define st' where "st' = st\<lparr>to_objs := (to_objs st)(x \<mapsto> t\<lparr>expires := left\<rparr>)\<rparr>"
  have "x \<notin> set xs"
    using dll_distinct[of "to_mem st" "to_head st" "map to_list (x # xs)"] assms(1) by (auto simp: to_rep_def)
  then have "deadlines (delta st') (tv_us left) xs = deadlines (delta st) (tv_us left) xs"
    by (intro deadlines_cong) (auto simp: delta_def st'_def)
  also have "\<dots> = map (\<lambda>(y, e). (y, e - (delta st x - tv_us left))) (deadlines (delta st) (delta st x) xs)"
    using deadlines_shift[of "delta st" "delta st x" "delta st x - tv_us left" xs] by simp
  finally have "to_queue st' (x # xs) =
      map (\<lambda>(y, e). (y, e - (delta st x - tv_us left))) (to_queue st (x # xs))"
    by (simp add: to_queue_def) (simp add: delta_def st'_def)
  moreover have "to_rep st' (x # xs)"
    using assms t by (auto simp: to_rep_def st'_def)
  ultimately show ?thesis
    using t(1) get_next_spec[OF assms(1)] by (simp add: select_writes_def st'_def)
qed

lemma deadlines_due:
  assumes "\<And>x. x \<in> set xs \<Longrightarrow> 0 \<le> d x"
  shows "deadlines d 0 (dropWhile (\<lambda>x. d x = 0) xs) = filter (\<lambda>(_, e). 0 < e) (deadlines d 0 xs)"
  using assms
proof (induction xs)
  case (Cons x xs)
  show ?case
  proof (cases "d x = 0")
    case False
    then have "0 < d x" using Cons.prems[of x] by simp
    moreover have "filter (\<lambda>(_, e). 0 < e) (deadlines d (d x) xs) = deadlines d (d x) xs"
      using calculation Cons.prems deadlines_ge[of xs d _ "d x"] by (intro filter_True) fastforce
    ultimately show ?thesis by simp
  qed (use Cons in simp)
qed simp

lemma distinct_take_drop_while:
  "distinct xs \<Longrightarrow> x \<in> set (takeWhile P xs) \<Longrightarrow> x \<notin> set (dropWhile P xs)"
  by (metis disjoint_iff distinct_append takeWhile_dropWhile_id)

section \<open>What the handlers keep\<close>

text \<open>What a handler keeps of the program, handling the timeouts keeps.\<close>

locale timeout_dispatch =
  fixes call :: "'w to_handler" and P :: "'w \<Rightarrow> bool"
  assumes call_keeps: "call h to p (s, v) = Some (s', v') \<Longrightarrow> P v \<Longrightarrow> P v'"
begin

lemma handle_loop_keeps:
  assumes "handle_loop call pos tmp st w = Some r" "P w"
  shows "P (snd r)"
proof -
  have "call = call \<longrightarrow> P w \<longrightarrow> P (snd r)"
  proof (rule handle_loop.raw_induct[OF _ assms(1), where P = "\<lambda>call' pos tmp st w r.
      call' = call \<longrightarrow> P w \<longrightarrow> P (snd r)"], intro impI)
    fix f call' pos tmp st w r
    assume IH: "\<And>call' pos tmp st w r. f call' pos tmp st w = Some r \<Longrightarrow> call' = call \<longrightarrow> P w \<longrightarrow> P (snd r)"
      and e: "(if pos = to_head st then Some (st, w)
        else
          let to = to_entry pos
          in Option.bind (to_objs st to) (\<lambda>t.
             if \<not> timer_eq (expires t) \<lparr>tv_sec = 0, tv_usec = 0\<rparr> then Some (st, w)
             else
               let st1 = st\<lparr>to_mem := list_del_init (to_mem st) (to_list to)\<rparr>
               in if handler t = 0 then None
                  else
                    Option.bind (if armed t \<noteq> 0 then call' (handler t) to (priv t) (st1, w) else Some (st1, w))
                      (\<lambda>(st2, w').
                    let st3 = st2\<lparr>to_objs := (to_objs st2)(to := None)\<rparr>
                    in f call' tmp (next_of (to_mem st3) tmp) st3 w'))) = Some r"
      and c: "call' = call" and w: "P w"
    consider "r = (st, w)" | h to p st1 st2 w' tmp' st3 where
        "call h to p (st1, w) = Some (st2, w') \<or> w' = w" "f call tmp tmp' st3 w' = Some r"
      using e c by (simp add: bind_eq_Some_conv Let_def split: if_splits) blast+
    then show "P (snd r)"
    proof cases
      case 2
      then have "P w'" using w call_keeps by blast
      then show ?thesis using IH[OF 2(2)] by simp
    qed (use w in simp)
  qed
  then show ?thesis using assms(2) by simp
qed

lemma handle_timeouts_keeps: "handle_timeouts call st w = Some r \<Longrightarrow> P w \<Longrightarrow> P (snd r)"
  using handle_loop_keeps by (auto simp: handle_timeouts_def Let_def split: if_splits)

end

section \<open>Properties\<close>

text \<open>Two timeouts in the list, one due now and one \<open>2.5 s\<close> later, for the witnesses.\<close>

definition two_timeouts :: timeouts where
  "two_timeouts =
     \<lparr>to_mem = \<lparr>next_of = (\<lambda>_. 0)(1000 := 132, 132 := 232, 232 := 1000),
               prev_of = (\<lambda>_. 0)(1000 := 232, 132 := 1000, 232 := 132)\<rparr>,
      to_objs = [100 \<mapsto> \<lparr>expires = \<lparr>tv_sec = 0, tv_usec = 0\<rparr>, handler = 7, priv = 1, armed = 1\<rparr>,
                 200 \<mapsto> \<lparr>expires = \<lparr>tv_sec = 2, tv_usec = 500000\<rparr>, handler = 7, priv = 2, armed = 1\<rparr>],
      to_head = 1000\<rparr>"

lemma two_timeouts_rep: "to_rep two_timeouts [100, 200]"
  by (simp add: to_rep_def two_timeouts_def dll_def to_list_def tv_ok_def)

text \<open>
  C22: scheduling a timeout inserts it into the queue of deadlines after every timeout
  that is due no later and before every one that is due later, moves no other deadline, keeps
  the queue sorted, and returns the new timeout, armed, with its handler and private pointer.
  For a time below \<open>2^64 / 1000\<close> milliseconds its deadline is that time.
\<close>

theorem schedule_timeout_enqueues:
  assumes "to_rep st xs" "fresh_timeout st xs to" "toh \<noteq> 0"
  shows "\<exists>st' ys. schedule_timeout st ms toh prv to = Some (to, st') \<and> to_rep st' ys \<and>
    to_queue st' ys = enqueue to (tv_us (ms_timeval ms)) (to_queue st xs) \<and>
    sorted (map snd (to_queue st' ys)) \<and>
    (ms_ok ms \<longrightarrow> tv_us (ms_timeval ms) = uint ms * 1000) \<and>
    (\<exists>e. to_objs st' to = Some \<lparr>expires = e, handler = toh, priv = prv, armed = 1\<rparr>)"
  using schedule_spec[OF assms, of ms prv] to_queue_sorted ms_timeval_us by blast

theorem schedule_timeout_enqueues_witness:
  "\<exists>st' ys. schedule_timeout two_timeouts 1000 9 3 300 = Some (300, st') \<and> to_rep st' ys \<and>
    to_queue st' ys = [(100, 0), (300, 1000000), (200, 2500000)]"
proof -
  have "fresh_timeout two_timeouts [100, 200] 300"
    by (simp add: fresh_timeout_def two_timeouts_def to_list_def)
  moreover have "to_queue two_timeouts [100, 200] = [(100, 0), (200, 2500000)]"
    by (simp add: to_queue_def delta_def two_timeouts_def tv_us_def)
  moreover have "tv_us (ms_timeval 1000) = 1000000"
    by (simp add: tv_us_def ms_timeval_def)
  ultimately show ?thesis
    using schedule_timeout_enqueues[OF two_timeouts_rep, of 300 9 1000 3] by (auto simp: enqueue_def)
qed

text \<open>
  C23: handling the timeouts runs the handlers of the armed timeouts that are due, in
  the order of the queue and each once, frees every timeout that is due, armed or not, and
  keeps the others with their deadlines; only an empty list fails the assertion.
\<close>

theorem handle_timeouts_runs_due:
  assumes "to_rep st xs" "xs \<noteq> []"
  shows "\<exists>st'. handle_timeouts (pure_handler f) st w =
      Some (st', fold (fire f st) (takeWhile (\<lambda>x. delta st x = 0) xs) w) \<and>
    to_rep st' (dropWhile (\<lambda>x. delta st x = 0) xs) \<and>
    to_queue st' (dropWhile (\<lambda>x. delta st x = 0) xs) = filter (\<lambda>(_, e). 0 < e) (to_queue st xs) \<and>
    (\<forall>x \<in> set (takeWhile (\<lambda>x. delta st x = 0) xs). to_objs st' x = None)"
proof -
  obtain st' where h: "handle_timeouts (pure_handler f) st w =
      Some (st', fold (fire f st) (takeWhile (\<lambda>x. delta st x = 0) xs) w)"
    "to_rep st' (dropWhile (\<lambda>x. delta st x = 0) xs)"
    "\<forall>x. to_objs st' x =
       (if x \<in> set (takeWhile (\<lambda>x. delta st x = 0) xs) then None else to_objs st x)"
    using handle_spec[OF assms, of f w] by blast
  have nn: "\<And>x. x \<in> set xs \<Longrightarrow> 0 \<le> delta st x"
    using to_rep_get[OF assms(1)] tv_us_nonneg by metis
  have "distinct xs"
    using assms(1) dll_distinct by (fastforce simp: to_rep_def distinct_map)
  then have "deadlines (delta st') 0 (dropWhile (\<lambda>x. delta st x = 0) xs) =
      deadlines (delta st) 0 (dropWhile (\<lambda>x. delta st x = 0) xs)"
    using h(3) by (intro deadlines_cong) (auto simp: delta_def dest: distinct_take_drop_while)
  also have "\<dots> = filter (\<lambda>(_, e). 0 < e) (deadlines (delta st) 0 xs)"
    using nn by (rule deadlines_due)
  finally show ?thesis
    using h by (auto simp: to_queue_def)
qed

theorem handle_timeouts_runs_due_witness:
  "\<exists>st'. handle_timeouts (pure_handler (\<lambda>h to p log. log @ [p])) two_timeouts [] = Some (st', [1]) \<and>
    to_rep st' [200] \<and> to_objs st' 100 = None"
  using handle_timeouts_runs_due[OF two_timeouts_rep, of "\<lambda>h to p log. log @ [p]" "[]"]
  by (auto simp: delta_def two_timeouts_def tv_us_def fire_def)

text \<open>
  A cancelled timeout keeps its place and its deadline, and its handler does not
  run when it is due; the other timeouts are as before.
\<close>

lemma cancel_timeout_disarms:
  assumes "to_rep st xs" "x \<in> set xs"
  shows "\<exists>st'. cancel_timeout st x = Some st' \<and> to_rep st' xs \<and> to_queue st' xs = to_queue st xs \<and>
    fire f st' x w = w \<and> (\<forall>y. y \<noteq> x \<longrightarrow> fire f st' y = fire f st y)"
proof -
  obtain t where t: "to_objs st x = Some t"
    using to_rep_get[OF assms] by auto
  define st' where "st' = st\<lparr>to_objs := (to_objs st)(x \<mapsto> t\<lparr>armed := 0\<rparr>)\<rparr>"
  have "to_rep st' xs"
    using assms(1) t by (auto simp: to_rep_def st'_def)
  moreover have "to_queue st' xs = to_queue st xs"
    unfolding to_queue_def using t by (intro deadlines_cong) (auto simp: delta_def st'_def)
  moreover have "\<And>y. y \<noteq> x \<Longrightarrow> fire f st' y = fire f st y"
    by (rule ext) (simp add: fire_def st'_def)
  ultimately show ?thesis
    using t by (intro exI[of _ st']) (simp add: cancel_timeout_def st'_def fire_def)
qed

lemma cancel_timeout_disarms_witness:
  "\<exists>st'. cancel_timeout two_timeouts 100 = Some st' \<and> to_rep st' [100, 200] \<and>
    fire (\<lambda>h to p log. log @ [p]) st' 100 [] = []"
  using cancel_timeout_disarms[OF two_timeouts_rep, of 100 "\<lambda>h to p log. log @ [p]" "[]"] by auto

text \<open>
  When \<^verbatim>\<open>select\<close> returns early and writes the time left into the first timeout,
  every deadline of the queue moves by the time slept.
\<close>

lemma select_moves_deadlines:
  assumes "to_rep st (x # xs)" "tv_ok left"
  shows "get_next_timeout st = Some x \<and> (\<exists>st'. select_writes st left = Some st' \<and> to_rep st' (x # xs) \<and>
    to_queue st' (x # xs) = map (\<lambda>(y, e). (y, e - (delta st x - tv_us left))) (to_queue st (x # xs)))"
  using select_writes_spec[OF assms] get_next_spec[OF assms(1)] by simp

lemma select_moves_deadlines_witness:
  "\<exists>st'. select_writes two_timeouts \<lparr>tv_sec = 0, tv_usec = 0\<rparr> = Some st' \<and> to_rep st' [100, 200]"
  using select_moves_deadlines[OF two_timeouts_rep, of "\<lparr>tv_sec = 0, tv_usec = 0\<rparr>"]
  by (auto simp: tv_ok_def)

text \<open>
  The microseconds of a new timeout are computed modulo \<open>2 ^ 64\<close>: from about
  \<open>1.8 * 10 ^ 16\<close> milliseconds on, the fraction of the second is wrong.
\<close>

lemma ms_timeval_wraps:
  "tv_us (ms_timeval 18446744073709552) < 18446744073709552 * 1000"
  by (simp add: tv_us_def ms_timeval_def)

end
