(* ===== verification/Fd_Event.thy ===== *)
theory Fd_Event
  imports List_Head
begin

text \<open>
  The file descriptor events of \<^verbatim>\<open>util/fd_event.c\<close>: three lists of callbacks (read, write,
  exception), the sets of descriptors the main loop waits for, and the dispatch of the ready
  ones. The lemmas give the sets and the order of the callbacks, and what happens when a
  callback cancels its own event.
\<close>

section \<open>State\<close>

record fd_event =
  fe_fd :: int
  fe_cb :: addr
  fe_data :: addr

definition EVT_FD_RD :: nat where "EVT_FD_RD = 0"
definition EVT_FD_WR :: nat where "EVT_FD_WR = 1"
definition EVT_FD_EXC :: nat where "EVT_FD_EXC = 2"

text \<open>
  The cells of the lists, the allocated events and the address of the array of heads. The
  member \<^verbatim>\<open>list\<close> of the event at \<open>e\<close> is at \<open>fe_list e\<close>.
\<close>

record fd_events =
  fe_mem :: list_mem
  fe_objs :: "addr \<rightharpoonup> fd_event"
  fe_base :: addr

definition fe_list :: "addr \<Rightarrow> addr" where "fe_list e = e + 24"
definition fe_entry :: "addr \<Rightarrow> addr" where "fe_entry l = l - 24"

definition fe_head :: "fd_events \<Rightarrow> nat \<Rightarrow> addr" where
  "fe_head st t = fe_base st + 16 * t"

lemma fe_entry_list [simp]: "fe_entry (fe_list e) = e"
  by (simp add: fe_entry_def fe_list_def)

lemma fe_list_inj [simp]: "fe_list a = fe_list b \<longleftrightarrow> a = b"
  by (simp add: fe_list_def)

section \<open>Operations\<close>

definition fd_events_init :: "fd_events \<Rightarrow> int \<times> fd_events" where
  "fd_events_init st =
     (0, st\<lparr>fe_mem := fold (\<lambda>t m. INIT_LIST_HEAD m (fe_head st t)) [EVT_FD_RD ..< Suc EVT_FD_EXC] (fe_mem st)\<rparr>)"

text \<open>\<open>alloc\<close> is what \<^verbatim>\<open>malloc\<close> returns (0 when it fails); so is the result.\<close>

definition add_fd_event ::
    "fd_events \<Rightarrow> int \<Rightarrow> nat \<Rightarrow> addr \<Rightarrow> addr \<Rightarrow> addr \<Rightarrow> addr \<times> fd_events" where
  "add_fd_event st fd t cb cb_data alloc =
     (if t \<noteq> EVT_FD_RD \<and> t \<noteq> EVT_FD_WR \<and> t \<noteq> EVT_FD_EXC then (0, st)
      else if alloc = 0 then (0, st)
      else (alloc, st\<lparr>fe_mem := list_add_tail (fe_mem st) (fe_list alloc) (fe_head st t),
                      fe_objs := (fe_objs st)(alloc \<mapsto> \<lparr>fe_fd = fd, fe_cb = cb, fe_data = cb_data\<rparr>)\<rparr>))"

definition cancel_fd_event :: "fd_events \<Rightarrow> addr \<Rightarrow> (int \<times> fd_events) option" where
  "cancel_fd_event st e =
     (if fe_objs st e = None then None
      else Some (0, st\<lparr>fe_mem := list_del (fe_mem st) (fe_list e), fe_objs := (fe_objs st)(e := None)\<rparr>))"

text \<open>
  A set of descriptors, \<^term>\<open>None\<close> for a null pointer. Setting or testing a descriptor outside
  \<open>0, \<dots>, 1023\<close>, or through a null pointer, is undefined, and so is reading an event that is
  not allocated.
\<close>

type_synonym fd_set = "int set option"

definition FD_ISSET :: "int \<Rightarrow> fd_set \<Rightarrow> bool option" where
  "FD_ISSET fd fds =
     (case fds of None \<Rightarrow> None | Some s \<Rightarrow> if 0 \<le> fd \<and> fd < 1024 then Some (fd \<in> s) else None)"

definition FD_SET :: "int \<Rightarrow> fd_set \<Rightarrow> fd_set option" where
  "FD_SET fd fds =
     (case fds of None \<Rightarrow> None
      | Some s \<Rightarrow> if 0 \<le> fd \<and> fd < 1024 then Some (Some (insert fd s)) else None)"

text \<open>A callback gets its data pointer, and may add and cancel events.\<close>

type_synonym 'w fd_cb = "addr \<Rightarrow> addr \<Rightarrow> fd_events \<times> 'w \<Rightarrow> (fd_events \<times> 'w) option"

partial_function (option) do_handle_fd_events ::
    "'w fd_cb \<Rightarrow> fd_set \<Rightarrow> addr \<Rightarrow> addr \<Rightarrow> fd_events \<Rightarrow> 'w \<Rightarrow> (fd_events \<times> 'w) option" where
  "do_handle_fd_events call fds head pos st w =
     (if pos = head then Some (st, w)
      else
        Option.bind (fe_objs st (fe_entry pos)) (\<lambda>e.
        Option.bind (FD_ISSET (fe_fd e) fds) (\<lambda>b.
        Option.bind (if b then call (fe_cb e) (fe_data e) (st, w) else Some (st, w)) (\<lambda>(st', w').
          do_handle_fd_events call fds head (next_of (fe_mem st') pos) st' w'))))"

declare do_handle_fd_events.simps [code]

definition handle_one :: "'w fd_cb \<Rightarrow> fd_set list \<Rightarrow> nat \<Rightarrow> fd_events \<times> 'w \<Rightarrow> (fd_events \<times> 'w) option" where
  "handle_one call fds t sw =
     (let st = fst sw
      in do_handle_fd_events call (fds ! t) (fe_head st t) (next_of (fe_mem st) (fe_head st t)) st (snd sw))"

definition handle_fd_events ::
    "'w fd_cb \<Rightarrow> fd_set \<Rightarrow> fd_set \<Rightarrow> fd_set \<Rightarrow> fd_events \<Rightarrow> 'w \<Rightarrow> (fd_events \<times> 'w) option" where
  "handle_fd_events call rd wr exc st w =
     (let fds = [rd, wr, exc]
      in Option.bind (handle_one call fds EVT_FD_RD (st, w)) (\<lambda>r1.
         Option.bind (handle_one call fds EVT_FD_WR r1) (\<lambda>r2.
         handle_one call fds EVT_FD_EXC r2)))"

partial_function (option) do_prepare_fd_events ::
    "fd_events \<Rightarrow> fd_set \<Rightarrow> addr \<Rightarrow> addr \<Rightarrow> int \<Rightarrow> (fd_set \<times> int) option" where
  "do_prepare_fd_events st fds head pos max_fd =
     (if pos = head then Some (fds, max_fd)
      else
        Option.bind (fe_objs st (fe_entry pos)) (\<lambda>e.
        let max' = (if fe_fd e > max_fd then fe_fd e else max_fd)
        in Option.bind (FD_SET (fe_fd e) fds) (\<lambda>fds'.
           do_prepare_fd_events st fds' head (next_of (fe_mem st) pos) max')))"

declare do_prepare_fd_events.simps [code]

definition prepare_fd_events ::
    "fd_events \<Rightarrow> fd_set \<Rightarrow> fd_set \<Rightarrow> fd_set \<Rightarrow> (fd_set \<times> fd_set \<times> fd_set \<times> int) option" where
  "prepare_fd_events st rd wr exc =
     (let prep = (\<lambda>t fds max_fd.
        do_prepare_fd_events st fds (fe_head st t) (next_of (fe_mem st) (fe_head st t)) max_fd)
      in Option.bind (prep EVT_FD_RD rd (- 1)) (\<lambda>(rd', m1).
         Option.bind (prep EVT_FD_WR wr m1) (\<lambda>(wr', m2).
         Option.bind (prep EVT_FD_EXC exc m2) (\<lambda>(exc', m3).
         Some (rd', wr', exc', m3)))))"

definition fd_event_get_fd :: "fd_events \<Rightarrow> addr \<Rightarrow> int option" where
  "fd_event_get_fd st e = map_option fe_fd (fe_objs st e)"

section \<open>The lists of events\<close>

text \<open>The events of type \<open>t\<close>, with descriptors \<^verbatim>\<open>select\<close> can watch.\<close>

definition fe_rep :: "fd_events \<Rightarrow> nat \<Rightarrow> addr list \<Rightarrow> bool" where
  "fe_rep st t xs \<longleftrightarrow>
     dll (fe_mem st) (fe_head st t) (map fe_list xs) \<and>
     (\<forall>x \<in> set xs. \<exists>e. fe_objs st x = Some e \<and> 0 \<le> fe_fd e \<and> fe_fd e < 1024)"

definition fd_of :: "fd_events \<Rightarrow> addr \<Rightarrow> int" where
  "fd_of st x = fe_fd (the (fe_objs st x))"

lemma fe_rep_get:
  assumes "fe_rep st t xs" "x \<in> set xs"
  obtains e where "fe_objs st x = Some e" "0 \<le> fe_fd e" "fe_fd e < 1024" "fd_of st x = fe_fd e"
  using assms by (auto simp: fe_rep_def fd_of_def)

lemma do_prepare_linked:
  assumes "linked (fe_mem st) p (map fe_list xs) head" "head \<notin> fe_list ` set xs"
    and "\<And>x. x \<in> set xs \<Longrightarrow> \<exists>e. fe_objs st x = Some e \<and> 0 \<le> fe_fd e \<and> fe_fd e < 1024"
  shows "do_prepare_fd_events st (Some s) head (next_of (fe_mem st) p) m =
    Some (Some (s \<union> fd_of st ` set xs), fold (\<lambda>x m. max m (fd_of st x)) xs m)"
  using assms
proof (induction xs arbitrary: p s m)
  case Nil
  then show ?case by (simp add: do_prepare_fd_events.simps)
next
  case (Cons x xs)
  obtain e where e: "fe_objs st x = Some e" "0 \<le> fe_fd e" "fe_fd e < 1024"
    using Cons.prems(3)[of x] by auto
  have IH: "do_prepare_fd_events st (Some s) head (next_of (fe_mem st) (fe_list x)) m =
      Some (Some (s \<union> fd_of st ` set xs), fold (\<lambda>x m. max m (fd_of st x)) xs m)" for s m
    using Cons.prems by (intro Cons.IH) auto
  have "(if fe_fd e > m then fe_fd e else m) = max m (fd_of st x)"
    using e by (simp add: fd_of_def max_def)
  then show ?case
    using Cons.prems e
    by (subst do_prepare_fd_events.simps) (auto simp: FD_SET_def IH fd_of_def Let_def)
qed

lemma fe_rep_linked:
  assumes "fe_rep st t xs"
  shows "linked (fe_mem st) (fe_head st t) (map fe_list xs) (fe_head st t)"
    "fe_head st t \<notin> fe_list ` set xs"
    "x \<in> set xs \<Longrightarrow> \<exists>e. fe_objs st x = Some e \<and> 0 \<le> fe_fd e \<and> fe_fd e < 1024"
  using assms by (auto simp: fe_rep_def dll_def)

lemma handle_one_null:
  assumes "fe_rep st t []"
  shows "handle_one call fds t (st, w) = Some (st, w)"
  using fe_rep_linked(1)[OF assms] by (simp add: handle_one_def do_handle_fd_events.simps)

lemma handle_one_null_set:
  assumes "handle_one call [rd, None, None] t sw = Some r" "t = EVT_FD_WR \<or> t = EVT_FD_EXC"
  shows "r = sw"
proof -
  have "[rd, None, None] ! t = None"
    using assms(2) by (auto simp: EVT_FD_WR_def EVT_FD_EXC_def)
  then show ?thesis
    using assms(1) by (cases sw) (auto simp: handle_one_def do_handle_fd_events.simps[where fds = None]
        FD_ISSET_def bind_eq_Some_conv split: if_splits)
qed

lemma max_fold: "fold (\<lambda>x m. max m (g x)) xs m = Max (insert m (g ` set xs))" for m :: int
proof (induction xs arbitrary: m)
  case (Cons x xs)
  have "Max (insert (max m (g x)) (g ` set xs)) = Max (insert m (insert (g x) (g ` set xs)))"
  proof (cases xs)
    case (Cons y ys)
    then show ?thesis by (simp add: max.assoc)
  qed simp
  then show ?case using Cons by simp
qed simp

lemma fd_events_init_rep: "t < 3 \<Longrightarrow> fe_rep (snd (fd_events_init st)) t []"
proof -
  assume "t < 3"
  then consider "t = 0" | "t = 1" | "t = 2" by linarith
  then show ?thesis
    by cases (simp_all add: fe_rep_def fd_events_init_def fe_head_def EVT_FD_RD_def EVT_FD_EXC_def
        upt_rec dll_INIT_frame dll_INIT_LIST_HEAD)
qed

lemma add_fd_event_spec:
  assumes "fe_rep st t xs" "t < 3" "n \<noteq> 0" "n \<notin> set xs" "fe_list n \<noteq> fe_head st t" "0 \<le> fd" "fd < 1024"
  shows "fst (add_fd_event st fd t cb dat n) = n"
    "fe_rep (snd (add_fd_event st fd t cb dat n)) t (xs @ [n])"
    "fe_objs (snd (add_fd_event st fd t cb dat n)) = (fe_objs st)(n \<mapsto> \<lparr>fe_fd = fd, fe_cb = cb, fe_data = dat\<rparr>)"
proof -
  have t: "\<not> (t \<noteq> EVT_FD_RD \<and> t \<noteq> EVT_FD_WR \<and> t \<noteq> EVT_FD_EXC)"
    using assms(2) by (auto simp: EVT_FD_RD_def EVT_FD_WR_def EVT_FD_EXC_def)
  have "dll (fe_mem st) (fe_head st t) (map fe_list xs)" "fe_list n \<notin> set (fe_head st t # map fe_list xs)"
    using assms by (auto simp: fe_rep_def)
  from dll_list_add_tail[OF this] t assms
  show "fst (add_fd_event st fd t cb dat n) = n"
    "fe_rep (snd (add_fd_event st fd t cb dat n)) t (xs @ [n])"
    "fe_objs (snd (add_fd_event st fd t cb dat n)) = (fe_objs st)(n \<mapsto> \<lparr>fe_fd = fd, fe_cb = cb, fe_data = dat\<rparr>)"
    by (auto simp: add_fd_event_def fe_rep_def fe_head_def)
qed

lemma add_fd_event_frame:
  assumes "fe_rep st t xs" "fe_rep st u ys" "t < 3" "n \<noteq> 0" "n \<notin> set (xs @ ys)"
    "fe_list n \<noteq> fe_head st t" "fe_list n \<noteq> fe_head st u"
    "set (fe_head st t # map fe_list xs) \<inter> set (fe_head st u # map fe_list ys) = {}"
  shows "fe_rep (snd (add_fd_event st fd t cb dat n)) u ys"
proof -
  have t: "\<not> (t \<noteq> EVT_FD_RD \<and> t \<noteq> EVT_FD_WR \<and> t \<noteq> EVT_FD_EXC)"
    using assms(3) by (auto simp: EVT_FD_RD_def EVT_FD_WR_def EVT_FD_EXC_def)
  have "dll (list_add_tail (fe_mem st) (fe_list n) (fe_head st t)) (fe_head st u) (map fe_list ys)"
    using assms by (intro list_add_tail_frame[where zs = "map fe_list xs"]) (auto simp: fe_rep_def)
  then show ?thesis
    using t assms by (auto simp: add_fd_event_def fe_rep_def fe_head_def)
qed

lemma cancel_fd_event_spec:
  assumes "fe_rep st t xs" "x \<in> set xs"
  shows "\<exists>st'. cancel_fd_event st x = Some (0, st') \<and> fe_rep st' t (remove1 x xs) \<and> fe_objs st' x = None"
proof -
  obtain e where e: "fe_objs st x = Some e"
    using fe_rep_get[OF assms] by auto
  define st' where "st' = st\<lparr>fe_mem := list_del (fe_mem st) (fe_list x), fe_objs := (fe_objs st)(x := None)\<rparr>"
  have d: "dll (fe_mem st) (fe_head st t) (map fe_list xs)"
    using assms(1) by (simp add: fe_rep_def)
  have "remove1 (fe_list x) (map fe_list xs) = map fe_list (remove1 x xs)"
    by (induction xs) simp_all
  then have "dll (fe_mem st') (fe_head st' t) (map fe_list (remove1 x xs))"
    using dl.del_member[OF d, of "fe_list x"] assms(2) by (simp add: st'_def fe_head_def)
  moreover have "x \<notin> set (remove1 x xs)" "set (remove1 x xs) \<subseteq> set xs"
    using dll_distinct[OF d] set_remove1_subset by (auto simp: distinct_map)
  ultimately have "fe_rep st' t (remove1 x xs)"
    using assms(1) by (fastforce simp: fe_rep_def st'_def)
  then show ?thesis
    using e by (simp add: cancel_fd_event_def st'_def)
qed

section \<open>What the callbacks keep\<close>

text \<open>
  The contract of a callback: what it keeps of the events and the program together, the
  dispatch keeps.
\<close>

locale fd_dispatch =
  fixes call :: "'w fd_cb" and P :: "fd_events \<times> 'w \<Rightarrow> bool"
  assumes call_keeps: "call cb data sw = Some sw' \<Longrightarrow> P sw \<Longrightarrow> P sw'"
begin

lemma do_handle_keeps:
  assumes "do_handle_fd_events call fds head pos st w = Some r" "P (st, w)"
  shows "P r"
proof -
  have "call = call \<longrightarrow> P (st, w) \<longrightarrow> P r"
  proof (rule do_handle_fd_events.raw_induct[OF _ assms(1), where P = "\<lambda>call' fds head pos st w r.
      call' = call \<longrightarrow> P (st, w) \<longrightarrow> P r"])
  qed (auto simp: bind_eq_Some_conv split: if_splits dest: call_keeps)
  then show ?thesis using assms(2) by simp
qed

lemma handle_one_keeps: "handle_one call fds t sw = Some r \<Longrightarrow> P sw \<Longrightarrow> P r"
  using do_handle_keeps by (auto simp: handle_one_def Let_def)

lemma handle_fd_events_keeps:
  assumes "handle_fd_events call rd wr exc st w = Some r" "P (st, w)"
  shows "P r"
proof -
  obtain r1 r2 where "handle_one call [rd, wr, exc] EVT_FD_RD (st, w) = Some r1"
    "handle_one call [rd, wr, exc] EVT_FD_WR r1 = Some r2" "handle_one call [rd, wr, exc] EVT_FD_EXC r2 = Some r"
    using assms(1) by (auto simp: handle_fd_events_def Let_def bind_eq_Some_conv)
  then show ?thesis using assms(2) handle_one_keeps by blast
qed

end

section \<open>The order of the callbacks\<close>

text \<open>The callbacks of the events \<open>xs\<close>, one after the other, each with the data of its event.\<close>

definition run_event :: "'w fd_cb \<Rightarrow> addr \<Rightarrow> fd_events \<times> 'w \<Rightarrow> (fd_events \<times> 'w) option" where
  "run_event call x sw =
     Option.bind (fe_objs (fst sw) x) (\<lambda>e. call (fe_cb e) (fe_data e) sw)"

primrec run_events :: "'w fd_cb \<Rightarrow> addr list \<Rightarrow> fd_events \<times> 'w \<Rightarrow> (fd_events \<times> 'w) option" where
  "run_events call [] sw = Some sw"
| "run_events call (x # xs) sw = Option.bind (run_event call x sw) (run_events call xs)"

text \<open>
  Callbacks that may add events to be read and touch no other: \<open>I xs\<close> is what they rely on and
  keep while \<open>xs\<close> are the events, for instance that the blocks left to allocate are apart from
  them.
\<close>

definition appends_events :: "'w fd_cb \<Rightarrow> (addr list \<Rightarrow> fd_events \<times> 'w \<Rightarrow> bool) \<Rightarrow> bool" where
  "appends_events call I \<longleftrightarrow>
     (\<forall>xs sw. I xs sw \<longrightarrow> dll (fe_mem (fst sw)) (fe_head (fst sw) EVT_FD_RD) (map fe_list xs)) \<and>
     (\<forall>cb dat xs sw sw'. call cb dat sw = Some sw' \<longrightarrow> I xs sw \<longrightarrow>
        fe_base (fst sw') = fe_base (fst sw) \<and> (\<forall>x \<in> set xs. fe_objs (fst sw') x = fe_objs (fst sw) x) \<and>
        (\<exists>us. I (xs @ us) sw'))"

lemma appends_dll:
  "appends_events call I \<Longrightarrow> I xs sw \<Longrightarrow> dll (fe_mem (fst sw)) (fe_head (fst sw) EVT_FD_RD) (map fe_list xs)"
  unfolding appends_events_def by blast

lemma appends_call:
  assumes "appends_events call I" "call cb dat sw = Some sw'" "I xs sw"
  obtains us where "I (xs @ us) sw'" "fe_base (fst sw') = fe_base (fst sw)"
    "\<And>x. x \<in> set xs \<Longrightarrow> fe_objs (fst sw') x = fe_objs (fst sw) x"
  using assms unfolding appends_events_def by blast

text \<open>Where the traversal goes on after an event in the middle of the list.\<close>

lemma dll_at:
  assumes "dll m h (map fe_list (ys @ x # zs))"
  shows "fe_list x \<noteq> h" "next_of m (fe_list x) = List.hd (map fe_list zs @ [h])"
  using dll_next[of m h "map fe_list ys" "fe_list x" "map fe_list zs"] assms by (auto simp: dll_def)

lemma appends_step:
  assumes call: "appends_events call I" and I: "I (ys @ x # zs) (st, w)"
    and "(if b then call cb dat (st, w) else Some (st, w)) = Some (st1, w1)"
  obtains us where "I ((ys @ [x]) @ (zs @ us)) (st1, w1)" "fe_base st1 = fe_base st"
    "\<And>y. y \<in> set (ys @ x # zs) \<Longrightarrow> fe_objs st1 y = fe_objs st y"
    "next_of (fe_mem st1) (fe_list x) = List.hd (map fe_list (zs @ us) @ [fe_head st EVT_FD_RD])"
proof -
  obtain us where us: "I ((ys @ x # zs) @ us) (st1, w1)" "fe_base st1 = fe_base st"
    "\<And>y. y \<in> set (ys @ x # zs) \<Longrightarrow> fe_objs st1 y = fe_objs st y"
  proof (cases b)
    case True
    then have "call cb dat (st, w) = Some (st1, w1)" using assms(3) by simp
    then obtain us where "I ((ys @ x # zs) @ us) (st1, w1)" "fe_base st1 = fe_base st"
      "\<And>y. y \<in> set (ys @ x # zs) \<Longrightarrow> fe_objs st1 y = fe_objs st y"
      using appends_call[OF call _ I, of cb dat "(st1, w1)"] by auto
    then show ?thesis by (rule that)
  next
    case False
    then show ?thesis using assms(3) I that[of "[]"] by simp
  qed
  have "next_of (fe_mem st1) (fe_list x) = List.hd (map fe_list (zs @ us) @ [fe_head st EVT_FD_RD])"
    using dll_at(2)[of "fe_mem st1" "fe_head st1 EVT_FD_RD" ys x "zs @ us"] appends_dll[OF call us(1)] us(2)
    by (simp add: fe_head_def)
  with us show ?thesis by (intro that[of us]) simp_all
qed

text \<open>
  A traversal that comes to its end has run, from where it is, the callbacks of the ready events
  in the order of the list, the ones added on the way included.
\<close>

definition runs_ready :: "'w fd_cb \<Rightarrow> (addr list \<Rightarrow> fd_events \<times> 'w \<Rightarrow> bool) \<Rightarrow> int set \<Rightarrow> 'w fd_cb \<Rightarrow> fd_set \<Rightarrow>
    addr \<Rightarrow> addr \<Rightarrow> fd_events \<Rightarrow> 'w \<Rightarrow> fd_events \<times> 'w \<Rightarrow> bool" where
  "runs_ready call I s call' fds head pos st w r \<longleftrightarrow>
     (\<forall>ys zs. call' = call \<and> fds = Some s \<and> head = fe_head st EVT_FD_RD \<and> I (ys @ zs) (st, w) \<and>
        pos = List.hd (map fe_list zs @ [head]) \<longrightarrow>
      (\<exists>us. I (ys @ zs @ us) r \<and> fe_base (fst r) = fe_base st \<and>
        (\<forall>x \<in> set (ys @ zs). fe_objs (fst r) x = fe_objs st x) \<and>
        run_events call (filter (\<lambda>x. fd_of (fst r) x \<in> s) (zs @ us)) (st, w) = Some r))"

lemma runs_ready_step:
  assumes call: "appends_events call I" and "fe_objs st x = Some e" "b \<longleftrightarrow> fe_fd e \<in> s"
    and st1: "(if b then call (fe_cb e) (fe_data e) (st, w) else Some (st, w)) = Some (st1, w1)"
    and rest: "runs_ready call I s call (Some s) (fe_head st EVT_FD_RD) (next_of (fe_mem st1) (fe_list x)) st1 w1 r"
    and I: "I (ys @ x # zs) (st, w)"
  shows "\<exists>us. I (ys @ (x # zs) @ us) r \<and> fe_base (fst r) = fe_base st \<and>
    (\<forall>y \<in> set (ys @ x # zs). fe_objs (fst r) y = fe_objs st y) \<and>
    run_events call (filter (\<lambda>x. fd_of (fst r) x \<in> s) ((x # zs) @ us)) (st, w) = Some r"
proof (rule appends_step[OF call I st1])
  fix us
  assume us: "I ((ys @ [x]) @ (zs @ us)) (st1, w1)" "fe_base st1 = fe_base st"
    "\<And>y. y \<in> set (ys @ x # zs) \<Longrightarrow> fe_objs st1 y = fe_objs st y"
    "next_of (fe_mem st1) (fe_list x) = List.hd (map fe_list (zs @ us) @ [fe_head st EVT_FD_RD])"
  have "fe_head st EVT_FD_RD = fe_head st1 EVT_FD_RD"
    using us(2) by (simp add: fe_head_def)
  then obtain vs where vs: "I ((ys @ [x]) @ (zs @ us) @ vs) r" "fe_base (fst r) = fe_base st1"
    "\<forall>y \<in> set ((ys @ [x]) @ zs @ us). fe_objs (fst r) y = fe_objs st1 y"
    "run_events call (filter (\<lambda>x. fd_of (fst r) x \<in> s) ((zs @ us) @ vs)) (st1, w1) = Some r"
    using rest us(1,4) unfolding runs_ready_def by metis
  have "fe_objs (fst r) x = Some e"
    using vs(3) us(3) assms(2) by simp
  then have fx: "fd_of (fst r) x \<in> s \<longleftrightarrow> b"
    by (simp add: fd_of_def assms(3))
  have "run_events call (filter (\<lambda>x. fd_of (fst r) x \<in> s) ((x # zs) @ us @ vs)) (st, w) = Some r"
    using vs(4) assms(2) st1 by (cases b) (simp_all add: fx run_event_def)
  moreover have "\<forall>y \<in> set (ys @ x # zs). fe_objs (fst r) y = fe_objs st y"
    using vs(3) us(3) by auto
  ultimately show ?thesis
    using vs(1,2) us(2) by (intro exI[of _ "us @ vs"]) simp
qed

lemma do_handle_runs:
  assumes call: "appends_events call I" and "do_handle_fd_events call' fds head pos st w = Some r"
  shows "runs_ready call I s call' fds head pos st w r"
proof (rule do_handle_fd_events.raw_induct[OF _ assms(2), where P = "runs_ready call I s"])
  fix rec call' fds head pos st w r
  assume IH: "\<And>call' fds head pos st w r. rec call' fds head pos st w = Some r \<Longrightarrow>
      runs_ready call I s call' fds head pos st w r"
    and r: "(if pos = head then Some (st, w)
      else Option.bind (fe_objs st (fe_entry pos)) (\<lambda>e.
        Option.bind (FD_ISSET (fe_fd e) fds) (\<lambda>b.
        Option.bind (if b then call' (fe_cb e) (fe_data e) (st, w) else Some (st, w)) (\<lambda>(st', w').
          rec call' fds head (next_of (fe_mem st') pos) st' w')))) = Some r"
  show "runs_ready call I s call' fds head pos st w r"
    unfolding runs_ready_def
  proof (intro allI impI, elim conjE)
    fix ys zs
    assume eq: "call' = call" "fds = Some s" "head = fe_head st EVT_FD_RD" "pos = List.hd (map fe_list zs @ [head])"
      and I: "I (ys @ zs) (st, w)"
    show "\<exists>us. I (ys @ zs @ us) r \<and> fe_base (fst r) = fe_base st \<and>
        (\<forall>x \<in> set (ys @ zs). fe_objs (fst r) x = fe_objs st x) \<and>
        run_events call (filter (\<lambda>x. fd_of (fst r) x \<in> s) (zs @ us)) (st, w) = Some r"
    proof (cases zs)
      case Nil
      then have "r = (st, w)" using r eq by simp
      then show ?thesis using I Nil by (intro exI[of _ "[]"]) simp
    next
      case (Cons x zs')
      have ne: "fe_list x \<noteq> head"
        using dll_at(1)[of "fe_mem st" head ys x zs'] appends_dll[OF call I] Cons eq(3) by simp
      then obtain e b st1 w1 where x: "fe_objs st x = Some e" "FD_ISSET (fe_fd e) (Some s) = Some b"
        "(if b then call (fe_cb e) (fe_data e) (st, w) else Some (st, w)) = Some (st1, w1)"
        "rec call (Some s) head (next_of (fe_mem st1) (fe_list x)) st1 w1 = Some r"
        using r eq Cons by (auto simp: bind_eq_Some_conv)
      have b: "b \<longleftrightarrow> fe_fd e \<in> s"
        using x(2) by (auto simp: FD_ISSET_def split: if_splits)
      from runs_ready_step[OF call x(1) b x(3) _ I[unfolded Cons]] IH[OF x(4)] eq(3) Cons
      show ?thesis by simp
    qed
  qed
qed

lemma dispatch_runs:
  assumes "appends_events call I" "I xs (st, w)" "handle_one call fds EVT_FD_RD (st, w) = Some r"
    and "fds ! EVT_FD_RD = Some s"
  shows "\<exists>us. I (xs @ us) r \<and> (\<forall>x \<in> set xs. fe_objs (fst r) x = fe_objs st x) \<and>
    run_events call (filter (\<lambda>x. fd_of (fst r) x \<in> s) (xs @ us)) (st, w) = Some r"
proof -
  have d: "do_handle_fd_events call (Some s) (fe_head st EVT_FD_RD) (next_of (fe_mem st) (fe_head st EVT_FD_RD)) st w = Some r"
    using assms(3,4) by (simp add: handle_one_def Let_def)
  have "next_of (fe_mem st) (fe_head st EVT_FD_RD) = List.hd (map fe_list xs @ [fe_head st EVT_FD_RD])"
    using appends_dll[OF assms(1,2)] linked_first by (simp add: dll_def)
  with do_handle_runs[OF assms(1) d, of s] assms(2) show ?thesis
    unfolding runs_ready_def by (metis append_Nil)
qed

text \<open>
  The other way round: when the callbacks of the ready events run through and what they added
  is not ready, the traversal comes to its end.
\<close>

lemma do_handle_idle:
  assumes "linked (fe_mem st) p (map fe_list xs) head" "head \<notin> fe_list ` set xs"
    and "\<And>x. x \<in> set xs \<Longrightarrow> \<exists>e. fe_objs st x = Some e \<and> 0 \<le> fe_fd e \<and> fe_fd e < 1024"
    and "\<And>x. x \<in> set xs \<Longrightarrow> fd_of st x \<notin> s"
  shows "do_handle_fd_events call (Some s) head (next_of (fe_mem st) p) st w = Some (st, w)"
  using assms
proof (induction xs arbitrary: p)
  case Nil
  then show ?case by (simp add: do_handle_fd_events.simps)
next
  case (Cons x xs)
  obtain e where e: "fe_objs st x = Some e" "0 \<le> fe_fd e" "fe_fd e < 1024"
    using Cons.prems(3)[of x] by auto
  have "fe_fd e \<notin> s" "next_of (fe_mem st) p = fe_list x" "fe_list x \<noteq> head"
    using Cons.prems(1,2) Cons.prems(4)[of x] e(1) by (auto simp: fd_of_def)
  moreover have "do_handle_fd_events call (Some s) head (next_of (fe_mem st) (fe_list x)) st w = Some (st, w)"
    using Cons.prems by (intro Cons.IH) auto
  ultimately show ?case
    using e by (subst do_handle_fd_events.simps) (simp add: FD_ISSET_def)
qed

lemma do_handle_all:
  assumes call: "appends_events call I"
    and added: "\<And>us. I (xs @ us) r \<Longrightarrow>
      \<forall>u \<in> set us. (\<exists>e. fe_objs (fst r) u = Some e \<and> 0 \<le> fe_fd e \<and> fe_fd e < 1024) \<and> fd_of (fst r) u \<notin> s"
  shows "xs = ys @ zs \<Longrightarrow> I (xs @ us) (st, w) \<Longrightarrow>
    (\<And>x. x \<in> set zs \<Longrightarrow> \<exists>e. fe_objs st x = Some e \<and> 0 \<le> fe_fd e \<and> fe_fd e < 1024) \<Longrightarrow>
    run_events call (filter (\<lambda>x. fd_of st x \<in> s) zs) (st, w) = Some r \<Longrightarrow>
    do_handle_fd_events call (Some s) (fe_head st EVT_FD_RD)
      (List.hd (map fe_list (zs @ us) @ [fe_head st EVT_FD_RD])) st w = Some r"
proof (induction zs arbitrary: ys us st w)
  case Nil
  then have r: "r = (st, w)" and I: "I (xs @ us) r" by simp_all
  have "dll (fe_mem st) (fe_head st EVT_FD_RD) (map fe_list (ys @ us))"
    using appends_dll[OF call Nil.prems(2)] Nil.prems(1) by simp
  then have l: "linked (fe_mem st) (List.last (fe_head st EVT_FD_RD # map fe_list ys)) (map fe_list us) (fe_head st EVT_FD_RD)"
    "fe_head st EVT_FD_RD \<notin> fe_list ` set us"
    by (cases ys rule: rev_cases; force simp: dll_def)+
  have "\<exists>e. fe_objs st u = Some e \<and> 0 \<le> fe_fd e \<and> fe_fd e < 1024" "fd_of st u \<notin> s" if "u \<in> set us" for u
    using added[OF I] that by (simp_all add: r)
  from do_handle_idle[OF l this] show ?case
    unfolding linked_first[OF l(1)] by (simp add: r)
next
  case (Cons x zs)
  obtain e where e: "fe_objs st x = Some e" "0 \<le> fe_fd e" "fe_fd e < 1024"
    using Cons.prems(3)[of x] by auto
  have I: "I (ys @ x # zs @ us) (st, w)"
    using Cons.prems(1,2) by simp
  have ne: "fe_list x \<noteq> fe_head st EVT_FD_RD"
    using dll_at(1)[of "fe_mem st" "fe_head st EVT_FD_RD" ys x "zs @ us"] appends_dll[OF call I] by simp
  obtain st1 w1 where st1: "(if fe_fd e \<in> s then call (fe_cb e) (fe_data e) (st, w) else Some (st, w)) = Some (st1, w1)"
    and rest: "run_events call (filter (\<lambda>x. fd_of st x \<in> s) zs) (st1, w1) = Some r"
    using Cons.prems(4) e(1) by (cases "fe_fd e \<in> s") (auto simp: run_event_def fd_of_def bind_eq_Some_conv)
  obtain vs where vs: "I ((ys @ [x]) @ ((zs @ us) @ vs)) (st1, w1)" "fe_base st1 = fe_base st"
    "\<And>y. y \<in> set (ys @ x # (zs @ us)) \<Longrightarrow> fe_objs st1 y = fe_objs st y"
    "next_of (fe_mem st1) (fe_list x) = List.hd (map fe_list ((zs @ us) @ vs) @ [fe_head st EVT_FD_RD])"
    using appends_step[OF call I st1] by blast
  have h1: "fe_head st EVT_FD_RD = fe_head st1 EVT_FD_RD"
    using vs(2) by (simp add: fe_head_def)
  have "filter (\<lambda>x. fd_of st x \<in> s) zs = filter (\<lambda>x. fd_of st1 x \<in> s) zs"
    using vs(3) by (intro filter_cong) (simp_all add: fd_of_def)
  then have "do_handle_fd_events call (Some s) (fe_head st1 EVT_FD_RD)
      (List.hd (map fe_list (zs @ us @ vs) @ [fe_head st1 EVT_FD_RD])) st1 w1 = Some r"
    using Cons.prems(1,3) vs(1,3) rest by (intro Cons.IH[of "ys @ [x]"]) simp_all
  then show ?case
    using e ne st1 vs(4) by (subst do_handle_fd_events.simps) (simp add: FD_ISSET_def h1)
qed

section \<open>Properties\<close>

text \<open>Two descriptors watched for reading (3 and 5), nothing else, for the witnesses.\<close>

definition two_events :: fd_events where
  "two_events =
     \<lparr>fe_mem = \<lparr>next_of = (\<lambda>_. 0)(1000 := 124, 124 := 224, 224 := 1000, 1016 := 1016, 1032 := 1032),
               prev_of = (\<lambda>_. 0)(1000 := 224, 124 := 1000, 224 := 124, 1016 := 1016, 1032 := 1032)\<rparr>,
      fe_objs = [100 \<mapsto> \<lparr>fe_fd = 3, fe_cb = 7, fe_data = 1\<rparr>, 200 \<mapsto> \<lparr>fe_fd = 5, fe_cb = 7, fe_data = 2\<rparr>],
      fe_base = 1000\<rparr>"

lemma two_events_rep:
  "fe_rep two_events EVT_FD_RD [100, 200]" "fe_rep two_events EVT_FD_WR []" "fe_rep two_events EVT_FD_EXC []"
  by (simp_all add: fe_rep_def two_events_def dll_def fe_list_def fe_head_def
      EVT_FD_RD_def EVT_FD_WR_def EVT_FD_EXC_def)

text \<open>
  C25: with no write and no exception events, as in the programs, and the null pointers the
  main loops pass for these two sets, the
  descriptors watched are exactly those of the read events \<open>xs\<close>, and \<open>max_fd\<close> is the largest of
  them (\<open>-1\<close> without any). The dispatch, for callbacks that may add events to be read but cancel
  none and change none: when it returns, what they added is at the end of the list, the events
  there were are as they were, and the callbacks of the events whose descriptor is ready have run,
  each once, in the order of the list, each on the state the one before left, the added ones
  included; and it does return whenever those callbacks do, if what they add is not ready itself
  and there are no write and no exception events in the end (those would be looked up in the null
  sets). \<open>etherd_callbacks_append\<close> shows that the daemon's callbacks are of this kind, and
  \<open>fd_event_self_cancel\<close> that the dispatch breaks on one that cancels its own event.
\<close>

theorem fd_events_watch_and_dispatch:
  assumes "fe_rep st EVT_FD_RD xs" "fe_rep st EVT_FD_WR []" "fe_rep st EVT_FD_EXC []"
    and "appends_events call I" "I xs (st, w)"
  shows "prepare_fd_events st (Some {}) None None =
      Some (Some (fd_of st ` set xs), None, None, Max (insert (- 1) (fd_of st ` set xs))) \<and>
    (handle_fd_events call (Some ready) None None st w = Some (st', w') \<longrightarrow>
      (\<exists>us. dll (fe_mem st') (fe_head st' EVT_FD_RD) (map fe_list (xs @ us)) \<and>
        (\<forall>x \<in> set xs. fe_objs st' x = fe_objs st x) \<and>
        run_events call (filter (\<lambda>x. fd_of st' x \<in> ready) (xs @ us)) (st, w) = Some (st', w'))) \<and>
    (run_events call (filter (\<lambda>x. fd_of st x \<in> ready) xs) (st, w) = Some (st', w') \<and>
      fe_rep st' EVT_FD_RD (xs @ us) \<and> fe_rep st' EVT_FD_WR [] \<and> fe_rep st' EVT_FD_EXC [] \<and>
      (\<forall>u \<in> set us. fd_of st' u \<notin> ready) \<longrightarrow>
      handle_fd_events call (Some ready) None None st w = Some (st', w'))"
proof (intro conjI impI)
  have "do_prepare_fd_events st (Some {}) (fe_head st EVT_FD_RD) (next_of (fe_mem st) (fe_head st EVT_FD_RD)) (- 1) =
      Some (Some ({} \<union> fd_of st ` set xs), fold (\<lambda>x m. max m (fd_of st x)) xs (- 1))"
    using fe_rep_linked[OF assms(1)] by (intro do_prepare_linked) auto
  moreover have "do_prepare_fd_events st None (fe_head st t) (next_of (fe_mem st) (fe_head st t)) m = Some (None, m)"
    if "fe_rep st t []" for t m
    using fe_rep_linked(1)[OF that] by (simp add: do_prepare_fd_events.simps)
  ultimately show "prepare_fd_events st (Some {}) None None =
      Some (Some (fd_of st ` set xs), None, None, Max (insert (- 1) (fd_of st ` set xs)))"
    using assms(2,3) by (simp add: prepare_fd_events_def max_fold Let_def)
next
  assume "handle_fd_events call (Some ready) None None st w = Some (st', w')"
  then obtain r1 r2 where r: "handle_one call [Some ready, None, None] EVT_FD_RD (st, w) = Some r1"
    "handle_one call [Some ready, None, None] EVT_FD_WR r1 = Some r2"
    "handle_one call [Some ready, None, None] EVT_FD_EXC r2 = Some (st', w')"
    by (auto simp: handle_fd_events_def Let_def bind_eq_Some_conv)
  have "handle_one call [Some ready, None, None] EVT_FD_RD (st, w) = Some (st', w')"
    using r(1) handle_one_null_set[OF r(2)] handle_one_null_set[OF r(3)] by simp
  from dispatch_runs[OF assms(4,5) this] obtain us where us: "I (xs @ us) (st', w')"
    "\<forall>x \<in> set xs. fe_objs st' x = fe_objs st x"
    "run_events call (filter (\<lambda>x. fd_of st' x \<in> ready) (xs @ us)) (st, w) = Some (st', w')"
    by (auto simp: EVT_FD_RD_def)
  then show "\<exists>us. dll (fe_mem st') (fe_head st' EVT_FD_RD) (map fe_list (xs @ us)) \<and>
      (\<forall>x \<in> set xs. fe_objs st' x = fe_objs st x) \<and>
      run_events call (filter (\<lambda>x. fd_of st' x \<in> ready) (xs @ us)) (st, w) = Some (st', w')"
    using appends_dll[OF assms(4) us(1)] by auto
next
  assume a: "run_events call (filter (\<lambda>x. fd_of st x \<in> ready) xs) (st, w) = Some (st', w') \<and>
      fe_rep st' EVT_FD_RD (xs @ us) \<and> fe_rep st' EVT_FD_WR [] \<and> fe_rep st' EVT_FD_EXC [] \<and>
      (\<forall>u \<in> set us. fd_of st' u \<notin> ready)"
  have "vs = us" if "I (xs @ vs) (st', w')" for vs
  proof -
    have "map fe_list (xs @ vs) = map fe_list (xs @ us)"
    proof (rule dll_unique)
      show "dll (fe_mem st') (fe_head st' EVT_FD_RD) (map fe_list (xs @ vs))"
        using appends_dll[OF assms(4) that] by simp
      show "dll (fe_mem st') (fe_head st' EVT_FD_RD) (map fe_list (xs @ us))"
        using a by (simp only: fe_rep_def)
    qed
    then have "map fe_list vs = map fe_list us" by simp
    then show ?thesis by (metis inj_map_eq_map injI fe_list_inj)
  qed
  then have "do_handle_fd_events call (Some ready) (fe_head st EVT_FD_RD)
      (List.hd (map fe_list (xs @ []) @ [fe_head st EVT_FD_RD])) st w = Some (st', w')"
    using a assms(5) fe_rep_linked(3)[OF assms(1)] fe_rep_linked(3)[of st' EVT_FD_RD "xs @ us"]
    by (intro do_handle_all[OF assms(4), where ys = "[]"]) auto
  moreover have "next_of (fe_mem st) (fe_head st EVT_FD_RD) = List.hd (map fe_list xs @ [fe_head st EVT_FD_RD])"
    using fe_rep_linked(1)[OF assms(1)] by (rule linked_first)
  ultimately have "handle_one call [Some ready, None, None] EVT_FD_RD (st, w) = Some (st', w')"
    by (simp add: handle_one_def EVT_FD_RD_def)
  then show "handle_fd_events call (Some ready) None None st w = Some (st', w')"
    using a by (simp add: handle_fd_events_def handle_one_null)
qed

text \<open>For the witness: a callback that adds an event at 300 when there is none, and logs its data.\<close>

definition adding_cb :: "addr list fd_cb" where
  "adding_cb cb dat sw =
     Some (if fe_objs (fst sw) 300 = None then snd (add_fd_event (fst sw) 6 EVT_FD_RD 7 9 300) else fst sw,
           snd sw @ [dat])"

definition adding_ok :: "addr list \<Rightarrow> fd_events \<times> addr list \<Rightarrow> bool" where
  "adding_ok xs sw \<longleftrightarrow> fe_base (fst sw) = 1000 \<and> fe_rep (fst sw) EVT_FD_RD xs"

lemma adding_appends: "appends_events adding_cb adding_ok"
proof -
  have "(\<exists>us. adding_ok (xs @ us) sw') \<and> fe_base (fst sw') = fe_base (fst sw) \<and>
      (\<forall>x \<in> set xs. fe_objs (fst sw') x = fe_objs (fst sw) x)"
    if "adding_cb cb dat sw = Some sw'" "adding_ok xs sw" for cb dat sw sw' xs
  proof (cases "fe_objs (fst sw) 300 = None")
    case True
    let ?st = "snd (add_fd_event (fst sw) 6 EVT_FD_RD 7 9 300)"
    have sw': "fst sw' = ?st" using that(1) True by (auto simp: adding_cb_def)
    have rep: "fe_rep (fst sw) EVT_FD_RD xs" "fe_base (fst sw) = 1000"
      using that(2) by (simp_all add: adding_ok_def)
    have n: "300 \<notin> set xs"
      using True rep(1) by (auto simp: fe_rep_def)
    have "fe_list 300 \<noteq> fe_head (fst sw) EVT_FD_RD" "EVT_FD_RD < 3" "(300 :: addr) \<noteq> 0"
      unfolding fe_list_def fe_head_def EVT_FD_RD_def rep(2) by simp_all
    from add_fd_event_spec(2,3)[OF rep(1) this(2,3) n this(1), of 6 7 9]
    have "fe_rep ?st EVT_FD_RD (xs @ [300])" "fe_objs ?st = (fe_objs (fst sw))(300 \<mapsto> \<lparr>fe_fd = 6, fe_cb = 7, fe_data = 9\<rparr>)"
      by simp_all
    then show ?thesis
      using rep(2) n by (auto simp: adding_ok_def sw' add_fd_event_def)
  next
    case False
    then show ?thesis
      using that by (auto simp: adding_ok_def adding_cb_def intro: exI[of _ "[]"])
  qed
  then show ?thesis
    unfolding appends_events_def by (auto simp: adding_ok_def fe_rep_def)
qed

theorem fd_events_watch_and_dispatch_witness:
  "prepare_fd_events two_events (Some {}) None None = Some (Some {3, 5}, None, None, 5) \<and>
   (\<exists>st'. handle_fd_events adding_cb (Some {5}) None None two_events [] = Some (st', [2]) \<and>
      fe_rep st' EVT_FD_RD [100, 200, 300])"
proof -
  let ?st = "snd (add_fd_event two_events 6 EVT_FD_RD 7 9 300)"
  have ok: "adding_ok [100, 200] (two_events, [])"
    using two_events_rep(1) by (simp add: adding_ok_def two_events_def)
  have side: "EVT_FD_RD < 3" "(300 :: addr) \<noteq> 0" "300 \<notin> set [100, 200 :: addr]"
    "fe_list 300 \<noteq> fe_head two_events EVT_FD_RD"
    by (simp_all add: fe_list_def fe_head_def EVT_FD_RD_def two_events_def)
  have new: "fe_rep ?st EVT_FD_RD ([100, 200] @ [300])"
    "fe_objs ?st = (fe_objs two_events)(300 \<mapsto> \<lparr>fe_fd = 6, fe_cb = 7, fe_data = 9\<rparr>)"
    using add_fd_event_spec(2,3)[OF two_events_rep(1) side, of 6 7 9] by simp_all
  have "fe_rep ?st t []" if t: "t = EVT_FD_WR \<or> t = EVT_FD_EXC" for t
  proof (rule add_fd_event_frame[OF two_events_rep(1)])
    show "fe_rep two_events t []" using t two_events_rep(2,3) by auto
  qed (use t in \<open>auto simp: fe_list_def fe_head_def EVT_FD_RD_def EVT_FD_WR_def EVT_FD_EXC_def two_events_def\<close>)
  moreover have "run_events adding_cb (filter (\<lambda>x. fd_of two_events x \<in> {5}) [100, 200]) (two_events, []) = Some (?st, [2])"
    by (simp add: fd_of_def run_event_def adding_cb_def two_events_def)
  moreover have "fd_of ?st 300 \<notin> {5}"
    using new(2) by (simp add: fd_of_def)
  ultimately have "handle_fd_events adding_cb (Some {5}) None None two_events [] = Some (?st, [2])"
    using fd_events_watch_and_dispatch[OF two_events_rep adding_appends ok, of "{5}" ?st "[2]" "[300]"] new(1)
    by simp
  moreover have "prepare_fd_events two_events (Some {}) None None = Some (Some {3, 5}, None, None, 5)"
    using fd_events_watch_and_dispatch[OF two_events_rep adding_appends ok, of "{5}" ?st "[2]" "[300]"]
    by (simp add: fd_of_def two_events_def)
  ultimately show ?thesis using new(1) by auto
qed

text \<open>
  Adding an event puts it at the end of the list of its type and leaves the other
  lists alone, cancelling it again restores the list, and an unknown type or a failed
  allocation adds nothing and returns null.
\<close>

lemma fd_event_add_cancel:
  assumes "fe_rep st t xs" "fe_rep st u ys" "t < 3" "n \<noteq> 0" "n \<notin> set (xs @ ys)" "0 \<le> fd" "fd < 1024"
    and "fe_list n \<noteq> fe_head st t" "fe_list n \<noteq> fe_head st u"
    and "set (fe_head st t # map fe_list xs) \<inter> set (fe_head st u # map fe_list ys) = {}"
  shows "(\<exists>st'. add_fd_event st fd t cb dat n = (n, st') \<and> fe_rep st' t (xs @ [n]) \<and> fe_rep st' u ys \<and>
      fd_event_get_fd st' n = Some fd \<and>
      (\<exists>st''. cancel_fd_event st' n = Some (0, st'') \<and> fe_rep st'' t xs)) \<and>
    add_fd_event st fd (3 + k) cb dat n = (0, st) \<and> add_fd_event st fd t cb dat 0 = (0, st)"
proof -
  let ?st = "snd (add_fd_event st fd t cb dat n)"
  have n: "n \<notin> set xs" using assms(5) by simp
  note add = add_fd_event_spec[OF assms(1,3,4) n assms(8,6,7), of cb dat]
  obtain st'' where c: "cancel_fd_event ?st n = Some (0, st'')" "fe_rep st'' t (remove1 n (xs @ [n]))"
    using cancel_fd_event_spec[OF add(2), of n] by auto
  have "remove1 n (xs @ [n]) = xs" using n by (simp add: remove1_append)
  moreover have "fe_rep ?st u ys"
    using assms by (intro add_fd_event_frame[where xs = xs]) auto
  moreover have "add_fd_event st fd (3 + k) cb dat n = (0, st)" "add_fd_event st fd t cb dat 0 = (0, st)"
    by (simp_all add: add_fd_event_def EVT_FD_RD_def EVT_FD_WR_def EVT_FD_EXC_def)
  ultimately show ?thesis
    using add c by (auto intro!: exI[of _ ?st] exI[of _ st''] simp: fd_event_get_fd_def prod_eq_iff)
qed

lemma fd_event_add_cancel_witness:
  "\<exists>st'. add_fd_event two_events 9 EVT_FD_WR 7 3 300 = (300, st') \<and> fe_rep st' EVT_FD_WR [300] \<and>
    fe_rep st' EVT_FD_RD [100, 200]"
proof -
  have "fe_list 300 \<noteq> fe_head two_events EVT_FD_WR" "fe_list 300 \<noteq> fe_head two_events EVT_FD_RD"
      "set (fe_head two_events EVT_FD_WR # map fe_list []) \<inter>
       set (fe_head two_events EVT_FD_RD # map fe_list [100, 200]) = {}" "EVT_FD_WR < 3"
    by (simp_all add: fe_list_def fe_head_def two_events_def EVT_FD_RD_def EVT_FD_WR_def)
  then show ?thesis
    using fd_event_add_cancel[OF two_events_rep(2,1), of 300 9 7 3 0] by auto
qed

text \<open>
  The dispatch does not survive a callback that cancels its own event: the event is
  freed and its link poisoned before the traversal reads it to go on.
\<close>

lemma fd_event_self_cancel:
  assumes "fe_rep st t (x # xs)" "fd_of st x \<in> ready" "fe_head st t \<noteq> LIST_POISON1"
    and "fe_objs st (fe_entry LIST_POISON1) = None"
  shows "do_handle_fd_events
      (\<lambda>cb dat (st, w). Option.bind (cancel_fd_event st x) (\<lambda>(_, st'). Some (st', w)))
      (Some ready) (fe_head st t) (next_of (fe_mem st) (fe_head st t)) st w = None"
proof -
  obtain e where e: "fe_objs st x = Some e" "0 \<le> fe_fd e" "fe_fd e < 1024" "fd_of st x = fe_fd e"
    using fe_rep_get[OF assms(1)] by auto
  have "next_of (fe_mem st) (fe_head st t) = fe_list x" "fe_list x \<noteq> fe_head st t"
    using fe_rep_linked(1,2)[OF assms(1)] by auto
  then show ?thesis
    using e assms(2-4) list_del_poison(1)[of "fe_mem st" "fe_list x"]
    by (subst do_handle_fd_events.simps)
      (simp add: FD_ISSET_def cancel_fd_event_def do_handle_fd_events.simps[where pos = LIST_POISON1])
qed

lemma fd_event_self_cancel_witness:
  "do_handle_fd_events
      (\<lambda>cb dat (st, w). Option.bind (cancel_fd_event st 100) (\<lambda>(_, st'). Some (st', w)))
      (Some {3}) (fe_head two_events EVT_FD_RD)
      (next_of (fe_mem two_events) (fe_head two_events EVT_FD_RD)) two_events () = None"
  using fd_event_self_cancel[OF two_events_rep(1), of "{3}" "()"]
  by (simp add: fd_of_def two_events_def fe_head_def EVT_FD_RD_def LIST_POISON1_def fe_entry_def)

end
