(* ===== verification/Udev_Event.thy ===== *)
theory Udev_Event
  imports Fd_Event
begin

text \<open>
  The device events of \<^verbatim>\<open>util/udev-events.c\<close>: callbacks scheduled for an action of the device
  manager, and the dispatch of a device that was announced. The library \<^verbatim>\<open>libudev\<close> is outside
  the repository: what it answers is an input.
\<close>

section \<open>State\<close>

record udev_event =
  ue_id :: int
  ue_cb :: addr
  ue_data :: addr

definition udev_new_virtio_backend :: int where "udev_new_virtio_backend = 1"
definition udev_del_virtio_backend :: int where "udev_del_virtio_backend = 2"

record udev_events =
  ue_mem :: list_mem
  ue_objs :: "addr \<rightharpoonup> udev_event"
  ue_head :: addr

definition ue_list :: "addr \<Rightarrow> addr" where "ue_list e = e + 24"
definition ue_entry :: "addr \<Rightarrow> addr" where "ue_entry l = l - 24"

lemma ue_entry_list [simp]: "ue_entry (ue_list e) = e"
  by (simp add: ue_entry_def ue_list_def)

lemma ue_list_inj [simp]: "ue_list a = ue_list b \<longleftrightarrow> a = b"
  by (simp add: ue_list_def)

text \<open>A device: its action (\<^term>\<open>None\<close> for a null pointer) and its path.\<close>

record udev_device =
  ud_action :: "string option"
  ud_syspath :: string

section \<open>Operations\<close>

definition udev_actions :: "(string \<times> int) list" where
  "udev_actions = [(''add'', udev_new_virtio_backend), (''remove'', udev_del_virtio_backend)]"

definition action_to_id :: "string \<Rightarrow> int option" where
  "action_to_id action = map_option snd (find (\<lambda>(a, _). action = a) udev_actions)"

text \<open>\<open>alloc\<close> is what \<^verbatim>\<open>malloc\<close> returns (0 when it fails).\<close>

definition schedule_udev_event ::
    "udev_events \<Rightarrow> int \<Rightarrow> addr \<Rightarrow> addr \<Rightarrow> addr \<Rightarrow> int \<times> udev_events" where
  "schedule_udev_event st uid cb cb_data alloc =
     (if alloc = 0 then (- 1, st)
      else (0, st\<lparr>ue_mem := list_add_tail (ue_mem st) (ue_list alloc) (ue_head st),
                  ue_objs := (ue_objs st)(alloc \<mapsto> \<lparr>ue_id = uid, ue_cb = cb, ue_data = cb_data\<rparr>)\<rparr>))"

text \<open>
  The result of \<open>udev_new\<close>, the descriptor of the monitor, the address of \<open>do_udev_event\<close>, of
  the monitor and of the new event are inputs.
\<close>

definition udev_events_init ::
    "udev_events \<Rightarrow> fd_events \<Rightarrow> bool \<Rightarrow> int \<Rightarrow> addr \<Rightarrow> addr \<Rightarrow> addr \<Rightarrow> int \<times> udev_events \<times> fd_events" where
  "udev_events_init st fe udev fd cb mon alloc =
     (if \<not> udev then (- 1, st, fe)
      else
        let fe' = snd (add_fd_event fe fd EVT_FD_RD cb mon alloc)
        in (0, st\<lparr>ue_mem := INIT_LIST_HEAD (ue_mem st) (ue_head st)\<rparr>, fe'))"

text \<open>
  The dispatch: \<open>tmp\<close> is the entry after \<open>pos\<close>, read before the callback runs. The last
  component of the result of \<open>do_udev_event\<close> is whether the reference to the device was given
  back. An action that is null is undefined.
\<close>

type_synonym 'w udev_cb = "addr \<Rightarrow> udev_device \<Rightarrow> addr \<Rightarrow> udev_events \<times> 'w \<Rightarrow> (udev_events \<times> 'w) option"

partial_function (option) udev_loop ::
    "'w udev_cb \<Rightarrow> udev_device \<Rightarrow> int \<Rightarrow> addr \<Rightarrow> addr \<Rightarrow> udev_events \<Rightarrow> 'w \<Rightarrow> (udev_events \<times> 'w) option" where
  "udev_loop call dev uid pos tmp st w =
     (if pos = ue_head st then Some (st, w)
      else
        Option.bind (ue_objs st (ue_entry pos)) (\<lambda>e.
        Option.bind (if ue_id e = uid then call (ue_cb e) dev (ue_data e) (st, w) else Some (st, w))
          (\<lambda>(st', w'). udev_loop call dev uid tmp (next_of (ue_mem st') tmp) st' w')))"

declare udev_loop.simps [code]

definition do_udev_event ::
    "'w udev_cb \<Rightarrow> udev_device option \<Rightarrow> udev_events \<Rightarrow> 'w \<Rightarrow> (udev_events \<times> 'w \<times> bool) option" where
  "do_udev_event call received st w =
     (case received of
        None \<Rightarrow> Some (st, w, False)
      | Some dev \<Rightarrow>
          Option.bind (ud_action dev) (\<lambda>action.
            case action_to_id action of
              None \<Rightarrow> Some (st, w, False)
            | Some uid \<Rightarrow>
                let pos = next_of (ue_mem st) (ue_head st)
                in Option.bind (udev_loop call dev uid pos (next_of (ue_mem st) pos) st w)
                     (\<lambda>(st', w'). Some (st', w', True))))"

section \<open>The list of the events\<close>

definition ue_rep :: "udev_events \<Rightarrow> addr list \<Rightarrow> bool" where
  "ue_rep st xs \<longleftrightarrow> dll (ue_mem st) (ue_head st) (map ue_list xs) \<and> (\<forall>x \<in> set xs. ue_objs st x \<noteq> None)"

definition pure_ucb :: "(addr \<Rightarrow> udev_device \<Rightarrow> addr \<Rightarrow> 'w \<Rightarrow> 'w) \<Rightarrow> 'w udev_cb" where
  "pure_ucb f cb dev dat sw = Some (fst sw, f cb dev dat (snd sw))"

definition run_ucb :: "(addr \<Rightarrow> udev_device \<Rightarrow> addr \<Rightarrow> 'w \<Rightarrow> 'w) \<Rightarrow> udev_device \<Rightarrow> udev_events \<Rightarrow> addr \<Rightarrow> 'w \<Rightarrow> 'w" where
  "run_ucb f dev st x w = (let e = the (ue_objs st x) in f (ue_cb e) dev (ue_data e) w)"

definition id_of :: "udev_events \<Rightarrow> addr \<Rightarrow> int" where
  "id_of st x = ue_id (the (ue_objs st x))"

lemma udev_loop_linked:
  assumes "linked (ue_mem st) p (map ue_list xs) (ue_head st)" "ue_head st \<notin> ue_list ` set xs"
    and "\<And>x. x \<in> set xs \<Longrightarrow> ue_objs st x \<noteq> None"
  shows "udev_loop (pure_ucb f) dev uid (next_of (ue_mem st) p) (next_of (ue_mem st) (next_of (ue_mem st) p)) st w =
    Some (st, fold (run_ucb f dev st) (filter (\<lambda>x. id_of st x = uid) xs) w)"
  using assms
proof (induction xs arbitrary: p w)
  case Nil
  then show ?case by (simp add: udev_loop.simps)
next
  case (Cons x xs)
  obtain e where e: "ue_objs st x = Some e"
    using Cons.prems(3)[of x] by auto
  have IH: "udev_loop (pure_ucb f) dev uid (next_of (ue_mem st) (ue_list x))
        (next_of (ue_mem st) (next_of (ue_mem st) (ue_list x))) st w =
      Some (st, fold (run_ucb f dev st) (filter (\<lambda>x. id_of st x = uid) xs) w)" for w
    using Cons.prems by (intro Cons.IH) auto
  show ?case
    using Cons.prems e
    by (subst udev_loop.simps) (auto simp: pure_ucb_def run_ucb_def id_of_def IH Let_def)
qed

lemma do_udev_event_spec:
  assumes "ue_rep st xs" "ud_action dev = Some action"
  shows "do_udev_event (pure_ucb f) (Some dev) st w =
    (case action_to_id action of
       None \<Rightarrow> Some (st, w, False)
     | Some uid \<Rightarrow> Some (st, fold (run_ucb f dev st) (filter (\<lambda>x. id_of st x = uid) xs) w, True))"
proof -
  have "linked (ue_mem st) (ue_head st) (map ue_list xs) (ue_head st)" "ue_head st \<notin> ue_list ` set xs"
      "\<And>x. x \<in> set xs \<Longrightarrow> ue_objs st x \<noteq> None"
    using assms(1) by (auto simp: ue_rep_def dll_def)
  from udev_loop_linked[OF this, of f dev _ w] show ?thesis
    using assms(2) by (simp add: do_udev_event_def Let_def split: option.split)
qed

lemma schedule_udev_event_spec:
  assumes "ue_rep st xs" "n \<noteq> 0" "n \<notin> set xs" "ue_list n \<noteq> ue_head st"
  shows "\<exists>st'. schedule_udev_event st uid cb dat n = (0, st') \<and> ue_rep st' (xs @ [n]) \<and>
    ue_objs st' = (ue_objs st)(n \<mapsto> \<lparr>ue_id = uid, ue_cb = cb, ue_data = dat\<rparr>)"
proof -
  have "dll (ue_mem st) (ue_head st) (map ue_list xs)" "ue_list n \<notin> set (ue_head st # map ue_list xs)"
    using assms by (auto simp: ue_rep_def)
  from dll_list_add_tail[OF this] assms show ?thesis
    by (auto simp: schedule_udev_event_def ue_rep_def)
qed

section \<open>What the callbacks keep\<close>

text \<open>What a callback keeps of the events and the program together, an announcement keeps.\<close>

locale udev_dispatch =
  fixes call :: "'w udev_cb" and P :: "udev_events \<times> 'w \<Rightarrow> bool"
  assumes call_keeps: "call cb dev data sw = Some sw' \<Longrightarrow> P sw \<Longrightarrow> P sw'"
begin

lemma udev_loop_keeps:
  assumes "udev_loop call dev uid pos tmp st w = Some r" "P (st, w)"
  shows "P r"
proof -
  have "call = call \<longrightarrow> P (st, w) \<longrightarrow> P r"
  proof (rule udev_loop.raw_induct[OF _ assms(1), where P = "\<lambda>call' dev uid pos tmp st w r.
      call' = call \<longrightarrow> P (st, w) \<longrightarrow> P r"])
  qed (auto simp: bind_eq_Some_conv split: if_splits dest: call_keeps)
  then show ?thesis using assms(2) by simp
qed

lemma do_udev_event_keeps:
  "do_udev_event call received st w = Some (st', w', b) \<Longrightarrow> P (st, w) \<Longrightarrow> P (st', w')"
  using udev_loop_keeps by (auto simp: do_udev_event_def Let_def bind_eq_Some_conv split: option.splits)

end

section \<open>Properties\<close>

text \<open>
  C36: a callback scheduled for an action runs when a device with that action is
  announced, after those scheduled for the action before it and with the device and its own
  data; callbacks for other actions do not run.
\<close>

theorem udev_event_dispatch:
  assumes "ue_rep st xs" "n \<noteq> 0" "n \<notin> set xs" "ue_list n \<noteq> ue_head st" "ud_action dev = Some action"
  shows "\<exists>st'. schedule_udev_event st uid cb dat n = (0, st') \<and> ue_rep st' (xs @ [n]) \<and>
    (action_to_id action = Some uid \<longrightarrow>
      do_udev_event (pure_ucb f) (Some dev) st' w =
        Some (st', f cb dev dat (fold (run_ucb f dev st) (filter (\<lambda>x. id_of st x = uid) xs) w), True)) \<and>
    (\<forall>u. action_to_id action = Some u \<longrightarrow> u \<noteq> uid \<longrightarrow>
      do_udev_event (pure_ucb f) (Some dev) st' w =
        Some (st', fold (run_ucb f dev st) (filter (\<lambda>x. id_of st x = u) xs) w, True))"
proof -
  obtain st' where s: "schedule_udev_event st uid cb dat n = (0, st')" "ue_rep st' (xs @ [n])"
      "ue_objs st' = (ue_objs st)(n \<mapsto> \<lparr>ue_id = uid, ue_cb = cb, ue_data = dat\<rparr>)"
    using schedule_udev_event_spec[OF assms(1-4)] by blast
  have ids: "id_of st' n = uid" "run_ucb f dev st' n = f cb dev dat"
    by (simp_all add: id_of_def run_ucb_def s(3) fun_eq_iff)
  have old: "id_of st' x = id_of st x" "run_ucb f dev st' x = run_ucb f dev st x" if "x \<in> set xs" for x
    using that assms(3) by (auto simp: id_of_def run_ucb_def s(3) fun_eq_iff)
  have fl: "filter (\<lambda>x. id_of st' x = u) xs = filter (\<lambda>x. id_of st x = u) xs" for u
    using old(1) by (intro filter_cong) auto
  have fd: "fold (run_ucb f dev st') (filter (\<lambda>x. id_of st x = u) xs) w =
      fold (run_ucb f dev st) (filter (\<lambda>x. id_of st x = u) xs) w" for u
    using old(2) by (intro fold_cong) auto
  show ?thesis
    using s(1,2) do_udev_event_spec[OF s(2) assms(5), of f w]
    by (intro exI[of _ st']) (simp add: ids fl fd)
qed

definition no_events :: udev_events where
  "no_events = \<lparr>ue_mem = \<lparr>next_of = (\<lambda>_. 0)(1000 := 1000), prev_of = (\<lambda>_. 0)(1000 := 1000)\<rparr>,
     ue_objs = Map.empty, ue_head = 1000\<rparr>"

lemma no_events_rep: "ue_rep no_events []"
  by (simp add: ue_rep_def no_events_def dll_def)

theorem udev_event_dispatch_witness:
  "\<exists>st'. schedule_udev_event no_events 1 7 3 100 = (0, st') \<and>
    do_udev_event (pure_ucb (\<lambda>cb dev dat log. log @ [dat]))
      (Some \<lparr>ud_action = Some ''add'', ud_syspath = ''/x''\<rparr>) st' [] = Some (st', [3], True)"
proof -
  have "action_to_id ''add'' = Some 1"
    by (simp add: action_to_id_def udev_actions_def udev_new_virtio_backend_def)
  moreover have "ue_list 100 \<noteq> ue_head no_events"
    by (simp add: ue_list_def no_events_def)
  ultimately show ?thesis
    using udev_event_dispatch[OF no_events_rep, of 100 "\<lparr>ud_action = Some ''add'', ud_syspath = ''/x''\<rparr>" "''add''" 1 7 3
        "\<lambda>cb dev dat log. log @ [dat]" "[]"]
    by auto
qed

text \<open>
  A device whose action is neither \<^verbatim>\<open>add\<close> nor \<^verbatim>\<open>remove\<close> runs nothing, and the
  reference to it is not given back, unlike that of every other device.
\<close>

lemma udev_event_unknown_leaks:
  assumes "ud_action dev = Some action" "ue_rep st xs"
  shows "\<exists>st' w' unref. do_udev_event (pure_ucb f) (Some dev) st w = Some (st', w', unref) \<and>
    (unref \<longleftrightarrow> action = ''add'' \<or> action = ''remove'') \<and> (\<not> unref \<longrightarrow> st' = st \<and> w' = w)"
  using do_udev_event_spec[OF assms(2,1), of f w]
  by (auto simp: action_to_id_def udev_actions_def split: if_splits)

lemma udev_event_unknown_leaks_witness:
  "\<exists>st' w'. do_udev_event (pure_ucb (\<lambda>cb dev dat log. log @ [dat]))
     (Some \<lparr>ud_action = Some ''change'', ud_syspath = ''/x''\<rparr>) no_events [] = Some (st', w', False)"
  using udev_event_unknown_leaks[of "\<lparr>ud_action = Some ''change'', ud_syspath = ''/x''\<rparr>" "''change''"
      no_events "[]" "\<lambda>cb dev dat log. log @ [dat]" "[]"] no_events_rep by auto

end
