(* ===== verification/Ether.thy ===== *)
theory Ether
  imports Lininoio_Node Timeout Udev_Event Virtio_Ring
begin

text \<open>
  Lininoio over Ethernet, \<^verbatim>\<open>etherd/lininoio-ether.c\<close>: the nodes with their two lists, the
  association of a node with its cores and channels, the remote processors set up for it,
  the data packets and the death of a node.
\<close>

section \<open>State and environment\<close>

record sockaddr_ll =
  sll_family :: u16
  sll_protocol :: u16
  sll_ifindex :: u32
  sll_hatype :: u16
  sll_pkttype :: u8
  sll_halen :: u8
  sll_addr :: "u8 list"

record ether_node =
  en_node :: lininoio_node
  en_addr :: sockaddr_ll

text \<open>
  The system calls made, in order; a message is its vectors, \<^term>\<open>None\<close> for a vector that was
  not filled in.
\<close>

datatype os_call =
    Open string
  | Free addr
  | Read int
  | Socket int int u16
  | Ioctl_ifindex int string
  | Bind int sockaddr_ll
  | Mmap int int
  | Write_file int "u8 list"
  | Close int
  | Eventfd
  | Ioctl_add_proc int r2p_processor_data
  | Sendmsg int sockaddr_ll "u8 list option list"
  | Unlink string

text \<open>A backend device; its name, its descriptor and event, the mapping of its vring.\<close>

record virtio_backend =
  vbe_devname :: string
  vbe_fd :: int
  vbe_evt :: addr
  vbe_vring_ptr :: int
  vbe_phy_offset :: nat
  vbe_minor :: nat
  vbe_vring_index :: nat
  vbe_core :: addr
  vbe_channel :: addr

text \<open>
  The state: the cells of the node lists, their two heads (\<^verbatim>\<open>free_nodes\<close> and \<^verbatim>\<open>nodes\<close> of
  \<^verbatim>\<open>struct ether_data\<close>), the structures, the socket with its address and event, the timeouts, descriptor and device events,
  the table of protocol operations, the next answers of the allocator and of the system, and
  the calls made. The member \<^verbatim>\<open>list\<close> of the node at \<open>n\<close> is at \<open>n_list n\<close>; an ether node starts
  with its node, so \<open>to_ether_node\<close> keeps the address.
\<close>

record ether =
  e_mem :: list_mem
  e_free_nodes :: addr
  e_nodes :: addr
  e_objs :: "addr \<rightharpoonup> ether_node"
  e_cores :: "addr \<rightharpoonup> lininoio_core"
  e_chans :: "addr \<rightharpoonup> lininoio_channel"
  e_vbes :: "addr \<rightharpoonup> virtio_backend"
  e_addr :: sockaddr_ll
  e_netif_fd :: int
  e_rx_event :: addr
  e_timeouts :: timeouts
  e_fds :: fd_events
  e_udev :: udev_events
  e_ops :: ops_table
  e_allocs :: "addr list"
  e_sys :: "int list"
  e_log :: "os_call list"

definition n_list :: "addr \<Rightarrow> addr" where "n_list n = n + 112"
definition n_entry :: "addr \<Rightarrow> addr" where "n_entry l = l - 112"

lemma n_entry_list [simp]: "n_entry (n_list n) = n"
  by (simp add: n_entry_def n_list_def)

lemma n_list_inj [simp]: "n_list a = n_list b \<longleftrightarrow> a = b"
  by (simp add: n_list_def)

text \<open>
  The environment: the methods behind a protocol's operations (a missing method is \<^term>\<open>None\<close>),
  acting on the state \<^typ>\<open>'w\<close> of the protocol handlers, the loader of the handlers, the
  contents of a firmware resource, what the system knows of a device and of an interface, the
  addresses of the program's callbacks, the option \<^verbatim>\<open>opt_alive_timeout\<close>, the page size and the
  kernel's two constants, the first descriptor of a mapped ring, the bytes of the memory a device
  may point at (\<^term>\<open>None\<close> one that cannot be read), and what fresh memory holds.
\<close>

record 'w ether_env =
  ee_connect :: "addr \<Rightarrow> (lininoio_channel \<Rightarrow> 'w \<Rightarrow> (int \<times> lininoio_channel \<times> 'w) option) option"
  ee_inbound :: "addr \<Rightarrow> (lininoio_channel \<Rightarrow> u8 list \<Rightarrow> 'w \<Rightarrow> 'w option) option"
  ee_disconnect :: "addr \<Rightarrow> (lininoio_channel \<Rightarrow> 'w \<Rightarrow> 'w option) option"
  ee_load :: "u16 \<Rightarrow> 'w \<Rightarrow> (addr option \<times> 'w) option"
  ee_resource :: "addr \<Rightarrow> 'w \<Rightarrow> u8 list option"
  ee_phy_offset :: "udev_device \<Rightarrow> string option"
  ee_minor :: "udev_device \<Rightarrow> nat"
  ee_ifindex :: "string \<Rightarrow> u32"
  ee_rx_cb :: addr
  ee_udev_cb :: addr
  ee_backend_readable :: addr
  ee_start_cb :: addr
  ee_stop_cb :: addr
  ee_backend_add :: addr
  ee_kill_node :: addr
  ee_alive_timeout :: u64
  ee_page_size :: nat
  ee_ring :: "int \<Rightarrow> vring_desc"
  ee_byte :: "u64 \<Rightarrow> u8 option"
  ee_magic :: u32
  ee_fw_simple :: u32
  ee_uninit_core :: lininoio_core
  ee_uninit_chan :: lininoio_channel

definition R2PROC_MISC_DEV :: string where "R2PROC_MISC_DEV = ''/dev/r2proc''"

definition e_malloc :: "ether \<Rightarrow> addr \<times> ether" where
  "e_malloc st = (let (a, as) = malloc (e_allocs st) in (a, st\<lparr>e_allocs := as\<rparr>))"

text \<open>A system call with a result (\<open>-1\<close> when no answer is left), and one without.\<close>

definition syscall :: "os_call \<Rightarrow> ether \<Rightarrow> int \<times> ether" where
  "syscall c st =
     (case e_sys st of
        [] \<Rightarrow> (- 1, st\<lparr>e_log := e_log st @ [c]\<rparr>)
      | r # rs \<Rightarrow> (r, st\<lparr>e_sys := rs, e_log := e_log st @ [c]\<rparr>))"

definition syscall0 :: "os_call \<Rightarrow> ether \<Rightarrow> ether" where
  "syscall0 c st = st\<lparr>e_log := e_log st @ [c]\<rparr>"

definition upd_node :: "addr \<Rightarrow> (lininoio_node \<Rightarrow> lininoio_node) \<Rightarrow> ether \<Rightarrow> ether option" where
  "upd_node n f st =
     Option.bind (e_objs st n) (\<lambda>en.
       Some (st\<lparr>e_objs := (e_objs st)(n \<mapsto> en\<lparr>en_node := f (en_node en)\<rparr>)\<rparr>))"

section \<open>Nodes\<close>

text \<open>
  The lookups traverse the list of the nodes; the nodes on it are never freed. \<^term>\<open>None\<close> is a
  traversal that does not end, \<^term>\<open>Some 0\<close> the null pointer.
\<close>

definition mac_to_node :: "ether \<Rightarrow> u8 list \<Rightarrow> addr option" where
  "mac_to_node st mac =
     map_option (\<lambda>r. case r of None \<Rightarrow> 0 | Some l \<Rightarrow> n_entry l)
       (list_find_entry
         (\<lambda>l. case e_objs st (n_entry l) of None \<Rightarrow> False | Some en \<Rightarrow> sll_addr (en_addr en) = mac)
         (e_mem st) (e_nodes st))"

definition find_node :: "ether \<Rightarrow> sockaddr_ll \<Rightarrow> addr option" where
  "find_node st from =
     map_option (\<lambda>r. case r of None \<Rightarrow> 0 | Some l \<Rightarrow> n_entry l)
       (list_find_entry
         (\<lambda>l. case e_objs st (n_entry l) of None \<Rightarrow> False | Some en \<Rightarrow> en_addr en = from)
         (e_mem st) (e_nodes st))"

definition get_node :: "ether \<Rightarrow> sockaddr_ll \<Rightarrow> (addr \<times> ether) option" where
  "get_node st from =
     (if list_empty (e_mem st) (e_free_nodes st) then Some (0, st)
      else
        let out = n_entry (list_first_entry (e_mem st) (e_free_nodes st))
        in Option.bind (e_objs st out) (\<lambda>en.
             let node = (en_node en)\<lparr>n_name := (n_name (en_node en))[0 := 0], n_alive_to := 0,
                   n_cores := replicate LININOIO_MAX_NCORES 0, n_nchannels := 0, n_ll_data := 0,
                   n_send_packet := 0, n_channels := replicate LININOIO_MAX_NCHANNELS 0\<rparr>
             in Some (out, st\<lparr>e_mem := list_move (e_mem st) (n_list out) (e_nodes st),
                              e_objs := (e_objs st)(out \<mapsto> \<lparr>en_node = node, en_addr = from\<rparr>)\<rparr>)))"

text \<open>\<open>kill_remoteprocs\<close> does nothing. A channel without operations is a null dereference.\<close>

definition kill_remoteprocs :: "addr \<Rightarrow> ether \<Rightarrow> ether" where
  "kill_remoteprocs n st = st"

fun kill_channels :: "'w ether_env \<Rightarrow> addr list \<Rightarrow> ether \<Rightarrow> 'w \<Rightarrow> (ether \<times> 'w) option" where
  "kill_channels env [] st w = Some (st, w)"
| "kill_channels env (c # cs) st w =
     (if c = 0 then Some (st, w)
      else
        Option.bind (e_chans st c) (\<lambda>ch.
        if ch_ops ch = 0 then None
        else
          Option.bind (case ee_disconnect env (ch_ops ch) of
                         None \<Rightarrow> Some w
                       | Some disconnect \<Rightarrow> disconnect ch w) (\<lambda>w'.
          kill_channels env cs (syscall0 (Free c) (st\<lparr>e_chans := (e_chans st)(c := None)\<rparr>)) w')))"

definition kill_node :: "'w ether_env \<Rightarrow> addr \<Rightarrow> ether \<Rightarrow> 'w \<Rightarrow> (ether \<times> 'w) option" where
  "kill_node env node st w =
     (let st1 = kill_remoteprocs node st
      in Option.bind (e_objs st1 node) (\<lambda>en.
         Option.bind (kill_channels env (n_channels (en_node en)) st1 w) (\<lambda>(st2, w').
           Some (st2\<lparr>e_mem := list_move (e_mem st2) (n_list node) (e_free_nodes st2)\<rparr>, w'))))"

section \<open>The association reply\<close>

text \<open>
  The vectors of the reply: one for the header and one for each channel, of which the loop
  over the channels fills in every second one from the first channel's association data, and
  does not end by itself: \<^term>\<open>None\<close> is the write past the last vector.
\<close>

function areply_loop :: "u8 list option list \<Rightarrow> nat \<Rightarrow> u8 list \<Rightarrow> u8 list option list option" where
  "areply_loop vecs i adata =
     Option.bind (array_set vecs i (Some adata)) (\<lambda>vecs'. areply_loop vecs' (i + 2) adata)"
  by pat_completeness auto
termination
  by (relation "measure (\<lambda>(vecs, i, _). length vecs - i)") (auto simp: array_set_Some)

declare areply_loop.simps [simp del]

definition adata_bytes :: "assoc_data \<Rightarrow> u8 list" where
  "adata_bytes ad =
     ucast (ad_chan_dlen ad) # ucast (drop_bit 8 (ad_chan_dlen ad)) #
     take (unat (fst (lininoio_decode_cdlen (ad_chan_dlen ad)))) (ad_chan_data ad)"

definition ether_send_areply :: "addr \<Rightarrow> int \<Rightarrow> ether \<Rightarrow> (int \<times> ether) option" where
  "ether_send_areply node stat st =
     Option.bind (e_objs st node) (\<lambda>en.
     let p = [LININOIO_PACKET_AREPLY, of_int stat];
         (vecs_ptr, st1) = e_malloc st
     in if vecs_ptr = 0 then Some (- 1, st1)
        else
          let n = nat (1 + n_nchannels (en_node en));
              vecs = (replicate n None)[0 := Some p]
          in Option.bind (array_get (n_channels (en_node en)) 0) (\<lambda>c.
             Option.bind (if c = 0 then Some vecs
                          else Option.bind (e_chans st1 c) (\<lambda>ch.
                                 Option.bind (ch_adata ch) (\<lambda>ad. areply_loop vecs 1 (adata_bytes ad))))
               (\<lambda>vecs'. let (ret, st2) = syscall (Sendmsg (e_netif_fd st1) (en_addr en) vecs') st1
                  in Some (ret, syscall0 (Free vecs_ptr) st2))))"

section \<open>Cores and channels\<close>

text \<open>The name of a node as a C string; without a terminator its bytes run into the next member.\<close>

definition node_name :: "lininoio_node \<Rightarrow> string option" where
  "node_name n =
     (if 0 \<in> set (n_name n) then Some (map (\<lambda>b. char_of (unat b)) (takeWhile (\<lambda>b. b \<noteq> 0) (n_name n)))
      else None)"

definition digit :: "nat \<Rightarrow> char" where
  "digit d = char_of (48 + d)"

definition get_core :: "'w ether_env \<Rightarrow> addr \<Rightarrow> nat \<Rightarrow> ether \<Rightarrow> (addr \<times> ether) option" where
  "get_core env n core_id st =
     Option.bind (e_objs st n) (\<lambda>en.
     Option.bind (array_get (n_cores (en_node en)) core_id) (\<lambda>core.
       if core \<noteq> 0 then Some (core, st)
       else
         let (core, st1) = e_malloc st
         in if core = 0 then Some (0, st1)
            else
              Option.bind (node_name (en_node en)) (\<lambda>name.
              let co = (ee_uninit_core env)\<lparr>co_rproc_name := take 31 (name @ CHR ''-'' # [digit core_id]),
                    co_nchannels := 0, co_channels := [], co_node := n\<rparr>
              in Option.bind (upd_node n (\<lambda>nd. nd\<lparr>n_cores := (n_cores nd)[core_id := core]\<rparr>)
                               (st1\<lparr>e_cores := (e_cores st1)(core \<mapsto> co)\<rparr>)) (\<lambda>st2.
                 Some (core, st2)))))"

definition new_channel :: "'w ether_env \<Rightarrow> addr \<Rightarrow> nat \<Rightarrow> u16 \<Rightarrow> ether \<Rightarrow> (addr \<times> ether) option" where
  "new_channel env n chan_id cdescr st =
     (let core_id = lininoio_cdescr_to_core_id cdescr
      in Option.bind (get_core env n (unat core_id) st) (\<lambda>(core, st1).
         if core = 0 then Some (0, st1)
         else
           let (out, st2) = e_malloc st1
           in if out = 0 then Some (0, st2)
              else
                Option.bind (e_cores st2 core) (\<lambda>co.
                Some (out, st2\<lparr>e_chans := (e_chans st2)(out \<mapsto> ee_uninit_chan env),
                               e_cores := (e_cores st2)(core \<mapsto>
                                 co\<lparr>co_channels := co_channels co @ [out],
                                    co_nchannels := co_nchannels co + 1\<rparr>)\<rparr>))))"

end
