(* ===== verification/Ether_Rx.thy ===== *)
theory Ether_Rx
  imports Ether
begin

text \<open>
  The second half of \<^verbatim>\<open>etherd/lininoio-ether.c\<close>: the firmware written for a core, the set-up of
  the remote processors, the handlers of the packets, and the initialisation.
\<close>

section \<open>The firmware of a core\<close>

definition le32 :: "u32 \<Rightarrow> u8 list" where
  "le32 x = map (\<lambda>k. ucast (drop_bit (8 * k) x)) [0 ..< 4]"

text \<open>
  The loop over the channels: \<open>r\<close> is the offset of the next resource from the resource
  table. The results are the offsets and the bytes of the resources.
\<close>

fun fw_loop :: "'w ether_env \<Rightarrow> ether \<Rightarrow> 'w \<Rightarrow> addr list \<Rightarrow> nat \<Rightarrow> (nat list \<times> u8 list) option" where
  "fw_loop env st w [] r = Some ([], [])"
| "fw_loop env st w (c # cs) r =
     Option.bind (e_chans st c) (\<lambda>ch.
     Option.bind (ee_resource env (ch_resources ch) w) (\<lambda>res.
     let len = nat (ch_resources_len ch)
     in if ch_resources_len ch < 0 \<or> length res < len then None
        else
          Option.bind (fw_loop env st w cs (r + len)) (\<lambda>(offs, bytes).
            Some (r # offs, take len res @ bytes))))"

text \<open>
  The image: the header (magic, length), the resource table (version 1, number, two reserved
  words, one offset for each channel) and the resources. It is built in one page; a longer
  one is written past it.
\<close>

definition fw_image :: "'w ether_env \<Rightarrow> ether \<Rightarrow> 'w \<Rightarrow> lininoio_core \<Rightarrow> u8 list option" where
  "fw_image env st w co =
     (let n = nat (co_nchannels co); start = 16 + 4 * n
      in Option.bind (fw_loop env st w (co_channels co) start) (\<lambda>(offs, bytes).
         let table = le32 1 @ le32 (of_int (co_nchannels co)) @ le32 0 @ le32 0 @
               concat (map (\<lambda>i. le32 (of_nat i)) (take n (offs @ replicate n 0)));
             image = le32 (ee_magic env) @ le32 (of_nat (length table + length bytes)) @ table @ bytes
         in if ee_page_size env < length image then None else Some image))"

definition setup_remoteproc_fw ::
    "'w ether_env \<Rightarrow> addr \<Rightarrow> ether \<Rightarrow> 'w \<Rightarrow> (int \<times> string \<times> ether) option" where
  "setup_remoteproc_fw env c st w =
     Option.bind (e_cores st c) (\<lambda>co.
       if co_rproc_name co = [] then Some (- 1, [], st)
       else
         let firmware_name = co_rproc_name co @ ''-fw'';
             (fd, st1) = syscall (Open (''/lib/firmware/'' @ firmware_name)) st
         in if fd < 0 then Some (- 1, firmware_name, st1)
            else
              let (ptr, st2) = e_malloc st1
              in if ptr = 0 then Some (- 1, firmware_name, st2)
                 else
                   Option.bind (fw_image env st2 w co) (\<lambda>image.
                     Some (0, firmware_name,
                           syscall0 (Close fd) (syscall0 (Write_file fd image) st2))))"

section \<open>Remote processors\<close>

definition assign_fd_evt :: "int \<Rightarrow> addr \<Rightarrow> addr \<Rightarrow> ether \<Rightarrow> int \<times> ether" where
  "assign_fd_evt fd cb c st =
     (if fd < 0 \<or> cb = 0 \<or> c = 0 then (- 1, st)
      else
        let (a, st1) = e_malloc st;
            (e, fds) = add_fd_event (e_fds st1) fd EVT_FD_RD cb c a
        in (if e \<noteq> 0 then fd else - 1, st1\<lparr>e_fds := fds\<rparr>))"

definition upd_core :: "addr \<Rightarrow> (lininoio_core \<Rightarrow> lininoio_core) \<Rightarrow> ether \<Rightarrow> ether option" where
  "upd_core c f st =
     Option.bind (e_cores st c) (\<lambda>co. Some (st\<lparr>e_cores := (e_cores st)(c \<mapsto> f co)\<rparr>))"

definition upd_pd :: "addr \<Rightarrow> (r2p_processor_data \<Rightarrow> r2p_processor_data) \<Rightarrow> ether \<Rightarrow> ether option" where
  "upd_pd c f st = upd_core c (\<lambda>co. co\<lparr>co_pd := f (co_pd co)\<rparr>) st"

text \<open>\<open>strncpy\<close> of a string to the array \<open>dst\<close>, \<open>n\<close> characters at most.\<close>

definition strncpy_to :: "string \<Rightarrow> string \<Rightarrow> nat \<Rightarrow> string" where
  "strncpy_to dst src n = take n (src @ replicate n (CHR 0x00)) @ drop n dst"

definition BACKEND_MEM_SIZE :: int where "BACKEND_MEM_SIZE = 1024 * 1024"

text \<open>
  The errors of \<open>setup_remoteproc\<close> from the call that failed on: \<^verbatim>\<open>err2\<close> removes the firmware,
  \<^verbatim>\<open>err1\<close> frees its name, \<^verbatim>\<open>err0\<close> closes the device.
\<close>

definition rproc_err0 :: "int \<Rightarrow> ether \<Rightarrow> ether" where
  "rproc_err0 fd st = syscall0 (Close fd) st"

definition rproc_err1 :: "addr \<Rightarrow> int \<Rightarrow> ether \<Rightarrow> ether" where
  "rproc_err1 name_ptr fd st = rproc_err0 fd (syscall0 (Free name_ptr) st)"

definition rproc_err2 :: "string \<Rightarrow> addr \<Rightarrow> int \<Rightarrow> ether \<Rightarrow> ether" where
  "rproc_err2 firmware_name name_ptr fd st =
     rproc_err1 name_ptr fd (syscall0 (Unlink firmware_name) st)"

text \<open>The processor data, with the events for start and stop.\<close>

definition fill_pd :: "'w ether_env \<Rightarrow> addr \<Rightarrow> string \<Rightarrow> ether \<Rightarrow> ether option" where
  "fill_pd env c firmware_name st =
     Option.bind (e_cores st c) (\<lambda>co.
     Option.bind (upd_pd c (\<lambda>pd. pd\<lparr>r2p_fw_type := ee_fw_simple env,
         r2p_fw_name := strncpy_to (r2p_fw_name pd) firmware_name (length (r2p_fw_name pd) - 1),
         r2p_name := strncpy_to (r2p_name pd) (co_rproc_name co) (length (r2p_name pd) - 1)\<rparr>) st) (\<lambda>st1.
     let (ev1, st2) = syscall Eventfd st1;
         (start_fd, st3) = assign_fd_evt ev1 (ee_start_cb env) c st2
     in Option.bind (upd_pd c (\<lambda>pd. pd\<lparr>r2p_start_fd := start_fd\<rparr>) st3) (\<lambda>st4.
     let (ev2, st5) = syscall Eventfd st4;
         (stop_fd, st6) = assign_fd_evt ev2 (ee_stop_cb env) c st5
     in upd_pd c (\<lambda>pd. pd\<lparr>r2p_stop_fd := stop_fd, r2p_reserved_memsize := BACKEND_MEM_SIZE\<rparr>) st6)))"

definition setup_remoteproc :: "'w ether_env \<Rightarrow> addr \<Rightarrow> ether \<Rightarrow> 'w \<Rightarrow> ether option" where
  "setup_remoteproc env c st w =
     (let (fd, st1) = syscall (Open R2PROC_MISC_DEV) st
      in if fd < 0 then Some st1
         else
           let (name_ptr, st2) = e_malloc st1
           in if name_ptr = 0 then Some (rproc_err0 fd st2)
              else
                Option.bind (setup_remoteproc_fw env c st2 w) (\<lambda>(stat, firmware_name, st3).
                if stat < 0 then Some (rproc_err1 name_ptr fd st3)
                else
                  Option.bind (fill_pd env c firmware_name st3) (\<lambda>st4.
                  let (a, st5) = e_malloc st4;
                      (r, ud) = schedule_udev_event (e_udev st5) udev_new_virtio_backend
                        (ee_backend_add env) c a;
                      st6 = st5\<lparr>e_udev := ud\<rparr>
                  in if r < 0 then Some (rproc_err2 firmware_name name_ptr fd st6)
                     else
                       Option.bind (e_cores st6 c) (\<lambda>co.
                       let (io, st7) = syscall (Ioctl_add_proc fd (co_pd co)) st6
                       in if io < 0 then Some (rproc_err2 firmware_name name_ptr fd st7)
                          else Some st7))))"

fun setup_cores :: "'w ether_env \<Rightarrow> addr list \<Rightarrow> ether \<Rightarrow> 'w \<Rightarrow> ether option" where
  "setup_cores env [] st w = Some st"
| "setup_cores env (c # cs) st w =
     (if c = 0 then Some st
      else Option.bind (setup_remoteproc env c st w) (\<lambda>st1. setup_cores env cs st1 w))"

definition setup_remoteprocs :: "'w ether_env \<Rightarrow> addr \<Rightarrow> ether \<Rightarrow> 'w \<Rightarrow> (int \<times> ether) option" where
  "setup_remoteprocs env n st w =
     Option.bind (e_objs st n) (\<lambda>en.
     Option.bind (setup_cores env (n_cores (en_node en)) st w) (\<lambda>st1. Some (0, st1)))"

section \<open>Association\<close>

text \<open>\<open>strncpy\<close> of the slave's name into the sixteen bytes of the node's.\<close>

definition strncpy16 :: "u8 list \<Rightarrow> u8 list" where
  "strncpy16 src = take 16 (takeWhile (\<lambda>b. b \<noteq> 0) src @ replicate 16 0)"

text \<open>
  The loop over the channels of the request, from channel \<open>i\<close>, \<open>k\<close> of them left. A channel
  that could not be allocated is a null dereference.
\<close>

fun arequest_loop ::
    "'w ether_env \<Rightarrow> addr \<Rightarrow> u8 list \<Rightarrow> nat \<Rightarrow> nat \<Rightarrow> ether \<Rightarrow> 'w \<Rightarrow> (int \<times> ether \<times> 'w) option" where
  "arequest_loop env n buf i 0 st w = Some (0, st, w)"
| "arequest_loop env n buf i (Suc k) st w =
     Option.bind (areq_chan_descr buf i) (\<lambda>cdescr.
     Option.bind (new_channel env n i cdescr st) (\<lambda>(c, st1).
     Option.bind (e_chans st1 c) (\<lambda>ch0.
     let null_adata = \<lparr>ad_chan_dlen = lininoio_encode_cdlen 0 (of_nat i), ad_chan_data = []\<rparr>;
         ch1 = ch0\<lparr>ch_protocol := lininoio_cdescr_to_proto_id cdescr,
                   ch_core_id := lininoio_cdescr_to_core_id cdescr, ch_id := of_nat i,
                   ch_null_adata := null_adata, ch_adata := Some null_adata\<rparr>
     in Option.bind (lininoio_find_proto_ops (ee_load env) (ch_protocol ch1) (e_ops st1) w)
          (\<lambda>(ops, tab, w1).
        let ch2 = ch1\<lparr>ch_ops := ops\<rparr>;
            st2 = st1\<lparr>e_ops := tab, e_chans := (e_chans st1)(c \<mapsto> ch2)\<rparr>
        in Option.bind (if ops = 0 then Some (0, ch2, w1)
                        else case ee_connect env ops of
                               None \<Rightarrow> Some (0, ch2, w1)
                             | Some connect \<Rightarrow> connect ch2 w1)
             (\<lambda>(stat, ch3, w2).
           let st3 = st2\<lparr>e_chans := (e_chans st2)(c \<mapsto> ch3)\<rparr>
           in if stat \<noteq> 0 then Some (stat, st3, w2) else arequest_loop env n buf (Suc i) k st3 w2)))))"

definition EINVAL :: int where "EINVAL = 22"

definition e_schedule :: "'w ether_env \<Rightarrow> addr \<Rightarrow> ether \<Rightarrow> (addr \<times> ether) option" where
  "e_schedule env n st =
     (let (a, st1) = e_malloc st
      in Option.bind (schedule_timeout (e_timeouts st1) (ee_alive_timeout env) (ee_kill_node env) n a)
           (\<lambda>(t, tos). Some (t, st1\<lparr>e_timeouts := tos\<rparr>)))"

definition e_cancel :: "addr \<Rightarrow> ether \<Rightarrow> ether option" where
  "e_cancel t st =
     Option.bind (cancel_timeout (e_timeouts st) t) (\<lambda>tos. Some (st\<lparr>e_timeouts := tos\<rparr>))"

text \<open>The new node of a request: taken, its channels counted, its timeout set, linked, named.\<close>

definition associate ::
    "'w ether_env \<Rightarrow> sockaddr_ll \<Rightarrow> u8 list \<Rightarrow> addr \<Rightarrow> ether \<Rightarrow> ether option" where
  "associate env from buf n st =
     Option.bind (areq_nchannels buf) (\<lambda>nch.
     Option.bind (upd_node n (\<lambda>nd. nd\<lparr>n_nchannels := uint nch\<rparr>) st) (\<lambda>st1.
     Option.bind (e_schedule env n st1) (\<lambda>(t, st2).
     Option.bind (upd_node n (\<lambda>nd. nd\<lparr>n_alive_to := t\<rparr>) st2) (\<lambda>st3.
     let st4 = st3\<lparr>e_mem := list_add_tail (e_mem st3) (n_list n) (e_nodes st3)\<rparr>
     in upd_node n (\<lambda>nd. nd\<lparr>n_name := strncpy16 (areq_slave_name buf)\<rparr>) st4))))"

definition ether_rx_arequest ::
    "'w ether_env \<Rightarrow> sockaddr_ll \<Rightarrow> u8 list \<Rightarrow> ether \<Rightarrow> 'w \<Rightarrow> (ether \<times> 'w) option" where
  "ether_rx_arequest env from buf st w =
     Option.bind (areq_nchannels buf) (\<lambda>nch.
     if LININOIO_MAX_NCHANNELS < unat nch then Some (st, w)
     else
       Option.bind (find_node st from) (\<lambda>n0.
       if n0 \<noteq> 0 then Option.bind (ether_send_areply n0 0 st) (\<lambda>(_, st1). Some (st1, w))
       else
         Option.bind (get_node st from) (\<lambda>(n, st1).
         if n = 0 then Some (st1, w)
         else
           Option.bind (associate env from buf n st1) (\<lambda>st2.
           Option.bind (arequest_loop env n buf 0 (unat nch) st2 w) (\<lambda>(stat1, st3, w1).
           let stat2 = (if nch = 0 then - EINVAL else stat1)
           in Option.bind (if stat2 = 0 then setup_remoteprocs env n st3 w1 else Some (stat2, st3))
                (\<lambda>(stat, st4).
              Option.bind (ether_send_areply n stat st4) (\<lambda>(_, st5).
              if stat = 0 then Some (st5, w1)
              else
                Option.bind (e_objs st5 n) (\<lambda>en.
                Option.bind (e_cancel (n_alive_to (en_node en)) st5) (\<lambda>st6.
                kill_node env n st6 w1))))))))) "

section \<open>Data\<close>

text \<open>The channel is taken from the returned length, and truncated to eight bits.\<close>

definition ether_data_packet ::
    "'w ether_env \<Rightarrow> u8 list \<Rightarrow> u8 list \<Rightarrow> ether \<Rightarrow> 'w \<Rightarrow> (ether \<times> 'w) option" where
  "ether_data_packet env mac buf st w =
     Option.bind (data_cdlen buf) (\<lambda>cdlen.
     let chan_id = ucast (fst (lininoio_decode_cdlen cdlen)) :: u8
     in Option.bind (mac_to_node st mac) (\<lambda>node.
        if node = 0 then Some (st, w)
        else if LININOIO_MAX_NCHANNELS \<le> unat chan_id then Some (st, w)
        else
          Option.bind (e_objs st node) (\<lambda>en.
          Option.bind (array_get (n_channels (en_node en)) (unat chan_id)) (\<lambda>c.
          if c = 0 then Some (st, w)
          else
            Option.bind (e_cancel (n_alive_to (en_node en)) st) (\<lambda>st1.
            Option.bind (e_schedule env node st1) (\<lambda>(t, st2).
            Option.bind (upd_node node (\<lambda>nd. nd\<lparr>n_alive_to := t\<rparr>) st2) (\<lambda>st3.
            Option.bind (e_chans st3 c) (\<lambda>ch.
            if ch_ops ch = 0 then Some (st3, w)
            else
              case ee_inbound env (ch_ops ch) of
                None \<Rightarrow> Some (st3, w)
              | Some inbound \<Rightarrow> Option.bind (inbound ch buf w) (\<lambda>w'. Some (st3, w'))))))))))"

definition ether_rx_cb ::
    "'w ether_env \<Rightarrow> sockaddr_ll \<Rightarrow> u8 list \<Rightarrow> ether \<Rightarrow> 'w \<Rightarrow> (ether \<times> 'w) option" where
  "ether_rx_cb env from buf st w =
     Option.bind (packet_type buf) (\<lambda>t.
       if t = LININOIO_PACKET_DATA then ether_data_packet env (sll_addr from) buf st w
       else if t = LININOIO_PACKET_AREQUEST then ether_rx_arequest env from buf st w
       else Some (st, w))"

text \<open>
  The receive callback: \<open>received\<close> is what \<^verbatim>\<open>recvfrom\<close> gives, \<open>buf\<close> the static buffer, which
  keeps what earlier packets left after the bytes of this one.
\<close>

definition ether_rx ::
    "'w ether_env \<Rightarrow> (sockaddr_ll \<times> u8 list) option \<Rightarrow> u8 list \<Rightarrow> ether \<Rightarrow> 'w \<Rightarrow>
     (u8 list \<times> ether \<times> 'w) option" where
  "ether_rx env received buf st w =
     (case received of
        None \<Rightarrow> Some (buf, st, w)
      | Some (from, bytes) \<Rightarrow>
          let bytes' = take (length buf) bytes;
              buf' = bytes' @ drop (length bytes') buf
          in Option.bind (ether_rx_cb env from buf' st w) (\<lambda>(st', w'). Some (buf', st', w')))"

section \<open>Backends and events\<close>

text \<open>Reading the event of a core; the result of \<^verbatim>\<open>read\<close> is only logged.\<close>

definition start_cb :: "addr \<Rightarrow> ether \<Rightarrow> ether option" where
  "start_cb c st = Option.bind (e_cores st c) (\<lambda>co. Some (snd (syscall (Read (r2p_start_fd (co_pd co))) st)))"

definition stop_cb :: "addr \<Rightarrow> ether \<Rightarrow> ether option" where
  "stop_cb c st = Option.bind (e_cores st c) (\<lambda>co. Some (snd (syscall (Read (r2p_stop_fd (co_pd co))) st)))"

text \<open>
  A backend device can be read: the first descriptor of its ring holds an address of the other
  side. The pointer to the same place in the mapping is computed, and the string there is
  logged, in the build that \<^verbatim>\<open>common.mk\<close> makes (\<^verbatim>\<open>DEBUG ?= y\<close>) and with the mask of priorities as
  it is at the start of a process, which the daemon does not change; the string is the result.
  The pointer is not checked: reading where nothing is mapped, or a string without an end, is
  undefined, and so is reading the ring of a mapping that failed.
\<close>

definition virtio_backend_readable :: "'w ether_env \<Rightarrow> addr \<Rightarrow> ether \<Rightarrow> u8 list option" where
  "virtio_backend_readable env data st =
     Option.bind (e_vbes st data) (\<lambda>vbe.
       if vbe_vring_ptr vbe = - 1 then None
       else
         let desc = ee_ring env (vbe_vring_ptr vbe);
             offset = d_addr desc - of_nat (vbe_phy_offset vbe);
             ptr = of_int (vbe_vring_ptr vbe) + offset
         in c_string (ee_byte env) ptr)"

text \<open>The ring and the channel of a backend device, from the minor number of the device.\<close>

definition match_backend :: "addr \<Rightarrow> ether \<Rightarrow> ether option" where
  "match_backend vbe st =
     Option.bind (e_vbes st vbe) (\<lambda>v.
     Option.bind (e_cores st (vbe_core v)) (\<lambda>co.
     Option.bind (e_objs st (co_node co)) (\<lambda>en.
     let rvdev_index = vbe_minor v div 2
     in Option.bind (array_get (n_channels (en_node en)) rvdev_index) (\<lambda>ch.
        Some (st\<lparr>e_vbes := (e_vbes st)(vbe \<mapsto>
          v\<lparr>vbe_vring_index := vbe_minor v mod 2, vbe_channel := ch\<rparr>)\<rparr>)))))"

text \<open>
  \<open>strtoul\<close> in base 16: white space, a sign, \<open>0x\<close>, then digits; a value that does not fit is the
  largest one, and a minus sign negates in \<^verbatim>\<open>unsigned long\<close>.
\<close>

definition hex_digit :: "char \<Rightarrow> nat option" where
  "hex_digit c =
     (let n = of_char c :: nat
      in if 48 \<le> n \<and> n \<le> 57 then Some (n - 48)
         else if 97 \<le> n \<and> n \<le> 102 then Some (n - 87)
         else if 65 \<le> n \<and> n \<le> 70 then Some (n - 55)
         else None)"

fun hex_value :: "nat \<Rightarrow> string \<Rightarrow> nat" where
  "hex_value acc [] = acc"
| "hex_value acc (c # cs) =
     (case hex_digit c of None \<Rightarrow> acc | Some d \<Rightarrow> hex_value (16 * acc + d) cs)"

definition hex_prefix :: "string \<Rightarrow> string" where
  "hex_prefix s =
     (case s of
        z # x # c # cs \<Rightarrow>
          if z = CHR ''0'' \<and> (x = CHR ''x'' \<or> x = CHR ''X'') \<and> hex_digit c \<noteq> None then c # cs else s
      | _ \<Rightarrow> s)"

definition strtoul16 :: "string \<Rightarrow> nat" where
  "strtoul16 s =
     (let s1 = dropWhile (\<lambda>c. let n = of_char c :: nat in n = 32 \<or> 9 \<le> n \<and> n \<le> 13) s;
          (neg, s2) = (case s1 of
                         [] \<Rightarrow> (False, [])
                       | c # cs \<Rightarrow> if c = CHR ''-'' then (True, cs)
                                  else if c = CHR ''+'' then (False, cs) else (False, s1));
          v = hex_value 0 (hex_prefix s2)
      in if 2 ^ 64 \<le> v then 2 ^ 64 - 1 else if neg then (2 ^ 64 - v) mod 2 ^ 64 else v)"

text \<open>The part of a path after its last slash; without a slash the pointer is not valid.\<close>

definition path_basename :: "string \<Rightarrow> string option" where
  "path_basename path =
     (if CHR ''/'' \<in> set path then Some (rev (takeWhile (\<lambda>c. c \<noteq> CHR ''/'') (rev path))) else None)"


definition virtio_backend_add ::
    "'w ether_env \<Rightarrow> udev_device \<Rightarrow> string \<Rightarrow> addr \<Rightarrow> ether \<Rightarrow> ether option" where
  "virtio_backend_add env dev path cb_priv st =
     (let (vbe, st1) = e_malloc st
      in if vbe = 0 then Some st1
         else
           case ee_phy_offset env dev of
             None \<Rightarrow> Some (syscall0 (Free vbe) st1)
           | Some offs \<Rightarrow>
               Option.bind (path_basename path) (\<lambda>basename.
               let devname = take (PATH_MAX - 2) (''/dev/'' @ basename);
                   (fd, st2) = syscall (Open devname) st1
               in if fd < 0 then Some (syscall0 (Free vbe) st2)
                  else
                    let (a, st3) = e_malloc st2;
                        (evt, fds) = add_fd_event (e_fds st3) fd EVT_FD_RD (ee_backend_readable env) vbe a;
                        st4 = st3\<lparr>e_fds := fds\<rparr>
                    in if evt = 0 then Some (syscall0 (Free vbe) (syscall0 (Close fd) st4))
                       else
                         let (ptr, st5) = syscall (Mmap fd BACKEND_MEM_SIZE) st4
                         in match_backend vbe (st5\<lparr>e_vbes := (e_vbes st5)(vbe \<mapsto>
                              \<lparr>vbe_devname = devname, vbe_fd = fd, vbe_evt = evt, vbe_vring_ptr = ptr,
                               vbe_phy_offset = strtoul16 offs, vbe_minor = ee_minor env dev,
                               vbe_vring_index = 0, vbe_core = cb_priv, vbe_channel = 0\<rparr>)\<rparr>)))"

section \<open>Initialisation\<close>

definition LININOIO_ETH_TYPE :: u16 where "LININOIO_ETH_TYPE = 0x86b5"
definition AF_PACKET :: u16 where "AF_PACKET = 17"
definition SOCK_DGRAM :: int where "SOCK_DGRAM = 2"
definition ETHER_ADDR_LEN :: u8 where "ETHER_ADDR_LEN = 6"
definition IFNAMSIZ :: nat where "IFNAMSIZ = 16"
definition ENOMEM :: int where "ENOMEM = 12"

definition htons :: "u16 \<Rightarrow> u16" where
  "htons x = push_bit 8 x OR drop_bit 8 x"

text \<open>The socket: found, bound to the interface, and watched.\<close>

definition setup_ether_socket :: "'w ether_env \<Rightarrow> string \<Rightarrow> addr \<Rightarrow> ether \<Rightarrow> int \<times> ether" where
  "setup_ether_socket env ifname data st =
     (if IFNAMSIZ \<le> length ifname then (- 1, st)
      else
        let (fd, st1) = syscall (Socket (uint AF_PACKET) SOCK_DGRAM (htons LININOIO_ETH_TYPE)) st
        in if fd < 0 then (- 1, st1)
           else
             let (io, st2) = syscall (Ioctl_ifindex fd ifname) st1
             in if io = - 1 then (- 1, syscall0 (Close fd) st2)
                else
                  let a = (e_addr st2)\<lparr>sll_family := AF_PACKET, sll_protocol := htons LININOIO_ETH_TYPE,
                            sll_ifindex := ee_ifindex env ifname, sll_halen := ETHER_ADDR_LEN\<rparr>;
                      (r, st3) = syscall (Bind fd a) (st2\<lparr>e_addr := a\<rparr>)
                  in if r < 0 then (- 1, syscall0 (Close fd) st3)
                     else
                       let (ev, st4) = e_malloc (st3\<lparr>e_netif_fd := fd\<rparr>);
                           (rx, fds) = add_fd_event (e_fds st4) fd EVT_FD_RD (ee_rx_cb env) data ev;
                           st5 = st4\<lparr>e_rx_event := rx, e_fds := fds\<rparr>
                       in if rx = 0 then (- 1, syscall0 (Close fd) st5) else (0, st5))"

text \<open>\<open>lininoio_ether_init\<close>: seven free nodes, then the socket.\<close>

definition empty_sockaddr :: sockaddr_ll where
  "empty_sockaddr =
     \<lparr>sll_family = 0, sll_protocol = 0, sll_ifindex = 0, sll_hatype = 0, sll_pkttype = 0,
      sll_halen = 0, sll_addr = replicate 8 0\<rparr>"

definition empty_node :: ether_node where
  "empty_node =
     \<lparr>en_node = \<lparr>n_name = replicate 16 0, n_alive_to = 0, n_cores = replicate LININOIO_MAX_NCORES 0,
        n_nchannels = 0, n_ll_data = 0, n_send_packet = 0,
        n_channels = replicate LININOIO_MAX_NCHANNELS 0\<rparr>,
      en_addr = empty_sockaddr\<rparr>"

fun init_nodes :: "nat \<Rightarrow> ether \<Rightarrow> int \<times> ether" where
  "init_nodes 0 st = (0, st)"
| "init_nodes (Suc k) st =
     (let (en, st1) = e_malloc st
      in if en = 0 then (- ENOMEM, st1)
         else init_nodes k (st1\<lparr>e_mem := list_add_tail (e_mem st1) (n_list en) (e_free_nodes st1),
                e_objs := (e_objs st1)(en \<mapsto> empty_node)\<rparr>))"

definition lininoio_ether_init :: "'w ether_env \<Rightarrow> string \<Rightarrow> ether \<Rightarrow> int \<times> ether" where
  "lininoio_ether_init env netif_name st =
     (let (data, st1) = e_malloc st
      in if data = 0 then (- 1, st1)
         else
           let free_nodes = data; nodes = data + 16;
               (ret, st2) = init_nodes 7 (st1\<lparr>
                 e_mem := INIT_LIST_HEAD (INIT_LIST_HEAD (e_mem st1) nodes) free_nodes,
                 e_free_nodes := free_nodes, e_nodes := nodes, e_addr := empty_sockaddr,
                 e_netif_fd := 0, e_rx_event := 0\<rparr>)
           in if ret < 0 then (ret, st2) else setup_ether_socket env netif_name data st2)"


text \<open>\<open>ether_exit\<close> frees the data of the transport and nothing else: its nodes and its event stay.\<close>

definition ether_exit :: "addr \<Rightarrow> ether \<Rightarrow> ether" where
  "ether_exit data st = syscall0 (Free data) st"

end
