(* ===== verification/Ether_Inv.thy ===== *)
theory Ether_Inv
  imports Ether_Rx
begin

text \<open>
  What the operations of the Ethernet transport keep: the frame of the node lists and of the
  channel tables of the nodes, the courses an association request can take, and that the tables
  of channels stay empty.
\<close>

section \<open>The frame\<close>

text \<open>
  What the lookups of nodes depend on: the cells of the lists, their heads, and for each node
  its address and its table of channels.
\<close>

definition node_view :: "ether_node \<Rightarrow> sockaddr_ll \<times> addr list" where
  "node_view en = (en_addr en, n_channels (en_node en))"

definition nodes_view :: "ether \<Rightarrow> list_mem \<times> addr \<times> addr \<times> (addr \<Rightarrow> (sockaddr_ll \<times> addr list) option)" where
  "nodes_view st = (e_mem st, e_nodes st, e_free_nodes st, \<lambda>k. map_option node_view (e_objs st k))"

lemma nodes_view_update [simp]:
  "nodes_view (b\<lparr>e_log := x1\<rparr>) = nodes_view b"
  "nodes_view (b\<lparr>e_sys := x2\<rparr>) = nodes_view b"
  "nodes_view (b\<lparr>e_allocs := x3\<rparr>) = nodes_view b"
  "nodes_view (b\<lparr>e_fds := x4\<rparr>) = nodes_view b"
  "nodes_view (b\<lparr>e_udev := x5\<rparr>) = nodes_view b"
  "nodes_view (b\<lparr>e_cores := x6\<rparr>) = nodes_view b"
  "nodes_view (b\<lparr>e_chans := x7\<rparr>) = nodes_view b"
  "nodes_view (b\<lparr>e_vbes := x8\<rparr>) = nodes_view b"
  "nodes_view (b\<lparr>e_timeouts := x9\<rparr>) = nodes_view b"
  "nodes_view (b\<lparr>e_ops := x10\<rparr>) = nodes_view b"
  by (simp_all add: nodes_view_def)

lemma view_syscall0 [simp]: "nodes_view (syscall0 c st) = nodes_view st"
  by (simp add: syscall0_def)

lemma view_syscall: "syscall c st = (r, st') \<Longrightarrow> nodes_view st' = nodes_view st"
  by (auto simp: syscall_def split: list.splits)

lemma view_malloc: "e_malloc st = (r, st') \<Longrightarrow> nodes_view st' = nodes_view st"
  by (auto simp: e_malloc_def split: prod.splits)

lemma view_syscall_malloc [simp]:
  "nodes_view (snd (syscall c st)) = nodes_view st" "nodes_view (snd (e_malloc st)) = nodes_view st"
  by (metis prod.collapse view_syscall, metis prod.collapse view_malloc)

lemma view_upd_node:
  assumes "upd_node n f st = Some st'" "\<And>nd. n_channels (f nd) = n_channels nd"
  shows "nodes_view st' = nodes_view st"
  using assms by (auto simp: upd_node_def nodes_view_def node_view_def bind_eq_Some_conv)

lemma view_upd_core: "upd_core c f st = Some st' \<Longrightarrow> nodes_view st' = nodes_view st"
  by (auto simp: upd_core_def bind_eq_Some_conv)

lemma view_upd_pd: "upd_pd c f st = Some st' \<Longrightarrow> nodes_view st' = nodes_view st"
  by (auto simp: upd_pd_def dest: view_upd_core)

lemmas view_basic = view_syscall view_malloc view_upd_core view_upd_pd

lemma view_assign: "assign_fd_evt fd cb c st = (r, st') \<Longrightarrow> nodes_view st' = nodes_view st"
  by (auto simp: assign_fd_evt_def dest: view_basic split: if_splits prod.splits)

lemma view_snd_assign [simp]: "nodes_view (snd (assign_fd_evt fd cb c st)) = nodes_view st"
  by (metis prod.collapse view_assign)

lemma view_fw: "setup_remoteproc_fw env c st w = Some (r, nm, st') \<Longrightarrow> nodes_view st' = nodes_view st"
  unfolding setup_remoteproc_fw_def
  by (auto simp: bind_eq_Some_conv Let_def split: if_splits prod.splits dest!: view_basic)

lemma view_fill_pd: "fill_pd env c nm st = Some st' \<Longrightarrow> nodes_view st' = nodes_view st"
  unfolding fill_pd_def
  by (auto simp: bind_eq_Some_conv Let_def case_prod_unfold dest!: view_upd_pd)

lemma view_err [simp]:
  "nodes_view (rproc_err0 fd st) = nodes_view st"
  "nodes_view (rproc_err1 p fd st) = nodes_view st"
  "nodes_view (rproc_err2 nm p fd st) = nodes_view st"
  by (simp_all add: rproc_err0_def rproc_err1_def rproc_err2_def)

lemma view_setup_remoteproc:
  "setup_remoteproc env c st w = Some st' \<Longrightarrow> nodes_view st' = nodes_view st"
  unfolding setup_remoteproc_def
  by (auto simp: bind_eq_Some_conv Let_def case_prod_unfold split: if_splits
      dest!: view_fw view_fill_pd)

lemma view_setup_cores: "setup_cores env cs st w = Some st' \<Longrightarrow> nodes_view st' = nodes_view st"
  by (induction cs arbitrary: st)
    (auto simp: bind_eq_Some_conv split: if_splits dest!: view_setup_remoteproc)

lemma view_setup_remoteprocs:
  "setup_remoteprocs env n st w = Some (r, st') \<Longrightarrow> nodes_view st' = nodes_view st"
  by (auto simp: setup_remoteprocs_def bind_eq_Some_conv dest: view_setup_cores)

lemma view_get_core: "get_core env n i st = Some (c, st') \<Longrightarrow> nodes_view st' = nodes_view st"
  unfolding get_core_def
  by (auto simp: bind_eq_Some_conv Let_def split: if_splits prod.splits
      dest!: view_malloc view_upd_node)

lemma view_new_channel: "new_channel env n i d st = Some (c, st') \<Longrightarrow> nodes_view st' = nodes_view st"
  unfolding new_channel_def
  by (auto simp: bind_eq_Some_conv Let_def split: if_splits prod.splits
      dest!: view_malloc view_get_core)

lemma view_arequest_loop:
  "arequest_loop env n buf i k st w = Some (r, st', w') \<Longrightarrow> nodes_view st' = nodes_view st"
proof (induction k arbitrary: i st w)
  case (Suc k)
  from Suc.prems obtain d c st1 where s: "new_channel env n i d st = Some (c, st1)"
    and "nodes_view st' = nodes_view st1"
    by (auto simp: bind_eq_Some_conv Let_def split: if_splits prod.splits dest!: Suc.IH)
  then show ?case
    using view_new_channel by metis
qed simp

lemma view_areply: "ether_send_areply n s st = Some (r, st') \<Longrightarrow> nodes_view st' = nodes_view st"
  unfolding ether_send_areply_def
  by (auto simp: bind_eq_Some_conv Let_def case_prod_unfold split: if_splits)

lemma view_schedule: "e_schedule env n st = Some (t, st') \<Longrightarrow> nodes_view st' = nodes_view st"
  by (auto simp: e_schedule_def bind_eq_Some_conv Let_def split: prod.splits dest!: view_basic)

lemma view_cancel: "e_cancel t st = Some st' \<Longrightarrow> nodes_view st' = nodes_view st"
  by (auto simp: e_cancel_def bind_eq_Some_conv)

lemma view_kill_channels:
  "kill_channels env cs st w = Some (st', w') \<Longrightarrow> nodes_view st' = nodes_view st"
proof (induction cs arbitrary: st w)
  case (Cons c cs)
  from Cons.prems show ?case
    by (auto simp: bind_eq_Some_conv split: if_splits option.splits dest!: Cons.IH)
qed simp


section \<open>The tables of channels\<close>

text \<open>No node has a channel in its table.\<close>

definition chans_empty :: "ether \<Rightarrow> bool" where
  "chans_empty st \<longleftrightarrow>
     (\<forall>n en. e_objs st n = Some en \<longrightarrow> n_channels (en_node en) = replicate LININOIO_MAX_NCHANNELS 0)"

lemma chans_empty_view:
  assumes "nodes_view st' = nodes_view st" "chans_empty st"
  shows "chans_empty st'"
  unfolding chans_empty_def
proof (intro allI impI)
  fix n en assume "e_objs st' n = Some en"
  moreover have "map_option node_view (e_objs st' n) = map_option node_view (e_objs st n)"
    using assms(1) by (simp add: nodes_view_def fun_eq_iff)
  ultimately obtain en0 where "e_objs st n = Some en0" "node_view en = node_view en0"
    by (auto simp: map_option_case split: option.splits)
  then show "n_channels (en_node en) = replicate LININOIO_MAX_NCHANNELS 0"
    using assms(2) by (auto simp: chans_empty_def node_view_def)
qed

lemma chans_empty_mem [simp]: "chans_empty (st\<lparr>e_mem := m\<rparr>) = chans_empty st"
  by (simp add: chans_empty_def)

lemma chans_empty_get_node:
  "get_node st from = Some (n, st') \<Longrightarrow> chans_empty st \<Longrightarrow> chans_empty st'"
  by (auto simp: get_node_def Let_def chans_empty_def bind_eq_Some_conv split: if_splits)

lemma associateD:
  assumes "associate env from buf n st = Some st'"
  obtains st3 where "nodes_view st3 = nodes_view st"
    "nodes_view st' = nodes_view (st3\<lparr>e_mem := list_add_tail (e_mem st3) (n_list n) (e_nodes st3)\<rparr>)"
  using assms unfolding associate_def
  by (auto simp: bind_eq_Some_conv Let_def dest!: view_schedule view_upd_node)

lemma chans_empty_associate:
  assumes "associate env from buf n st = Some st'" "chans_empty st"
  shows "chans_empty st'"
proof -
  obtain st3 where "nodes_view st3 = nodes_view st"
    "nodes_view st' = nodes_view (st3\<lparr>e_mem := list_add_tail (e_mem st3) (n_list n) (e_nodes st3)\<rparr>)"
    using associateD[OF assms(1)] .
  then show ?thesis
    using chans_empty_view[of st3 st] chans_empty_view[of st'] assms(2) by simp
qed

lemma kill_nodeD:
  assumes "kill_node env n st w = Some (st', w')"
  obtains st2 where "nodes_view st2 = nodes_view st"
    "st' = st2\<lparr>e_mem := list_move (e_mem st2) (n_list n) (e_free_nodes st2)\<rparr>"
  using assms unfolding kill_node_def kill_remoteprocs_def
  by (auto simp: bind_eq_Some_conv dest!: view_kill_channels)

lemma chans_empty_kill_node:
  "kill_node env n st w = Some (st', w') \<Longrightarrow> chans_empty st \<Longrightarrow> chans_empty st'"
  by (erule kill_nodeD) (auto dest: chans_empty_view)

lemma chans_empty_channel:
  "chans_empty st \<Longrightarrow> e_objs st n = Some en \<Longrightarrow> i < LININOIO_MAX_NCHANNELS \<Longrightarrow>
    array_get (n_channels (en_node en)) i = Some 0"
  by (simp add: chans_empty_def)

text \<open>
  The courses of an association request: too many channels, a known node, no free node, or a
  node that is taken and linked, after which nothing touches the lists until it may be killed.
\<close>

lemma arequest_run:
  assumes "ether_rx_arequest env from buf st w = Some (st', w')"
  obtains (big) "st' = st" "w' = w"
  | (known) n r where "ether_send_areply n 0 st = Some (r, st')" "w' = w"
  | (full) "get_node st from = Some (0, st')" "w' = w"
  | (node) nch n st1 st2 stat1 st3 w1 stat st4 r st5 where "areq_nchannels buf = Some nch"
      "\<not> LININOIO_MAX_NCHANNELS < unat nch" "find_node st from = Some 0"
      "get_node st from = Some (n, st1)" "n \<noteq> 0" "associate env from buf n st1 = Some st2"
      "arequest_loop env n buf 0 (unat nch) st2 w = Some (stat1, st3, w1)"
      "(if (if nch = 0 then - EINVAL else stat1) = 0 then setup_remoteprocs env n st3 w1
        else Some (if nch = 0 then - EINVAL else stat1, st3)) = Some (stat, st4)"
      "ether_send_areply n stat st4 = Some (r, st5)"
      "(if stat = 0 then Some (st5, w1) else Option.bind (e_objs st5 n) (\<lambda>en.
        Option.bind (e_cancel (n_alive_to (en_node en)) st5) (\<lambda>st6. kill_node env n st6 w1))) = Some (st', w')"
proof -
  obtain nch where nch: "areq_nchannels buf = Some nch"
    using assms by (auto simp: ether_rx_arequest_def bind_eq_Some_conv)
  show thesis
  proof (cases "LININOIO_MAX_NCHANNELS < unat nch")
    case True
    then show thesis using assms nch big by (simp add: ether_rx_arequest_def)
  next
    case small: False
    then obtain n0 where n0: "find_node st from = Some n0"
      using assms nch by (auto simp: ether_rx_arequest_def bind_eq_Some_conv)
    show thesis
    proof (cases "n0 = 0")
      case False
      then show thesis
        using assms nch small n0 known by (auto simp: ether_rx_arequest_def bind_eq_Some_conv)
    next
      case z: True
      obtain n st1 where g: "get_node st from = Some (n, st1)"
        using assms nch small n0 z by (auto simp: ether_rx_arequest_def bind_eq_Some_conv)
      show thesis
      proof (cases "n = 0")
        case True
        then show thesis
          using assms nch small n0 z g full by (simp add: ether_rx_arequest_def)
      next
        case False
        note start = nch small n0[unfolded z] g False
        from False show thesis
          using assms start unfolding ether_rx_arequest_def
          by (fastforce simp: bind_eq_Some_conv Let_def intro: node[OF start])
      qed
    qed
  qed
qed

lemma arequestD:
  assumes "ether_rx_arequest env from buf st w = Some (st', w')" "areq_nchannels buf = Some nch"
    "\<not> LININOIO_MAX_NCHANNELS < unat nch" "find_node st from = Some 0"
    "get_node st from = Some (n, st1)" "n \<noteq> 0"
  obtains st2 st5 w1 and stat :: int where "associate env from buf n st1 = Some st2"
    "nodes_view st5 = nodes_view st2"
    "stat = 0 \<and> nodes_view st' = nodes_view st5 \<or> stat \<noteq> 0 \<and> kill_node env n st5 w1 = Some (st', w')"
proof -
  obtain st2 stat1 st3 w1 stat st4 r st5 where a: "associate env from buf n st1 = Some st2"
    "arequest_loop env n buf 0 (unat nch) st2 w = Some (stat1, st3, w1)"
    and s: "(if (if nch = 0 then - EINVAL else stat1) = 0 then setup_remoteprocs env n st3 w1
       else Some (if nch = 0 then - EINVAL else stat1, st3)) = Some (stat, st4)"
    and r: "ether_send_areply n stat st4 = Some (r, st5)"
    and k: "(if stat = 0 then Some (st5, w1) else Option.bind (e_objs st5 n) (\<lambda>en.
       Option.bind (e_cancel (n_alive_to (en_node en)) st5) (\<lambda>st6. kill_node env n st6 w1))) = Some (st', w')"
    using assms unfolding ether_rx_arequest_def by (fastforce simp: bind_eq_Some_conv Let_def)
  have v: "nodes_view st5 = nodes_view st2"
    using a(2) s r by (auto dest!: view_arequest_loop view_areply view_setup_remoteprocs split: if_splits)
  show thesis
  proof (cases "stat = 0")
    case True
    then show thesis using that[OF a(1) v, of stat w1] k by simp
  next
    case False
    then obtain en :: ether_node and st6 where c: "e_cancel (n_alive_to (en_node en)) st5 = Some st6"
        "kill_node env n st6 w1 = Some (st', w')"
      using k by (auto simp: bind_eq_Some_conv)
    then show thesis
      using that[OF a(1), of st6 stat w1] v False by (simp add: view_cancel)
  qed
qed

lemma arequest_cases:
  assumes "ether_rx_arequest env from buf st w = Some (st', w')"
  obtains (keep) "nodes_view st' = nodes_view st"
  | (node) nch n st1 where "areq_nchannels buf = Some nch" "\<not> LININOIO_MAX_NCHANNELS < unat nch"
      "find_node st from = Some 0" "get_node st from = Some (n, st1)" "n \<noteq> 0"
  | (null) "get_node st from = Some (0, st')"
  using assms
proof (cases rule: arequest_run)
  case big
  then show thesis using keep by simp
next
  case known
  then show thesis using keep view_areply by blast
next
  case full
  show thesis by (rule null[OF full(1)])
next
  case node': (node nch n st1)
  show thesis by (rule node[OF node'(1-5)])
qed

section \<open>Packets keep the tables empty\<close>

lemma chans_empty_arequest:
  assumes "ether_rx_arequest env from buf st w = Some (st', w')" "chans_empty st"
  shows "chans_empty st'"
  using assms(1)
proof (cases rule: arequest_cases)
  case keep
  then show ?thesis using assms(2) by (rule chans_empty_view)
next
  case null
  then show ?thesis using assms(2) by (rule chans_empty_get_node)
next
  case (node nch n st1)
  obtain st2 st5 w1 and stat :: int where a: "associate env from buf n st1 = Some st2"
    "nodes_view st5 = nodes_view st2"
    and k: "stat = 0 \<and> nodes_view st' = nodes_view st5 \<or> stat \<noteq> 0 \<and> kill_node env n st5 w1 = Some (st', w')"
    by (rule arequestD[OF assms(1) node])
  have c: "chans_empty st5"
    by (rule chans_empty_view[OF a(2)], rule chans_empty_associate[OF a(1)],
        rule chans_empty_get_node[OF node(4) assms(2)])
  from k show ?thesis
  proof
    assume "stat = 0 \<and> nodes_view st' = nodes_view st5"
    then show ?thesis using c by (auto intro: chans_empty_view)
  next
    assume "stat \<noteq> 0 \<and> kill_node env n st5 w1 = Some (st', w')"
    then show ?thesis using c by (auto intro: chans_empty_kill_node)
  qed
qed

lemma chans_empty_data:
  assumes "chans_empty st" "ether_data_packet env mac buf st w = Some (st', w')"
  shows "st' = st \<and> w' = w"
proof -
  obtain c i node where c: "data_cdlen buf = Some c" "i = (ucast (fst (lininoio_decode_cdlen c)) :: u8)"
    and node: "mac_to_node st mac = Some node"
    using assms(2) by (auto simp: ether_data_packet_def bind_eq_Some_conv Let_def)
  show ?thesis
  proof (cases "node = 0 \<or> LININOIO_MAX_NCHANNELS \<le> unat i")
    case True
    then show ?thesis
      using assms(2) c node by (auto simp: ether_data_packet_def Let_def split: if_splits)
  next
    case False
    then obtain en where en: "e_objs st node = Some en"
      using assms(2) c node by (auto simp: ether_data_packet_def Let_def bind_eq_Some_conv)
    have "array_get (n_channels (en_node en)) (unat i) = Some 0"
      by (rule chans_empty_channel[OF assms(1) en]) (use False in simp)
    then show ?thesis
      using assms(2) c node en False
      by (simp add: ether_data_packet_def Let_def del: array_get_Some)
  qed
qed

lemma chans_empty_rx:
  assumes "ether_rx env received buf st w = Some (buf', st', w')" "chans_empty st"
  shows "chans_empty st'"
  using assms
  by (auto simp: ether_rx_def ether_rx_cb_def Let_def bind_eq_Some_conv
      split: option.splits prod.splits if_splits
      dest: chans_empty_data chans_empty_arequest)

section \<open>The association of the first node\<close>

text \<open>Linking a node that is already the only one on the list makes it its own successor.\<close>

lemma list_add_twice:
  assumes "dll h a []" "dll h f (x # xs)" "set (f # x # xs) \<inter> {a} = {}"
  shows "next_of (list_add_tail (list_move h x a) x a) a = x"
    "next_of (list_add_tail (list_move h x a) x a) x = x"
    "prev_of (list_add_tail (list_move h x a) x a) x = x"
    "dll (list_add_tail (list_move h x a) x a) f xs"
proof -
  define h1 where "h1 = list_move h x a"
  have d: "dll h1 f xs" "dll h1 a [x]"
    using dll_list_move[of h f "[]" x xs a "[]"] assms by (simp_all add: h1_def)
  have n: "next_of h1 a = x" "prev_of h1 a = x"
    using d(2) by (auto simp: dll_def)
  have x: "x \<noteq> a" "x \<notin> set (f # xs)" "a \<notin> set (f # xs)"
    using assms dll_distinct[OF assms(2)] by auto
  have e: "list_add_tail h1 x a = set_next (set_prev (set_next (set_prev h1 a x) x a) x x) x x"
    by (simp add: list_add_tail_def raw_list_add_def n Let_def)
  show "next_of (list_add_tail (list_move h x a) x a) a = x"
    "next_of (list_add_tail (list_move h x a) x a) x = x"
    "prev_of (list_add_tail (list_move h x a) x a) x = x"
    using n x by (simp_all add: e h1_def[symmetric])
  show "dll (list_add_tail (list_move h x a) x a) f xs"
    using d(1) x by (simp add: e h1_def[symmetric] dll_frame)
qed

text \<open>From then on the list of the nodes is never left by a traversal that finds nothing.\<close>

definition trapped :: "list_mem \<Rightarrow> addr \<Rightarrow> addr \<Rightarrow> bool" where
  "trapped h a x \<longleftrightarrow> next_of h a = x \<and>
     (\<exists>S. x \<in> S \<and> a \<notin> S \<and> (\<forall>y \<in> S. next_of h y \<in> S))"

lemma trapped_find: "trapped h a x \<Longrightarrow> \<forall>y. \<not> P y \<Longrightarrow> list_find_entry P h a = None"
  unfolding trapped_def list_find_entry_def using list_find_closed by metis

lemma trapped_self: "next_of h a = x \<Longrightarrow> next_of h x = x \<Longrightarrow> x \<noteq> a \<Longrightarrow> trapped h a x"
  unfolding trapped_def by (intro conjI exI[of _ "{x}"]) auto

lemma dll_closed: "dll h f xs \<Longrightarrow> y \<in> set (f # xs) \<Longrightarrow> next_of h y \<in> set (f # xs)"
proof -
  assume d: "dll h f xs" and "y \<in> set (f # xs)"
  then consider "y = f" | us vs where "xs = us @ y # vs"
    by (auto dest: split_list)
  then show "next_of h y \<in> set (f # xs)"
  proof cases
    case 1
    then show ?thesis using dll_head_next[OF d] by (cases xs) auto
  next
    case 2
    then show ?thesis using dll_next[of h f us y vs] d by (cases vs) auto
  qed
qed

lemma trapped_kill:
  assumes "next_of h a = x" "next_of h x = x" "prev_of h x = x" "dll h f xs"
    "a \<notin> set (f # x # xs)" "x \<notin> set (f # xs)"
  shows "trapped (list_move h x f) a x"
proof -
  have e: "raw_list_del_entry h x = set_next (set_prev h x x) x x"
    by (simp add: raw_list_del_entry_def raw_list_del_def assms Let_def)
  then have "dll (raw_list_del_entry h x) f xs"
    using assms by (simp add: dll_frame)
  then have d: "dll (list_move h x f) f (x # xs)"
    using assms(6) by (simp add: list_move_def dll_list_add)
  have "next_of (list_move h x f) a = x"
    using assms by (simp add: list_move_def list_add_def raw_list_add_def Let_def e)
  then show ?thesis
    unfolding trapped_def
    using dll_closed[OF d] assms(5) by (intro conjI exI[of _ "set (f # x # xs)"]) auto
qed

end
