(* ===== verification/Ether_Props.thy ===== *)
theory Ether_Props
  imports Ether_Inv
begin

text \<open>
  The properties of the Ethernet transport: the association of the first and of the second
  slave, the reply to it, the firmware of a core, and the calls and errors of the set-up of a
  remote processor.
\<close>

section \<open>A small environment\<close>

text \<open>
  No protocol handlers; the calls succeed as long as \<open>e_sys\<close> says so.
\<close>

definition null_env :: "unit ether_env" where
  "null_env =
     \<lparr>ee_connect = (\<lambda>_. None), ee_inbound = (\<lambda>_. None), ee_disconnect = (\<lambda>_. None),
      ee_load = (\<lambda>_ w. Some (None, w)), ee_resource = (\<lambda>_ _. Some [1, 2, 3, 4]),
      ee_phy_offset = (\<lambda>_. None), ee_minor = (\<lambda>_. 0), ee_ifindex = (\<lambda>_. 2), ee_rx_cb = 1, ee_udev_cb = 7,
      ee_backend_readable = 2, ee_start_cb = 3, ee_stop_cb = 4, ee_backend_add = 5,
      ee_kill_node = 6, ee_alive_timeout = 2000, ee_page_size = 4096, ee_ring = (\<lambda>_. \<lparr>d_addr = 0, d_len = 0, d_flags = 0, d_next = 0\<rparr>), ee_byte = (\<lambda>_. None), ee_magic = 77,
      ee_fw_simple = 1,
      ee_uninit_core = \<lparr>co_rproc_name = [], co_pd = \<lparr>r2p_fw_type = 0, r2p_fw_name = replicate 33 (CHR 0x00),
        r2p_name = replicate 33 (CHR 0x00), r2p_start_fd = 0, r2p_stop_fd = 0, r2p_reserved_memsize = 0\<rparr>,
        co_nchannels = 0, co_channels = [], co_node = 0\<rparr>,
      ee_uninit_chan = \<lparr>ch_protocol = 0, ch_core_id = 0, ch_id = 0, ch_ops = 0, ch_priv = 0,
        ch_null_adata = \<lparr>ad_chan_dlen = 0, ad_chan_data = []\<rparr>, ch_adata = None,
        ch_resources_len = 4, ch_resources = 0\<rparr>\<rparr>"

definition cold_mem :: list_mem where
  "cold_mem = \<lparr>next_of = (\<lambda>_. 0), prev_of = (\<lambda>_. 0)\<rparr>"

definition cold_ether :: ether where
  "cold_ether =
     \<lparr>e_mem = cold_mem, e_free_nodes = 0, e_nodes = 0, e_objs = Map.empty, e_cores = Map.empty,
      e_chans = Map.empty, e_vbes = Map.empty, e_addr = empty_sockaddr, e_netif_fd = 0, e_rx_event = 0,
      e_timeouts = \<lparr>to_mem = INIT_LIST_HEAD cold_mem 80, to_objs = Map.empty, to_head = 80\<rparr>,
      e_fds = snd (fd_events_init \<lparr>fe_mem = cold_mem, fe_objs = Map.empty, fe_base = 90\<rparr>),
      e_udev = \<lparr>ue_mem = INIT_LIST_HEAD cold_mem 90, ue_objs = Map.empty, ue_head = 90\<rparr>,
      e_ops = None, e_allocs = 200 # [1 ..< 40], e_sys = replicate 20 7, e_log = []\<rparr>"

definition first_slave :: sockaddr_ll where
  "first_slave = \<lparr>sll_family = 17, sll_protocol = 0xb586, sll_ifindex = 2, sll_hatype = 1,
     sll_pkttype = 0, sll_halen = 6, sll_addr = [2, 0, 0, 0, 0, 1, 0, 0]\<rparr>"

definition second_slave :: sockaddr_ll where
  "second_slave = first_slave\<lparr>sll_addr := [2, 0, 0, 0, 0, 2, 0, 0]\<rparr>"

text \<open>A request of the slave \<^verbatim>\<open>ab\<close> with one channel, console on core 0.\<close>

definition one_channel_request :: "u8 list" where
  "one_channel_request = [1, 97, 98] @ replicate 14 0 @ [1, 2, 0]"

text \<open>A daemon with one free node, at \<open>3\<close>.\<close>

definition small_ether :: ether where
  "small_ether = cold_ether\<lparr>
     e_mem := \<lparr>next_of = (\<lambda>_. 0)(60 := n_list 3, n_list 3 := 60, 50 := 50),
       prev_of = (\<lambda>_. 0)(60 := n_list 3, n_list 3 := 60, 50 := 50)\<rparr>,
     e_free_nodes := 60, e_nodes := 50, e_objs := [3 \<mapsto> empty_node],
     e_allocs := [10 ..< 20], e_sys := [7, 7, 7, 7, 7, 7]\<rparr>"

lemma small_ether_lists:
  "dll (e_mem small_ether) (e_nodes small_ether) []"
  "dll (e_mem small_ether) (e_free_nodes small_ether) (map n_list [3])"
  "e_nodes small_ether \<notin> set (e_free_nodes small_ether # map n_list [3])"
  by (simp_all add: small_ether_def dll_def n_list_def)

lemma request_fields:
  "areq_nchannels one_channel_request = Some 1" "areq_chan_descr one_channel_request 0 = Some 2"
  "lininoio_cdescr_to_core_id 2 = 0" "lininoio_cdescr_to_proto_id 2 = 2"
  "strncpy16 (areq_slave_name one_channel_request) = [97, 98, 0, 0, 0, 0, 0, 0, 0, 0, 0, 0, 0, 0, 0, 0]"
  "replicate LININOIO_MAX_NCORES (0 :: nat) = [0, 0, 0, 0, 0, 0, 0, 0]"
  by code_simp+

lemma request_name:
  "n_name nd = [97, 98, 0, 0, 0, 0, 0, 0, 0, 0, 0, 0, 0, 0, 0, 0] \<Longrightarrow> node_name nd = Some ''ab''"
  by (simp add: node_name_def; code_simp)

lemma length_le32 [simp]: "length (le32 x) = 4"
  by (simp add: le32_def)

lemmas run_defs = ether_rx_arequest_def find_node_def get_node_def associate_def small_ether_def
  cold_ether_def null_env_def list_find_entry_def list_find.simps list_empty_def list_first_entry_def
  LININOIO_MAX_NCHANNELS_def upd_node_def e_schedule_def e_malloc_def schedule_timeout_def
  list_ops cold_mem_def fd_events_init_def fe_head_def EVT_FD_RD_def EVT_FD_EXC_def EVT_FD_WR_def
  to_list_def to_entry_def setup_remoteprocs_def setup_cores.simps setup_remoteproc_def
  setup_remoteproc_fw_def fill_pd_def fw_image_def fw_loop.simps upd_pd_def upd_core_def
  assign_fd_evt_def add_fd_event_def schedule_udev_event_def syscall_def syscall0_def
  ether_send_areply_def new_channel_def get_core_def lininoio_find_proto_ops_def fe_list_def ue_list_def
  empty_node_def n_list_def n_entry_def array_get_def request_fields request_name upt_rec

text \<open>The first slave associates: its request is accepted and answered.\<close>

lemma small_run:
  "\<exists>st'. ether_rx_arequest null_env first_slave one_channel_request small_ether () = Some (st', ()) \<and>
    Sendmsg 0 first_slave [Some [2, 0], None] \<in> set (e_log st')"
  by (simp add: run_defs Let_def LININOIO_PACKET_AREPLY_def numeral_2_eq_2)


section \<open>The list of the nodes\<close>

lemma get_node_first:
  assumes "get_node st from = Some (n, st1)" "dll (e_mem st) (e_free_nodes st) (map n_list (m # ms))"
  shows "n = m \<and> e_mem st1 = list_move (e_mem st) (n_list m) (e_nodes st) \<and> e_nodes st1 = e_nodes st \<and>
    e_free_nodes st1 = e_free_nodes st \<and> e_objs st n \<noteq> None \<and>
    (\<forall>k. map_option en_addr (e_objs st1 k) =
       (if k = n then Some from else map_option en_addr (e_objs st k)))"
proof -
  have "\<not> list_empty (e_mem st) (e_free_nodes st)" "list_first_entry (e_mem st) (e_free_nodes st) = n_list m"
    using dll_list_empty[OF assms(2)] dll_head_next[OF assms(2)] by (simp_all add: list_first_entry_def)
  then show ?thesis
    using assms(1) by (auto simp: get_node_def Let_def bind_eq_Some_conv)
qed

lemma view_lists:
  assumes "nodes_view st' = nodes_view st"
  shows "e_mem st' = e_mem st" "e_nodes st' = e_nodes st" "e_free_nodes st' = e_free_nodes st"
  using assms by (simp_all add: nodes_view_def)

lemma view_addr:
  assumes "nodes_view st' = nodes_view st"
  shows "map_option en_addr (e_objs st' k) = map_option en_addr (e_objs st k)"
proof -
  have "map_option node_view (e_objs st' k) = map_option node_view (e_objs st k)"
    using assms by (simp add: nodes_view_def fun_eq_iff)
  then show "map_option en_addr (e_objs st' k) = map_option en_addr (e_objs st k)"
    by (cases "e_objs st' k"; cases "e_objs st k") (simp_all add: node_view_def)
qed

lemma associate_lists:
  assumes "associate env from buf n st = Some st'"
  shows "e_mem st' = list_add_tail (e_mem st) (n_list n) (e_nodes st)" "e_nodes st' = e_nodes st"
    "e_free_nodes st' = e_free_nodes st" "\<forall>k. map_option en_addr (e_objs st' k) = map_option en_addr (e_objs st k)"
proof -
  obtain st3 where v: "nodes_view st3 = nodes_view st"
    "nodes_view st' = nodes_view (st3\<lparr>e_mem := list_add_tail (e_mem st3) (n_list n) (e_nodes st3)\<rparr>)"
    using associateD[OF assms] .
  show "e_mem st' = list_add_tail (e_mem st) (n_list n) (e_nodes st)" "e_nodes st' = e_nodes st"
    "e_free_nodes st' = e_free_nodes st" "\<forall>k. map_option en_addr (e_objs st' k) = map_option en_addr (e_objs st k)"
    using view_lists[OF v(1)] view_lists[OF v(2)] view_addr[OF v(1)] view_addr[OF v(2)] by simp_all
qed

text \<open>
  The state after the request of the first node: the list of the nodes is trapped at the node,
  whether the request was accepted or not.
\<close>

lemma first_association:
  assumes "dll (e_mem st) (e_nodes st) []" "dll (e_mem st) (e_free_nodes st) (map n_list (n # ns))"
    "e_nodes st \<notin> set (e_free_nodes st # map n_list (n # ns))" "n \<noteq> 0"
    and "areq_nchannels buf = Some nch" "unat nch \<le> LININOIO_MAX_NCHANNELS"
    and "ether_rx_arequest env from buf st w = Some (st', w')"
  shows "trapped (e_mem st') (e_nodes st') (n_list n)"
    "map_option en_addr (e_objs st' k) =
       (if k = n then Some from else map_option en_addr (e_objs st k))"
proof -
  have f: "find_node st from = Some 0"
    using dll_find_entry[OF assms(1)] by (simp add: find_node_def)
  obtain m st1 where g: "get_node st from = Some (m, st1)"
    using assms(5-7) f by (auto simp: ether_rx_arequest_def bind_eq_Some_conv split: if_splits)
  note first = get_node_first[OF g assms(2)]
  then have m: "m = n" by simp
  obtain st2 st5 w1 and stat :: int where a: "associate env from buf n st1 = Some st2"
    "nodes_view st5 = nodes_view st2"
    and k: "stat = 0 \<and> nodes_view st' = nodes_view st5 \<or> stat \<noteq> 0 \<and> kill_node env n st5 w1 = Some (st', w')"
    using arequestD[OF assms(7,5) _ f g] assms(4,6) m by (metis linorder_not_less)
  have d: "set (e_free_nodes st # n_list n # map n_list ns) \<inter> {e_nodes st} = {}"
    using assms(3) by auto
  note twice = list_add_twice[OF assms(1) assms(2)[unfolded list.map] d]
  have e5: "e_mem st5 = list_add_tail (list_move (e_mem st) (n_list n) (e_nodes st)) (n_list n) (e_nodes st)"
    "e_nodes st5 = e_nodes st" "e_free_nodes st5 = e_free_nodes st"
    using view_lists[OF a(2)] associate_lists[OF a(1)] first by simp_all
  have addr5: "map_option en_addr (e_objs st5 k) =
      (if k = n then Some from else map_option en_addr (e_objs st k))"
    using view_addr[OF a(2), of k] associate_lists(4)[OF a(1)] first by simp
  have free: "n_list n \<notin> set (e_free_nodes st # map n_list ns)" "n_list n \<noteq> e_nodes st"
    "e_nodes st \<notin> set (e_free_nodes st # n_list n # map n_list ns)"
    using dll_distinct[OF assms(2)] assms(3) by auto
  from k have "trapped (e_mem st') (e_nodes st') (n_list n) \<and>
    map_option en_addr (e_objs st' k) = map_option en_addr (e_objs st5 k)"
  proof
    assume "stat = 0 \<and> nodes_view st' = nodes_view st5"
    then have v: "nodes_view st' = nodes_view st5" by simp
    show ?thesis
      using view_lists[OF v] view_addr[OF v, of k] trapped_self[OF twice(1,2) free(2)] by (simp add: e5)
  next
    assume "stat \<noteq> 0 \<and> kill_node env n st5 w1 = Some (st', w')"
    then have "kill_node env n st5 w1 = Some (st', w')" by simp
    then obtain st6 where v: "nodes_view st6 = nodes_view st5"
      and e: "st' = st6\<lparr>e_mem := list_move (e_mem st6) (n_list n) (e_free_nodes st6)\<rparr>"
      by (rule kill_nodeD)
    show ?thesis
      using view_lists[OF v] view_addr[OF v, of k] trapped_kill[OF twice free(3,1)] by (simp add: e e5)
  qed
  then show "trapped (e_mem st') (e_nodes st') (n_list n)"
    "map_option en_addr (e_objs st' k) =
       (if k = n then Some from else map_option en_addr (e_objs st k))"
    using addr5 by simp_all
qed

lemma lookups_trapped:
  assumes "trapped (e_mem st) (e_nodes st) l"
    "\<And>k a. map_option en_addr (e_objs st k) = Some a \<Longrightarrow> sll_addr a \<noteq> mac"
  shows "mac_to_node st mac = None" "sll_addr a = mac \<Longrightarrow> find_node st a = None"
proof -
  have no: "\<not> (case e_objs st k of None \<Rightarrow> False | Some en \<Rightarrow> sll_addr (en_addr en) = mac)" for k
    using assms(2)[of k] by (simp split: option.split)
  show "mac_to_node st mac = None"
    unfolding mac_to_node_def using trapped_find[OF assms(1)] no by simp
  assume a: "sll_addr a = mac"
  have "\<not> (case e_objs st k of None \<Rightarrow> False | Some en \<Rightarrow> en_addr en = a)" for k
    using no[of k] a by (auto split: option.splits)
  then show "find_node st a = None"
    unfolding find_node_def using trapped_find[OF assms(1)] by simp
qed

section \<open>Properties\<close>

text \<open>
  C30: once one slave has sent an association request, accepted or not, the daemon hangs on
  the next packet of another slave, request or data: the node of the first is linked twice
  into the list of the nodes and is its own successor, so a lookup that does not find the
  address never ends.
\<close>

theorem ether_second_slave_hangs:
  assumes "dll (e_mem st) (e_nodes st) []" "dll (e_mem st) (e_free_nodes st) (map n_list (n # ns))"
    "e_nodes st \<notin> set (e_free_nodes st # map n_list (n # ns))" "n \<noteq> 0"
    and "\<forall>k en. e_objs st k = Some en \<longrightarrow> sll_addr (en_addr en) \<noteq> sll_addr other"
    "sll_addr from \<noteq> sll_addr other"
    and "areq_nchannels buf = Some nch" "unat nch \<le> LININOIO_MAX_NCHANNELS"
    and "ether_rx_arequest env from buf st w = Some (st', w')"
    and "areq_nchannels buf2 = Some nch2" "unat nch2 \<le> LININOIO_MAX_NCHANNELS"
  shows "ether_rx_arequest env other buf2 st' w2 = None \<and>
    ether_data_packet env (sll_addr other) buf3 st' w2 = None"
proof -
  note first = first_association[OF assms(1-4,7-9)]
  have "sll_addr a \<noteq> sll_addr other" if "map_option en_addr (e_objs st' k) = Some a" for k a
  proof (cases "k = n")
    case True
    then show ?thesis using that first(2)[of k] assms(6) by auto
  next
    case False
    then have "map_option en_addr (e_objs st k) = Some a"
      using that first(2)[of k] by (simp only: if_False)
    then obtain en where "e_objs st k = Some en" "en_addr en = a"
      by auto
    then show ?thesis using assms(5) by blast
  qed
  note none = lookups_trapped[OF first(1) this]
  show ?thesis
    using none assms(10,11) by (simp add: ether_rx_arequest_def ether_data_packet_def Let_def)
qed

theorem ether_second_slave_hangs_witness:
  "\<exists>st'. ether_rx_arequest null_env first_slave one_channel_request small_ether () = Some (st', ()) \<and>
    ether_rx_arequest null_env second_slave one_channel_request st' () = None"
proof -
  obtain st' where r: "ether_rx_arequest null_env first_slave one_channel_request small_ether () = Some (st', ())"
    using small_run by blast
  have objs: "\<forall>k en. e_objs small_ether k = Some en \<longrightarrow> sll_addr (en_addr en) \<noteq> sll_addr second_slave"
    by (simp add: small_ether_def empty_node_def empty_sockaddr_def second_slave_def first_slave_def numeral_eq_Suc)
  have ne: "sll_addr first_slave \<noteq> sll_addr second_slave"
    by (simp add: second_slave_def first_slave_def)
  show ?thesis
    using ether_second_slave_hangs[OF small_ether_lists _ objs ne request_fields(1) _ r request_fields(1)] r
    by (simp add: LININOIO_MAX_NCHANNELS_def)
qed


section \<open>The firmware\<close>

text \<open>The bytes of the resource of a channel.\<close>

definition chan_resource :: "'w ether_env \<Rightarrow> ether \<Rightarrow> 'w \<Rightarrow> addr \<Rightarrow> u8 list option" where
  "chan_resource env st w c =
     Option.bind (e_chans st c) (\<lambda>ch.
     Option.bind (ee_resource env (ch_resources ch) w) (\<lambda>res.
       if ch_resources_len ch < 0 \<or> length res < nat (ch_resources_len ch) then None
       else Some (take (nat (ch_resources_len ch)) res)))"

fun offsets :: "nat \<Rightarrow> u8 list list \<Rightarrow> nat list" where
  "offsets r [] = []"
| "offsets r (x # xs) = r # offsets (r + length x) xs"

lemma length_offsets [simp]: "length (offsets r xs) = length xs"
  by (induction xs arbitrary: r) auto

lemma offsets_nth: "i < length xs \<Longrightarrow> offsets r xs ! i = r + length (concat (take i xs))"
  by (induction xs arbitrary: r i) (auto simp: nth_Cons split: nat.split)

lemma fw_loop_resources:
  "list_all2 (\<lambda>c x. chan_resource env st w c = Some x) cs xs \<Longrightarrow>
    fw_loop env st w cs r = Some (offsets r xs, concat xs)"
proof (induction cs arbitrary: xs r)
  case Nil
  then show ?case by simp
next
  case (Cons c cs)
  then obtain x ys where x: "xs = x # ys" "chan_resource env st w c = Some x"
    "list_all2 (\<lambda>c x. chan_resource env st w c = Some x) cs ys"
    by (auto simp: list_all2_Cons1)
  have "fw_loop env st w cs (r + length x) = Some (offsets (r + length x) ys, concat ys)"
    using x(3) by (rule Cons.IH)
  then show ?case
    using x(1,2) by (auto simp: chan_resource_def bind_eq_Some_conv Let_def split: if_splits)
qed

lemma take_drop_concat:
  "i < length xs \<Longrightarrow> take (length (xs ! i)) (drop (length (concat (take i xs))) (concat xs)) = xs ! i"
  by (induction xs arbitrary: i) (auto simp: nth_Cons split: nat.split)

lemma take_drop_words:
  "i < length xs \<Longrightarrow> take 4 (drop (4 * i) (concat (map (\<lambda>x. le32 (f x)) xs))) = le32 (f (xs ! i))"
proof (induction xs arbitrary: i)
  case (Cons x xs)
  then show ?case by (cases i) simp_all
qed simp

lemma length_words [simp]: "length (concat (map (\<lambda>x. le32 (f x)) xs)) = 4 * length xs"
  by (induction xs) simp_all

text \<open>
  C16: the firmware written for a core starts with the magic number and the length of the
  rest, and its resource table leads to the resources: the word of channel \<open>i\<close> in the table is
  an offset, from the table, at which the bytes of that channel's resource lie. An image longer
  than the page it is built in is undefined.
\<close>

theorem ether_firmware_layout:
  assumes "list_all2 (\<lambda>c x. chan_resource env st w c = Some x) (co_channels co) xs"
    and "co_nchannels co = int (length xs)"
  shows "if ee_page_size env < 24 + 4 * length xs + length (concat xs) then fw_image env st w co = None
    else \<exists>image. fw_image env st w co = Some image \<and>
      length image = 24 + 4 * length xs + length (concat xs) \<and>
      take 4 image = le32 (ee_magic env) \<and> take 4 (drop 4 image) = le32 (of_nat (length image - 8)) \<and>
      take 4 (drop 12 image) = le32 (of_nat (length xs)) \<and>
      (\<forall>i < length xs. \<exists>off. take 4 (drop (8 + 16 + 4 * i) image) = le32 (of_nat off) \<and>
         take (length (xs ! i)) (drop (8 + off) image) = xs ! i)"
proof -
  define offs where "offs = concat (map (\<lambda>i. le32 (of_nat i)) (offsets (16 + 4 * length xs) xs))"
  define h where "h = le32 1 @ le32 (of_nat (length xs)) @ le32 0 @ le32 0"
  define image where "image = le32 (ee_magic env) @ le32 (of_nat (length (h @ offs) + length (concat xs))) @
    (h @ offs) @ concat xs"
  have fw: "fw_image env st w co = (if ee_page_size env < length image then None else Some image)"
    using fw_loop_resources[OF assms(1), of "16 + 4 * length xs"] assms(2)
    by (simp add: fw_image_def image_def offs_def h_def Let_def)
  have len: "length h = 16" "length offs = 4 * length xs" "length image = 24 + 4 * length xs + length (concat xs)"
    by (simp_all add: h_def offs_def image_def)
  have "\<exists>off. take 4 (drop (8 + 16 + 4 * i) image) = le32 (of_nat off) \<and>
      take (length (xs ! i)) (drop (8 + off) image) = xs ! i" if i: "i < length xs" for i
  proof (intro exI conjI)
    let ?off = "16 + 4 * length xs + length (concat (take i xs))"
    have "take 4 (drop (4 * i) offs) = le32 (of_nat ?off)"
      using take_drop_words[of i "offsets (16 + 4 * length xs) xs" of_nat] i
      by (simp add: offs_def offsets_nth)
    moreover have "drop (8 + 16 + 4 * i) image = drop (4 * i) offs @ concat xs"
      using i len by (simp add: image_def)
    moreover have "4 \<le> length (drop (4 * i) offs)"
      using i len by simp
    ultimately show "take 4 (drop (8 + 16 + 4 * i) image) = le32 (of_nat ?off)"
      by simp
    have "drop (8 + ?off) image = drop (length (concat (take i xs))) (concat xs)"
      using len by (simp add: image_def)
    then show "take (length (xs ! i)) (drop (8 + ?off) image) = xs ! i"
      using take_drop_concat[OF i] by simp
  qed
  moreover have "take 4 image = le32 (ee_magic env)" "take 4 (drop 12 image) = le32 (of_nat (length xs))"
    "take 4 (drop 4 image) = le32 (of_nat (length image - 8))"
    using len by (simp_all add: image_def h_def add.assoc)
  ultimately show ?thesis
    using fw len(3) by auto
qed

text \<open>A state with two channels, of which the first has a resource of two bytes.\<close>

definition two_channels :: ether where
  "two_channels = cold_ether\<lparr>e_chans := [1 \<mapsto> (ee_uninit_chan null_env)\<lparr>ch_resources_len := 2\<rparr>,
     2 \<mapsto> ee_uninit_chan null_env]\<rparr>"

theorem ether_firmware_layout_witness:
  "\<exists>image off. fw_image null_env two_channels ()
      ((ee_uninit_core null_env)\<lparr>co_nchannels := 2, co_channels := [1, 2]\<rparr>) = Some image \<and>
    length image = 38 \<and> take 4 (drop 28 image) = le32 (of_nat off) \<and>
    take 4 (drop (8 + off) image) = [1, 2, 3, 4]"
proof -
  let ?co = "(ee_uninit_core null_env)\<lparr>co_nchannels := 2, co_channels := [1, 2]\<rparr>"
  let ?xs = "[[1, 2], [1, 2, 3, 4]] :: u8 list list"
  have r: "list_all2 (\<lambda>c x. chan_resource null_env two_channels () c = Some x) (co_channels ?co) ?xs"
    by (simp add: chan_resource_def two_channels_def null_env_def)
  have "\<exists>image. fw_image null_env two_channels () ?co = Some image \<and> length image = 38 \<and>
      (\<forall>i < 2. \<exists>off. take 4 (drop (24 + 4 * i) image) = le32 (of_nat off) \<and>
         take (length (?xs ! i)) (drop (8 + off) image) = ?xs ! i)"
    using ether_firmware_layout[OF r] by (auto simp: null_env_def)
  then obtain image where i: "fw_image null_env two_channels () ?co = Some image" "length image = 38"
    "\<forall>i < 2. \<exists>off. take 4 (drop (24 + 4 * i) image) = le32 (of_nat off) \<and>
         take (length (?xs ! i)) (drop (8 + off) image) = ?xs ! i"
    by blast
  from i(3)[rule_format, of 1] obtain off where o: "take 4 (drop (24 + 4 * 1) image) = le32 (of_nat off)"
    "take (length (?xs ! 1)) (drop (8 + off) image) = ?xs ! 1"
    by auto
  have "take 4 (drop (8 + off) image) = [1, 2, 3, 4]"
    using o(2) by (simp add: numeral_eq_Suc)
  then show ?thesis
    using i(1,2) o(1) by (intro exI[of _ image] exI[of _ off]) simp
qed


section \<open>The reply\<close>

lemma array_get_0_empty: "chans_empty st \<Longrightarrow> e_objs st n = Some en \<Longrightarrow>
    array_get (n_channels (en_node en)) 0 = Some 0"
  by (simp add: chans_empty_def LININOIO_MAX_NCHANNELS_def)

text \<open>
  An association reply carries the status and no association data: the message has one
  vector for each channel of the node, and none of them is filled in, since no channel is ever
  entered into the node's table (they are whatever \<^verbatim>\<open>malloc\<close> left there). The vectors are freed.
\<close>

lemma ether_reply_without_data:
  assumes "chans_empty st" "e_objs st n = Some en" "e_allocs st = p # ps" "p \<noteq> 0"
    and "e_sys st = r # rs" "0 \<le> n_nchannels (en_node en)"
  shows "\<exists>st'. ether_send_areply n stat st = Some (r, st') \<and> e_log st' = e_log st @
    [Sendmsg (e_netif_fd st) (en_addr en)
       (Some [LININOIO_PACKET_AREPLY, of_int stat] # replicate (nat (n_nchannels (en_node en))) None),
     Free p]"
proof -
  have n: "nat (1 + n_nchannels (en_node en)) = Suc (nat (n_nchannels (en_node en)))"
    using assms(6) by simp
  show ?thesis
    using array_get_0_empty[OF assms(1,2)] assms(2-5)
    by (simp add: ether_send_areply_def e_malloc_def syscall_def syscall0_def Let_def n del: array_get_Some)
qed

lemma ether_reply_without_data_witness:
  "\<exists>st'. ether_send_areply 3 0 small_ether = Some (7, st') \<and>
    e_log st' = [Sendmsg 0 empty_sockaddr [Some [2, 0]], Free 10]"
proof -
  have "chans_empty small_ether"
    by (simp add: chans_empty_def small_ether_def empty_node_def)
  moreover have "e_objs small_ether 3 = Some empty_node"
    by (simp add: small_ether_def)
  moreover have "e_allocs small_ether = 10 # [11 ..< 20]" "e_sys small_ether = 7 # [7, 7, 7, 7, 7]"
    by (simp_all add: small_ether_def upt_rec)
  ultimately show ?thesis
    using ether_reply_without_data[of small_ether 3 empty_node 10 "[11 ..< 20]" 7 "[7, 7, 7, 7, 7]" 0]
    by (simp add: empty_node_def LININOIO_PACKET_AREPLY_def small_ether_def cold_ether_def)
qed

section \<open>The set-up of a remote processor\<close>

text \<open>A core that is ready to be set up, and a system in which every call so far succeeds.\<close>

definition rproc_ready :: "'w ether_env \<Rightarrow> addr \<Rightarrow> ether \<Rightarrow> 'w \<Rightarrow> lininoio_core \<Rightarrow> u8 list \<Rightarrow> bool" where
  "rproc_ready env c st w co img \<longleftrightarrow> e_cores st c = Some co \<and> co_rproc_name co \<noteq> [] \<and> c \<noteq> 0 \<and>
     ee_start_cb env \<noteq> 0 \<and> ee_stop_cb env \<noteq> 0 \<and>
     (\<forall>st'. e_chans st' = e_chans st \<longrightarrow> fw_image env st' w co = Some img)"

lemma syscall_ok: "e_sys st = r # rs \<Longrightarrow> syscall c st = (r, st\<lparr>e_sys := rs, e_log := e_log st @ [c]\<rparr>)"
  by (simp add: syscall_def)

lemma malloc_ok: "e_allocs st = a # as \<Longrightarrow> e_malloc st = (a, st\<lparr>e_allocs := as\<rparr>)"
  by (simp add: e_malloc_def)

lemma setup_remoteproc_stage:
  assumes "rproc_ready env c st w co img"
    and "e_allocs st = nm # ptr # a1 # a2 # a3 # as" "0 \<notin> {nm, ptr, a1, a2, a3}"
    and "e_sys st = fd # fw # ev1 # ev2 # io # rs" "0 \<le> fd" "0 \<le> fw" "0 \<le> ev1" "0 \<le> ev2"
  shows "\<exists>st' pd. setup_remoteproc env c st w = Some st' \<and>
    e_log st' = e_log st @ [Open ''/dev/r2proc'', Open (''/lib/firmware/'' @ co_rproc_name co @ ''-fw''),
      Write_file fw img, Close fw, Eventfd, Eventfd, Ioctl_add_proc fd pd] @
      (if io < 0 then [Unlink (co_rproc_name co @ ''-fw''), Free nm, Close fd] else []) \<and>
    r2p_start_fd pd = ev1 \<and> r2p_stop_fd pd = ev2 \<and>
    ue_objs (e_udev st') a3 =
      Some \<lparr>ue_id = udev_new_virtio_backend, ue_cb = ee_backend_add env, ue_data = c\<rparr> \<and>
    (a1 \<noteq> a2 \<longrightarrow> fe_objs (e_fds st') a1 = Some \<lparr>fe_fd = ev1, fe_cb = ee_start_cb env, fe_data = c\<rparr>) \<and>
    fe_objs (e_fds st') a2 = Some \<lparr>fe_fd = ev2, fe_cb = ee_stop_cb env, fe_data = c\<rparr> \<and>
    e_objs st' = e_objs st \<and> e_mem st' = e_mem st \<and> e_nodes st' = e_nodes st \<and>
    e_timeouts st' = e_timeouts st \<and> e_chans st' = e_chans st \<and> e_netif_fd st' = e_netif_fd st \<and>
    e_cores st' = (e_cores st)(c \<mapsto> co\<lparr>co_pd := pd\<rparr>) \<and> e_sys st' = rs \<and> e_allocs st' = as"
  using assms
  by (simp add: rproc_ready_def setup_remoteproc_def setup_remoteproc_fw_def fill_pd_def upd_pd_def
      upd_core_def assign_fd_evt_def add_fd_event_def schedule_udev_event_def syscall_def syscall0_def
      e_malloc_def rproc_err0_def rproc_err1_def rproc_err2_def R2PROC_MISC_DEV_def Let_def)

text \<open>
  C28: setting up a remote processor opens the device, writes the firmware, makes the two
  events, schedules the callback for its backends and hands the processor to the kernel. When
  the kernel refuses it, the clean-up removes a file named like the firmware in the current
  directory, not the one that was written under \<^verbatim>\<open>/lib/firmware\<close>, and leaves the events and the
  callback in place.
\<close>

theorem ether_remoteproc_calls:
  assumes "rproc_ready env c st w co img"
    and "e_allocs st = nm # ptr # a1 # a2 # a3 # as" "0 \<notin> {nm, ptr, a1, a2, a3}"
    and "e_sys st = fd # fw # ev1 # ev2 # io # rs" "0 \<le> fd" "0 \<le> fw" "0 \<le> ev1" "0 \<le> ev2"
  shows "\<exists>st' pd. setup_remoteproc env c st w = Some st' \<and>
    e_log st' = e_log st @ [Open ''/dev/r2proc'', Open (''/lib/firmware/'' @ co_rproc_name co @ ''-fw''),
      Write_file fw img, Close fw, Eventfd, Eventfd, Ioctl_add_proc fd pd] @
      (if io < 0 then [Unlink (co_rproc_name co @ ''-fw''), Free nm, Close fd] else []) \<and>
    r2p_start_fd pd = ev1 \<and> r2p_stop_fd pd = ev2 \<and>
    ue_objs (e_udev st') a3 =
      Some \<lparr>ue_id = udev_new_virtio_backend, ue_cb = ee_backend_add env, ue_data = c\<rparr> \<and>
    (a1 \<noteq> a2 \<longrightarrow> fe_objs (e_fds st') a1 = Some \<lparr>fe_fd = ev1, fe_cb = ee_start_cb env, fe_data = c\<rparr>) \<and>
    fe_objs (e_fds st') a2 = Some \<lparr>fe_fd = ev2, fe_cb = ee_stop_cb env, fe_data = c\<rparr>"
  using setup_remoteproc_stage[OF assms] by blast

text \<open>A core named \<^verbatim>\<open>ab-0\<close> without channels; the last call fails.\<close>

definition one_core :: ether where
  "one_core = cold_ether\<lparr>
     e_cores := [8 \<mapsto> (ee_uninit_core null_env)\<lparr>co_rproc_name := ''ab-0''\<rparr>],
     e_allocs := [10 ..< 20], e_sys := [4, 5, 6, 7, - 1]\<rparr>"

theorem ether_remoteproc_calls_witness:
  "\<exists>st' pd img. setup_remoteproc null_env 8 one_core () = Some st' \<and>
    e_log st' = [Open ''/dev/r2proc'', Open ''/lib/firmware/ab-0-fw'', Write_file 5 img, Close 5,
      Eventfd, Eventfd, Ioctl_add_proc 4 pd, Unlink ''ab-0-fw'', Free 10, Close 4]"
proof -
  let ?co = "(ee_uninit_core null_env)\<lparr>co_rproc_name := ''ab-0''\<rparr>"
  let ?img = "the (fw_image null_env one_core () ?co)"
  have "rproc_ready null_env 8 one_core () ?co ?img"
    by (simp add: rproc_ready_def one_core_def null_env_def fw_image_def Let_def)
  moreover have "e_allocs one_core = 10 # 11 # 12 # 13 # 14 # [15 ..< 20]" "e_sys one_core = [4, 5, 6, 7, - 1]"
    by (simp_all add: one_core_def upt_rec)
  ultimately show ?thesis
    using ether_remoteproc_calls[of null_env 8 one_core "()" ?co ?img 10 11 12 13 14 "[15 ..< 20]" 4 5 6 7 "- 1" "[]"]
    by (auto simp: one_core_def cold_ether_def)
qed





end
