(* ===== verification/Console.thy ===== *)
theory Console
  imports Ether_Props
begin

text \<open>
  The console protocol handler, \<^verbatim>\<open>lininoio-protocol-handlers/console.c\<close>, and the daemon it is
  loaded into: what its channels put into the firmware of their core.
\<close>

section \<open>State\<close>

text \<open>
  The resource of a console channel: the fields the handler sets; the other bytes are zero.
\<close>

record console_channel_resources =
  ccr_type :: u32
  ccr_id :: u32
  ccr_dfeatures :: u32
  ccr_config_len :: u32
  ccr_num_of_vrings :: u8
  ccr_align1 :: u32
  ccr_num1 :: u32
  ccr_align2 :: u32
  ccr_num2 :: u32

text \<open>
  The structures are those of the kernel's \<^verbatim>\<open>remoteproc.h\<close>, which is not part of the program:
  the two constants, the size of the whole resource and its bytes are inputs.
\<close>

record remoteproc_abi =
  ab_rsc_vdev :: u32
  ab_rproc_serial :: u32
  ab_sizeof :: nat
  ab_bytes :: "console_channel_resources \<Rightarrow> u8 list"

text \<open>The allocated channels, by address, and the next answers of the allocator.\<close>

record consoles =
  cs_objs :: "addr \<rightharpoonup> console_channel_resources"
  cs_allocs :: "addr list"

section \<open>The operations of the protocol\<close>

definition console_resources :: "remoteproc_abi \<Rightarrow> console_channel_resources" where
  "console_resources abi =
     \<lparr>ccr_type = ab_rsc_vdev abi, ccr_id = ab_rproc_serial abi, ccr_dfeatures = 0, ccr_config_len = 16,
      ccr_num_of_vrings = 2, ccr_align1 = 16, ccr_num1 = 4, ccr_align2 = 16, ccr_num2 = 4\<rparr>"

definition lininoio_console_connect ::
    "remoteproc_abi \<Rightarrow> lininoio_channel \<Rightarrow> consoles \<Rightarrow> (int \<times> lininoio_channel \<times> consoles) option" where
  "lininoio_console_connect abi c st =
     (let (cc, as) = malloc (cs_allocs st); st1 = st\<lparr>cs_allocs := as\<rparr>
      in if cc = 0 then Some (- 1, c, st1)
         else Some (0, c\<lparr>ch_priv := cc, ch_resources_len := int (ab_sizeof abi), ch_resources := cc\<rparr>,
                st1\<lparr>cs_objs := (cs_objs st1)(cc \<mapsto> console_resources abi)\<rparr>))"

text \<open>A packet is only measured; without private data it is refused.\<close>

definition lininoio_console_inbound_packet ::
    "lininoio_channel \<Rightarrow> u8 list \<Rightarrow> consoles \<Rightarrow> consoles option" where
  "lininoio_console_inbound_packet c p st = Option.bind (data_cdlen p) (\<lambda>cdlen. Some st)"

definition lininoio_console_disconnect ::
    "lininoio_channel \<Rightarrow> consoles \<Rightarrow> lininoio_channel \<times> consoles" where
  "lininoio_console_disconnect c st =
     (c\<lparr>ch_priv := 0\<rparr>, st\<lparr>cs_objs := (cs_objs st)(ch_priv c := None)\<rparr>)"

section \<open>The handler in the daemon\<close>

text \<open>
  An environment in which the console handler, its operations at \<open>ops\<close>, is loaded for its
  protocol number, and the resource of a channel is the one its \<^verbatim>\<open>connect\<close> left.
\<close>

definition with_console :: "remoteproc_abi \<Rightarrow> addr \<Rightarrow> consoles ether_env \<Rightarrow> consoles ether_env" where
  "with_console abi ops env = env\<lparr>
     ee_connect := (\<lambda>a. if a = ops then Some (lininoio_console_connect abi) else None),
     ee_inbound := (\<lambda>a. if a = ops then Some lininoio_console_inbound_packet else None),
     ee_disconnect := (\<lambda>a. if a = ops then Some (\<lambda>c w. Some (snd (lininoio_console_disconnect c w))) else None),
     ee_load := (\<lambda>p w. Some (if p = LININOIO_PROTO_CONSOLE then Some ops else None, w)),
     ee_resource := (\<lambda>a w. map_option (ab_bytes abi) (cs_objs w a))\<rparr>"

text \<open>A connected channel, and the ones of a core.\<close>

definition console_connected :: "remoteproc_abi \<Rightarrow> lininoio_channel \<Rightarrow> consoles \<Rightarrow> bool" where
  "console_connected abi c st \<longleftrightarrow> ch_priv c \<noteq> 0 \<and> ch_resources c = ch_priv c \<and>
     ch_resources_len c = int (ab_sizeof abi) \<and> cs_objs st (ch_priv c) = Some (console_resources abi)"

definition abi_ok :: "remoteproc_abi \<Rightarrow> bool" where
  "abi_ok abi \<longleftrightarrow> length (ab_bytes abi (console_resources abi)) = ab_sizeof abi"

lemma connect_connected:
  "lininoio_console_connect abi c st = Some (0, c', st') \<Longrightarrow> console_connected abi c' st'"
  by (auto simp: lininoio_console_connect_def console_connected_def malloc_def Let_def
      split: list.splits if_splits)

lemma connect_keeps:
  assumes "lininoio_console_connect abi c st = Some (r, c', st')" "console_connected abi d st"
  shows "console_connected abi d st'"
  using assms by (auto simp: lininoio_console_connect_def console_connected_def malloc_def Let_def
      split: list.splits if_splits)

lemma disconnect_frees:
  assumes "console_connected abi c st" "console_connected abi d st" "ch_priv d \<noteq> ch_priv c"
  shows "\<not> console_connected abi c (snd (lininoio_console_disconnect c st))"
    "console_connected abi d (snd (lininoio_console_disconnect c st))"
  using assms by (simp_all add: lininoio_console_disconnect_def console_connected_def)

lemma connect_disconnect:
  assumes "lininoio_console_connect abi c w = Some (r, c', w1)"
  shows "if r = 0
     then console_connected abi c' w1 \<and>
       (let (c2, w2) = lininoio_console_disconnect c' w1 in
         ch_priv c2 = 0 \<and> ch_resources c2 = ch_priv c' \<and> cs_objs w2 (ch_priv c') = None \<and>
         (\<forall>a. a \<noteq> ch_priv c' \<longrightarrow> cs_objs w2 a = cs_objs w a) \<and>
         (\<forall>d. console_connected abi d w \<longrightarrow> ch_priv d \<noteq> ch_priv c' \<longrightarrow> console_connected abi d w2))
     else c' = c \<and> cs_objs w1 = cs_objs w"
proof (cases "fst (malloc (cs_allocs w)) = 0")
  case True
  then show ?thesis
    using assms by (auto simp: lininoio_console_connect_def Let_def split: prod.splits if_splits)
next
  case False
  then obtain cc as where m: "malloc (cs_allocs w) = (cc, as)" "cc \<noteq> 0"
    by (cases "malloc (cs_allocs w)") auto
  then have c: "r = 0" "ch_priv c' = cc" "ch_resources c' = cc"
      "cs_objs w1 = (cs_objs w)(cc \<mapsto> console_resources abi)"
    using assms by (auto simp: lininoio_console_connect_def Let_def)
  show ?thesis
    using connect_connected[of abi c w c' w1] assms c
    by (auto simp: lininoio_console_disconnect_def console_connected_def)
qed

lemma connected_resource:
  assumes "abi_ok abi" "e_chans st a = Some c" "console_connected abi c w"
  shows "chan_resource (with_console abi ops env) st w a = Some (ab_bytes abi (console_resources abi))"
  using assms by (simp add: chan_resource_def with_console_def console_connected_def abi_ok_def)

section \<open>Properties\<close>

text \<open>
  C31: connecting a console channel leaves it with its resource, connected as the ones before
  it stay; disconnecting it again clears its private pointer and frees its resource, which the
  channel goes on pointing at, and no other, so that the other channels stay connected, and
  after a failed connection nothing is left. The firmware of a core whose
  channels are connected consoles, at most as many as a node may have, always fits the page it
  is built in (for a resource of up to 250 bytes; the kernel's has 84), and has one copy of the
  resource for each channel.
\<close>

theorem console_channels:
  assumes "abi_ok abi" "ab_sizeof abi \<le> 250" "4096 \<le> ee_page_size env"
    and "lininoio_console_connect abi c w = Some (r, c', w1)"
    and "\<forall>a \<in> set (co_channels co). \<exists>d. e_chans st a = Some d \<and> console_connected abi d w"
    and "co_nchannels co = int (length (co_channels co))" "length (co_channels co) \<le> LININOIO_MAX_NCHANNELS"
  shows "(if r = 0
     then console_connected abi c' w1 \<and>
       (let (c2, w2) = lininoio_console_disconnect c' w1 in
         ch_priv c2 = 0 \<and> ch_resources c2 = ch_priv c' \<and> cs_objs w2 (ch_priv c') = None \<and>
         (\<forall>a. a \<noteq> ch_priv c' \<longrightarrow> cs_objs w2 a = cs_objs w a) \<and>
         (\<forall>d. console_connected abi d w \<longrightarrow> ch_priv d \<noteq> ch_priv c' \<longrightarrow> console_connected abi d w2))
     else c' = c \<and> cs_objs w1 = cs_objs w) \<and>
    (\<forall>a \<in> set (co_channels co). \<exists>d. e_chans st a = Some d \<and> console_connected abi d w1) \<and>
    (\<exists>img. fw_image (with_console abi ops env) st w1 co = Some img \<and>
       length img = 24 + 4 * length (co_channels co) + length (co_channels co) * ab_sizeof abi \<and>
       (\<forall>i < length (co_channels co). \<exists>off. take 4 (drop (24 + 4 * i) img) = le32 (of_nat off) \<and>
          take (ab_sizeof abi) (drop (8 + off) img) = ab_bytes abi (console_resources abi)))"
proof -
  let ?cs = "co_channels co" and ?r = "ab_bytes abi (console_resources abi)"
  let ?xs = "replicate (length ?cs) ?r"
  have keep: "\<forall>a \<in> set ?cs. \<exists>d. e_chans st a = Some d \<and> console_connected abi d w1"
    using assms(4,5) connect_keeps by blast
  have len: "length ?r = ab_sizeof abi"
    using assms(1) by (simp add: abi_ok_def)
  have all: "list_all2 (\<lambda>c x. chan_resource (with_console abi ops env) st w1 c = Some x) ?cs ?xs"
    using keep connected_resource[OF assms(1)] by (fastforce simp: list_all2_conv_all_nth)
  have tot: "length (concat ?xs) = length ?cs * ab_sizeof abi"
    by (simp add: length_concat len sum_list_replicate)
  have "length ?cs * ab_sizeof abi \<le> 16 * 250"
    using assms(2,7) by (intro mult_le_mono) (simp_all add: LININOIO_MAX_NCHANNELS_def)
  moreover have "24 + 4 * length ?cs + 16 * 250 \<le> 4096 + 64"
    using assms(7) by (simp add: LININOIO_MAX_NCHANNELS_def)
  ultimately have "24 + 4 * length ?cs + length (concat ?xs) \<le> ee_page_size env"
    using tot assms(3,7) by (simp add: LININOIO_MAX_NCHANNELS_def)
  then have "\<exists>img. fw_image (with_console abi ops env) st w1 co = Some img \<and>
       length img = 24 + 4 * length ?cs + length ?cs * ab_sizeof abi \<and>
       (\<forall>i < length ?cs. \<exists>off. take 4 (drop (24 + 4 * i) img) = le32 (of_nat off) \<and>
          take (ab_sizeof abi) (drop (8 + off) img) = ?r)"
    using ether_firmware_layout[OF all] assms(6) tot len by (auto simp: with_console_def)
  then show ?thesis
    using keep connect_disconnect[OF assms(4)] by blast
qed


text \<open>One console channel, at \<open>1\<close>, connected with its resource at \<open>5\<close>.\<close>

definition zero_abi :: remoteproc_abi where
  "zero_abi = \<lparr>ab_rsc_vdev = 3, ab_rproc_serial = 11, ab_sizeof = 84, ab_bytes = (\<lambda>_. replicate 84 0)\<rparr>"

definition one_console :: consoles where
  "one_console = \<lparr>cs_objs = [5 \<mapsto> console_resources zero_abi], cs_allocs = [6]\<rparr>"

definition console_chan :: lininoio_channel where
  "console_chan = (ee_uninit_chan null_env)\<lparr>ch_priv := 5, ch_resources_len := 84, ch_resources := 5\<rparr>"

definition console_host :: "consoles ether_env" where
  "console_host =
     \<lparr>ee_connect = (\<lambda>_. None), ee_inbound = (\<lambda>_. None), ee_disconnect = (\<lambda>_. None),
      ee_load = (\<lambda>_ w. Some (None, w)), ee_resource = (\<lambda>_ _. None),
      ee_phy_offset = (\<lambda>_. None), ee_minor = (\<lambda>_. 0), ee_ifindex = (\<lambda>_. 2), ee_rx_cb = 1, ee_udev_cb = 7,
      ee_backend_readable = 2, ee_start_cb = 3, ee_stop_cb = 4, ee_backend_add = 5,
      ee_kill_node = 6, ee_alive_timeout = 2000, ee_page_size = 4096, ee_ring = (\<lambda>_. \<lparr>d_addr = 0, d_len = 0, d_flags = 0, d_next = 0\<rparr>), ee_byte = (\<lambda>_. None), ee_magic = 77,
      ee_fw_simple = 1, ee_uninit_core = ee_uninit_core null_env, ee_uninit_chan = ee_uninit_chan null_env\<rparr>"

theorem console_channels_witness:
  "\<exists>c' w1 img. lininoio_console_connect zero_abi (ee_uninit_chan null_env) one_console = Some (0, c', w1) \<and>
    console_connected zero_abi c' w1 \<and> console_connected zero_abi console_chan w1 \<and>
    cs_objs (snd (lininoio_console_disconnect c' w1)) (ch_priv c') = None \<and>
    fw_image (with_console zero_abi 9 console_host) (cold_ether\<lparr>e_chans := [1 \<mapsto> console_chan]\<rparr>) w1
      ((ee_uninit_core null_env)\<lparr>co_nchannels := 1, co_channels := [1]\<rparr>) = Some img \<and> length img = 112"
proof -
  obtain c' w1 where c: "lininoio_console_connect zero_abi (ee_uninit_chan null_env) one_console = Some (0, c', w1)"
    by (simp add: lininoio_console_connect_def one_console_def)
  have "console_connected zero_abi console_chan one_console"
    by (simp add: console_connected_def console_chan_def zero_abi_def one_console_def console_resources_def)
  then show ?thesis
    using console_channels[of zero_abi console_host "ee_uninit_chan null_env" one_console 0 c' w1
        "(ee_uninit_core null_env)\<lparr>co_nchannels := 1, co_channels := [1]\<rparr>" "cold_ether\<lparr>e_chans := [1 \<mapsto> console_chan]\<rparr>" 9] c
    by (auto simp: abi_ok_def zero_abi_def console_host_def LININOIO_MAX_NCHANNELS_def)
qed

end
