(* ===== verification/Ether_Association.thy ===== *)
theory Ether_Association
  imports Console
begin

text \<open>
  The association of a slave from end to end, with the console handler: from the request as it
  arrives to the node, its timeout, its core and channel, the firmware, the remote processor
  given to the kernel, and the reply. Each stage is given what it changes and what it leaves.
\<close>

section \<open>The stages\<close>

text \<open>What a stage that is not about the system calls and the events leaves alone.\<close>

definition quiet :: "ether \<Rightarrow> ether \<Rightarrow> bool" where
  "quiet st st' \<longleftrightarrow> e_nodes st' = e_nodes st \<and> e_netif_fd st' = e_netif_fd st \<and>
     e_fds st' = e_fds st \<and> e_udev st' = e_udev st \<and> e_sys st' = e_sys st \<and> e_log st' = e_log st"

lemma get_node_stage:
  assumes "dll (e_mem st) (e_free_nodes st) (map n_list (n # ns))" "e_objs st n = Some en0"
  shows "\<exists>st1 en. get_node st from = Some (n, st1) \<and> e_objs st1 = (e_objs st)(n \<mapsto> en) \<and>
    en_addr en = from \<and> n_cores (en_node en) = replicate LININOIO_MAX_NCORES 0 \<and>
    n_channels (en_node en) = replicate LININOIO_MAX_NCHANNELS 0 \<and>
    e_mem st1 = list_move (e_mem st) (n_list n) (e_nodes st) \<and> quiet st st1 \<and>
    e_allocs st1 = e_allocs st \<and> e_timeouts st1 = e_timeouts st \<and> e_ops st1 = e_ops st \<and>
    e_cores st1 = e_cores st \<and> e_chans st1 = e_chans st"
proof -
  have "\<not> list_empty (e_mem st) (e_free_nodes st)" "list_first_entry (e_mem st) (e_free_nodes st) = n_list n"
    using dll_list_empty[OF assms(1)] dll_head_next[OF assms(1)] by (simp_all add: list_first_entry_def)
  then show ?thesis
    using assms(2) by (simp add: get_node_def quiet_def Let_def) (rule exI, rule conjI[OF refl], simp)
qed

lemma associate_stage:
  assumes "e_objs st n = Some en" "e_allocs st = t # as" "areq_nchannels buf = Some nch"
    and "to_rep (e_timeouts st) xs" "fresh_timeout (e_timeouts st) xs t" "ee_kill_node env \<noteq> 0"
  shows "\<exists>st1 ys. associate env from buf n st = Some st1 \<and>
    e_objs st1 = (e_objs st)(n \<mapsto> en\<lparr>en_node := (en_node en)
      \<lparr>n_nchannels := uint nch, n_alive_to := t, n_name := strncpy16 (areq_slave_name buf)\<rparr>\<rparr>) \<and>
    e_mem st1 = list_add_tail (e_mem st) (n_list n) (e_nodes st) \<and> quiet st st1 \<and>
    e_allocs st1 = as \<and> e_ops st1 = e_ops st \<and> e_cores st1 = e_cores st \<and> e_chans st1 = e_chans st \<and>
    to_rep (e_timeouts st1) ys \<and>
    to_queue (e_timeouts st1) ys =
      enqueue t (tv_us (ms_timeval (ee_alive_timeout env))) (to_queue (e_timeouts st) xs) \<and>
    (\<exists>e. to_objs (e_timeouts st1) t = Some \<lparr>expires = e, handler = ee_kill_node env, priv = n, armed = 1\<rparr>)"
proof -
  from schedule_spec[OF assms(4-6), of "ee_alive_timeout env" n] obtain tos ys where T:
      "schedule_timeout (e_timeouts st) (ee_alive_timeout env) (ee_kill_node env) n t = Some (t, tos)"
      "to_rep tos ys"
      "to_queue tos ys = enqueue t (tv_us (ms_timeval (ee_alive_timeout env))) (to_queue (e_timeouts st) xs)"
      "\<exists>e. to_objs tos t = Some \<lparr>expires = e, handler = ee_kill_node env, priv = n, armed = 1\<rparr>"
    by blast
  then show ?thesis
    using assms(1-3)
    by (simp add: associate_def upd_node_def e_schedule_def e_malloc_def quiet_def Let_def)
      (intro exI[of _ ys], simp)
qed

text \<open>The console's operations in the table: already loaded, or loaded now.\<close>

definition console_table :: "addr \<Rightarrow> ops_table \<Rightarrow> bool" where
  "console_table ops tab \<longleftrightarrow>
     (case tab of None \<Rightarrow> False
      | Some t \<Rightarrow> length t = LININOIO_N_PROTOS \<and> t ! unat LININOIO_PROTO_CONSOLE \<in> {0, ops})"

lemma console_found:
  assumes "console_table ops tab" "ops \<noteq> 0"
  shows "\<exists>tab'. lininoio_find_proto_ops (ee_load (with_console abi ops env)) LININOIO_PROTO_CONSOLE tab w =
    Some (ops, tab', w) \<and> console_table ops tab'"
  using assms
  by (auto simp: console_table_def lininoio_find_proto_ops_def with_console_def array_set_def
      LININOIO_PROTO_CONSOLE_def LININOIO_N_PROTOS_def array_get_def split: option.splits)

lemma with_console_env [simp]:
  "ee_kill_node (with_console abi ops env) = ee_kill_node env"
  "ee_alive_timeout (with_console abi ops env) = ee_alive_timeout env"
  "ee_start_cb (with_console abi ops env) = ee_start_cb env"
  "ee_stop_cb (with_console abi ops env) = ee_stop_cb env"
  "ee_backend_add (with_console abi ops env) = ee_backend_add env"
  "ee_page_size (with_console abi ops env) = ee_page_size env"
  "ee_magic (with_console abi ops env) = ee_magic env"
  by (simp_all add: with_console_def)

lemma channel_stage:
  assumes d: "areq_chan_descr buf 0 = Some d" "lininoio_cdescr_to_proto_id d = LININOIO_PROTO_CONSOLE"
    and en: "e_objs st n = Some en" "n_cores (en_node en) = replicate LININOIO_MAX_NCORES 0"
      "node_name (en_node en) = Some nm"
    and al: "e_allocs st = core # ch # as" "core \<noteq> 0" "ch \<noteq> 0" "cs_allocs w = cc # ws" "cc \<noteq> 0"
    and ops: "console_table ops (e_ops st)" "ops \<noteq> 0"
  shows "\<exists>st1 w1 co c. arequest_loop (with_console abi ops env) n buf 0 1 st w = Some (0, st1, w1) \<and>
    e_objs st1 = (e_objs st)(n \<mapsto> en\<lparr>en_node := (en_node en)\<lparr>n_cores :=
      (replicate LININOIO_MAX_NCORES 0)[unat (lininoio_cdescr_to_core_id d) := core]\<rparr>\<rparr>) \<and>
    e_cores st1 core = Some co \<and>
    co_rproc_name co = take 31 (nm @ CHR ''-'' # [digit (unat (lininoio_cdescr_to_core_id d))]) \<and>
    co_channels co = [ch] \<and> co_nchannels co = 1 \<and> co_node co = n \<and>
    e_chans st1 ch = Some c \<and> console_connected abi c w1 \<and> ch_ops c = ops \<and> ch_id c = 0 \<and>
    quiet st st1 \<and> e_mem st1 = e_mem st \<and> e_allocs st1 = as \<and> e_timeouts st1 = e_timeouts st \<and>
    cs_allocs w1 = ws"
proof -
  have "unat d div 8192 < 8"
    by (rule less_mult_imp_div_less) (use unat_u16_less[of d] in linarith)
  then have k: "unat (lininoio_cdescr_to_core_id d) < LININOIO_MAX_NCORES"
    by (simp add: core_id_nat LININOIO_MAX_NCORES_def)
  obtain tab' where tab: "lininoio_find_proto_ops (ee_load (with_console abi ops env))
      LININOIO_PROTO_CONSOLE (e_ops st) w = Some (ops, tab', w)"
    using console_found[OF ops] by blast
  have one: "(1 :: nat) = Suc 0" by simp
  show ?thesis
    unfolding one arequest_loop.simps
    using k d en al tab ops(2)
    by (simp add: new_channel_def get_core_def e_malloc_def upd_node_def quiet_def Let_def
        lininoio_console_connect_def with_console_def console_connected_def)
qed


text \<open>
  The cores of a node are set up from the first on, up to the first that is missing: of the
  cores of a slave without a core 0, none is.
\<close>

lemma cores_stage:
  assumes "e_objs st n = Some en" "n_cores (en_node en) = (replicate LININOIO_MAX_NCORES 0)[i := core]"
  shows "i = 0 \<Longrightarrow> core \<noteq> 0 \<Longrightarrow> setup_remoteproc env core st w = Some st' \<Longrightarrow>
      setup_remoteprocs env n st w = Some (0, st')"
    "i \<noteq> 0 \<Longrightarrow> setup_remoteprocs env n st w = Some (0, st)"
proof -
  have c: "n_cores (en_node en) = (case i of 0 \<Rightarrow> core # replicate 7 0 | Suc j \<Rightarrow> 0 # (replicate 7 0)[j := core])"
    using assms(2) by (simp add: LININOIO_MAX_NCORES_def eval_nat_numeral split: nat.split)
  show "i = 0 \<Longrightarrow> core \<noteq> 0 \<Longrightarrow> setup_remoteproc env core st w = Some st' \<Longrightarrow>
      setup_remoteprocs env n st w = Some (0, st')"
    using assms(1) c by (simp add: setup_remoteprocs_def eval_nat_numeral)
  show "i \<noteq> 0 \<Longrightarrow> setup_remoteprocs env n st w = Some (0, st)"
    using assms(1) c by (cases i) (simp_all add: setup_remoteprocs_def)
qed

lemma reply_stage:
  assumes "e_objs st n = Some en" "array_get (n_channels (en_node en)) 0 = Some 0"
    "n_nchannels (en_node en) = 1" "e_allocs st = p # ps" "p \<noteq> 0" "e_sys st = r # rs"
  shows "\<exists>st'. ether_send_areply n stat st = Some (r, st') \<and>
    e_log st' = e_log st @ [Sendmsg (e_netif_fd st) (en_addr en)
      [Some [LININOIO_PACKET_AREPLY, of_int stat], None], Free p] \<and>
    e_objs st' = e_objs st \<and> e_mem st' = e_mem st \<and> e_nodes st' = e_nodes st \<and>
    e_timeouts st' = e_timeouts st \<and> e_chans st' = e_chans st \<and> e_cores st' = e_cores st \<and>
    e_fds st' = e_fds st \<and> e_udev st' = e_udev st"
  using assms
  by (simp add: ether_send_areply_def e_malloc_def syscall_def syscall0_def Let_def eval_nat_numeral
      del: array_get_Some)

section \<open>The request\<close>

text \<open>
  A request that can be served: of a slave the daemon does not know, with a terminated name and
  one channel, console, with memory for all that is made of it.
\<close>

definition slave_name :: "u8 list \<Rightarrow> string" where
  "slave_name buf = map (\<lambda>b. char_of (unat b)) (takeWhile (\<lambda>b. b \<noteq> 0) (strncpy16 (areq_slave_name buf)))"

definition console_request :: "u8 list \<Rightarrow> u16 \<Rightarrow> bool" where
  "console_request buf d \<longleftrightarrow> areq_nchannels buf = Some 1 \<and> areq_chan_descr buf 0 = Some d \<and>
     lininoio_cdescr_to_proto_id d = LININOIO_PROTO_CONSOLE \<and> 0 \<in> set (strncpy16 (areq_slave_name buf))"

definition can_associate :: "'w ether_env \<Rightarrow> ether \<Rightarrow> addr \<Rightarrow> addr list \<Rightarrow> addr list \<Rightarrow> addr \<Rightarrow> bool" where
  "can_associate env st n ns xs t \<longleftrightarrow>
     dll (e_mem st) (e_nodes st) [] \<and> dll (e_mem st) (e_free_nodes st) (map n_list (n # ns)) \<and>
     e_nodes st \<notin> set (e_free_nodes st # map n_list (n # ns)) \<and> n \<noteq> 0 \<and> e_objs st n \<noteq> None \<and>
     to_rep (e_timeouts st) xs \<and> fresh_timeout (e_timeouts st) xs t \<and> ee_kill_node env \<noteq> 0"

text \<open>The node, its timeout, its core and its channel, as an accepted request leaves them.\<close>

definition associated ::
    "remoteproc_abi \<Rightarrow> 'w ether_env \<Rightarrow> sockaddr_ll \<Rightarrow> u8 list \<Rightarrow> nat \<Rightarrow> addr \<Rightarrow> addr \<Rightarrow> addr \<Rightarrow> addr \<Rightarrow> consoles \<Rightarrow>
     ether \<Rightarrow> bool" where
  "associated abi env from buf k n t core ch w st \<longleftrightarrow>
     find_node st from = Some n \<and>
     (\<exists>en. e_objs st n = Some en \<and> en_addr en = from \<and> n_nchannels (en_node en) = 1 \<and>
        n_alive_to (en_node en) = t \<and> node_name (en_node en) = Some (slave_name buf) \<and>
        n_cores (en_node en) = (replicate LININOIO_MAX_NCORES 0)[k := core]) \<and>
     (\<exists>e. to_objs (e_timeouts st) t = Some \<lparr>expires = e, handler = ee_kill_node env, priv = n, armed = 1\<rparr>) \<and>
     (\<exists>co. e_cores st core = Some co \<and> co_channels co = [ch] \<and> co_node co = n \<and>
        co_rproc_name co = take 31 (slave_name buf @ CHR ''-'' # [digit k])) \<and>
     (\<exists>c. e_chans st ch = Some c \<and> console_connected abi c w)"

text \<open>
  Up to the remote processors: everything is in place but for the link to the list, which has
  been made twice.
\<close>

lemma request_stage:
  assumes can: "can_associate (with_console abi ops env) st n ns xs t" and req: "console_request buf d"
    and al: "e_allocs st = t # core # ch # as" "core \<noteq> 0" "ch \<noteq> 0" "cs_allocs w = cc # ws" "cc \<noteq> 0"
    and ops: "console_table ops (e_ops st)" "ops \<noteq> 0"
  shows "\<exists>st0 st1 st2 w1 en co c. get_node st from = Some (n, st0) \<and>
    associate (with_console abi ops env) from buf n st0 = Some st1 \<and>
    arequest_loop (with_console abi ops env) n buf 0 1 st1 w = Some (0, st2, w1) \<and>
    e_objs st2 = (e_objs st)(n \<mapsto> en) \<and> en_addr en = from \<and> n_nchannels (en_node en) = 1 \<and>
    n_alive_to (en_node en) = t \<and> node_name (en_node en) = Some (slave_name buf) \<and>
    array_get (n_channels (en_node en)) 0 = Some 0 \<and>
    n_cores (en_node en) = (replicate LININOIO_MAX_NCORES 0)[unat (lininoio_cdescr_to_core_id d) := core] \<and>
    (\<exists>e. to_objs (e_timeouts st2) t =
       Some \<lparr>expires = e, handler = ee_kill_node env, priv = n, armed = 1\<rparr>) \<and>
    e_cores st2 core = Some co \<and> co_channels co = [ch] \<and> co_nchannels co = 1 \<and> co_node co = n \<and>
    co_rproc_name co = take 31 (slave_name buf @ CHR ''-'' # [digit (unat (lininoio_cdescr_to_core_id d))]) \<and>
    e_chans st2 ch = Some c \<and> console_connected abi c w1 \<and> quiet st st2 \<and> e_allocs st2 = as \<and>
    next_of (e_mem st2) (e_nodes st2) = n_list n \<and> n_list n \<noteq> e_nodes st2"
proof -
  let ?env = "with_console abi ops env"
  have C: "dll (e_mem st) (e_nodes st) []" "dll (e_mem st) (e_free_nodes st) (map n_list (n # ns))"
    "e_nodes st \<notin> set (e_free_nodes st # map n_list (n # ns))" "n \<noteq> 0" "e_objs st n \<noteq> None"
    "to_rep (e_timeouts st) xs" "fresh_timeout (e_timeouts st) xs t" "ee_kill_node ?env \<noteq> 0"
    using can by (simp_all add: can_associate_def)
  have R: "areq_nchannels buf = Some 1" "areq_chan_descr buf 0 = Some d"
    "lininoio_cdescr_to_proto_id d = LININOIO_PROTO_CONSOLE" "0 \<in> set (strncpy16 (areq_slave_name buf))"
    using req by (simp_all add: console_request_def)
  obtain en0 where en0: "e_objs st n = Some en0" using C(5) by blast
  obtain st0 en1 where G: "get_node st from = Some (n, st0)" "e_objs st0 = (e_objs st)(n \<mapsto> en1)"
    "en_addr en1 = from" "n_cores (en_node en1) = replicate LININOIO_MAX_NCORES 0"
    "n_channels (en_node en1) = replicate LININOIO_MAX_NCHANNELS 0"
    "e_mem st0 = list_move (e_mem st) (n_list n) (e_nodes st)" "quiet st st0" "e_allocs st0 = e_allocs st"
    "e_timeouts st0 = e_timeouts st" "e_ops st0 = e_ops st"
    using get_node_stage[OF C(2) en0, of "from"] by blast
  have o0: "e_objs st0 n = Some en1" and a0: "e_allocs st0 = t # core # ch # as"
    using G(2,8) al(1) by simp_all
  obtain st1 where A: "associate ?env from buf n st0 = Some st1"
    "e_objs st1 = (e_objs st0)(n \<mapsto> en1\<lparr>en_node := (en_node en1)
      \<lparr>n_nchannels := 1, n_alive_to := t, n_name := strncpy16 (areq_slave_name buf)\<rparr>\<rparr>)"
    "e_mem st1 = list_add_tail (e_mem st0) (n_list n) (e_nodes st0)" "quiet st0 st1"
    "e_allocs st1 = core # ch # as" "e_ops st1 = e_ops st0"
    "\<exists>e. to_objs (e_timeouts st1) t = Some \<lparr>expires = e, handler = ee_kill_node ?env, priv = n, armed = 1\<rparr>"
    using associate_stage[OF o0 a0 R(1) _ _ C(8), of xs "from"] C(6,7) G(9) by (metis uint_1)
  define en2 where "en2 = en1\<lparr>en_node := (en_node en1)
    \<lparr>n_nchannels := 1, n_alive_to := t, n_name := strncpy16 (areq_slave_name buf)\<rparr>\<rparr>"
  have o1: "e_objs st1 n = Some en2" and nm: "node_name (en_node en2) = Some (slave_name buf)"
    and cores: "n_cores (en_node en2) = replicate LININOIO_MAX_NCORES 0"
    using A(2) R(4) G(4) by (simp_all add: en2_def node_name_def slave_name_def)
  have t1: "console_table ops (e_ops st1)" using ops(1) A(6) G(10) by simp
  obtain st2 w1 co c where L: "arequest_loop ?env n buf 0 1 st1 w = Some (0, st2, w1)"
    "e_objs st2 = (e_objs st1)(n \<mapsto> en2\<lparr>en_node := (en_node en2)\<lparr>n_cores :=
      (replicate LININOIO_MAX_NCORES 0)[unat (lininoio_cdescr_to_core_id d) := core]\<rparr>\<rparr>)"
    "e_cores st2 core = Some co"
    "co_rproc_name co = take 31 (slave_name buf @ CHR ''-'' # [digit (unat (lininoio_cdescr_to_core_id d))])"
    "co_channels co = [ch]" "co_nchannels co = 1" "co_node co = n"
    "e_chans st2 ch = Some c" "console_connected abi c w1"
    "quiet st1 st2" "e_mem st2 = e_mem st1" "e_allocs st2 = as" "e_timeouts st2 = e_timeouts st1"
    using channel_stage[OF R(2,3) o1 cores nm A(5) al(2-5) t1 ops(2)] by blast
  have q: "quiet st st2" and nd: "e_nodes st2 = e_nodes st" "e_nodes st0 = e_nodes st"
    using G(7) A(4) L(10) by (simp_all add: quiet_def)
  have "set (e_free_nodes st # n_list n # map n_list ns) \<inter> {e_nodes st} = {}"
    using C(3) by auto
  note nx = list_add_twice(1)[OF C(1) C(2)[unfolded list.map] this]
  have "next_of (e_mem st2) (e_nodes st2) = n_list n" "n_list n \<noteq> e_nodes st2"
    using nx L(11) A(3) G(6) nd C(3) by auto
  then show ?thesis
    using G(1,2,3,5) A(1,2,7) L q R(4)
    by - (rule exI[of _ st0], rule exI[of _ st1], rule exI[of _ st2], rule exI[of _ w1],
      rule exI[of _ "en2\<lparr>en_node := (en_node en2)\<lparr>n_cores :=
        (replicate LININOIO_MAX_NCORES 0)[unat (lininoio_cdescr_to_core_id d) := core]\<rparr>\<rparr>"],
      rule exI[of _ co], rule exI[of _ c],
      simp add: en2_def node_name_def slave_name_def LININOIO_MAX_NCHANNELS_def del: arequest_loop.simps One_nat_def)
qed


section \<open>The firmware of one console\<close>

definition console_image :: "remoteproc_abi \<Rightarrow> u32 \<Rightarrow> u8 list" where
  "console_image abi magic =
     le32 magic @ le32 (of_nat (20 + ab_sizeof abi)) @ le32 1 @ le32 1 @ le32 0 @ le32 0 @ le32 20 @
     ab_bytes abi (console_resources abi)"

lemma fw_image_one:
  assumes "abi_ok abi" "28 + ab_sizeof abi \<le> ee_page_size env" "co_channels co = [ch]" "co_nchannels co = 1"
    and "e_chans st ch = Some c" "console_connected abi c w"
  shows "fw_image (with_console abi ops env) st w co = Some (console_image abi (ee_magic env))"
proof -
  have len: "length (ab_bytes abi (console_resources abi)) = ab_sizeof abi"
    using assms(1) by (simp add: abi_ok_def)
  have r: "ee_resource (with_console abi ops env) (ch_resources c) w = Some (ab_bytes abi (console_resources abi))"
    and l: "ch_resources_len c = int (ab_sizeof abi)"
    using assms(6) by (simp_all add: console_connected_def with_console_def)
  have "fw_loop (with_console abi ops env) st w [ch] 20 = Some ([20], ab_bytes abi (console_resources abi))"
    using assms(5) r l len by simp
  then show ?thesis
    using assms(2-4) len
    by (simp add: fw_image_def console_image_def Let_def eval_nat_numeral del: fw_loop.simps)
qed

section \<open>The outcome\<close>

lemma find_first:
  assumes "next_of (e_mem st) (e_nodes st) = n_list n" "n_list n \<noteq> e_nodes st" "e_objs st n = Some en"
    "en_addr en = from"
  shows "find_node st from = Some n"
  using assms by (simp add: find_node_def list_find_entry_def list_find.simps)

lemma associatedI:
  assumes "e_objs st n = Some en" "en_addr en = from" "n_nchannels (en_node en) = 1"
    "n_alive_to (en_node en) = t" "node_name (en_node en) = Some (slave_name buf)"
    "n_cores (en_node en) = (replicate LININOIO_MAX_NCORES 0)[k := core]"
    "\<exists>e. to_objs (e_timeouts st) t = Some \<lparr>expires = e, handler = ee_kill_node env, priv = n, armed = 1\<rparr>"
    "e_cores st core = Some co" "co_channels co = [ch]" "co_node co = n"
    "co_rproc_name co = take 31 (slave_name buf @ CHR ''-'' # [digit k])"
    "e_chans st ch = Some c" "console_connected abi c w"
    "next_of (e_mem st) (e_nodes st) = n_list n" "n_list n \<noteq> e_nodes st"
  shows "associated abi env from buf k n t core ch w st"
  unfolding associated_def
proof (intro conjI)
  show "find_node st from = Some n"
    by (rule find_first[OF assms(14,15,1,2)])
qed (use assms in blast)+

lemma unknown_slave: "dll (e_mem st) (e_nodes st) [] \<Longrightarrow> find_node st from = Some 0"
  using dll_find_entry[of "e_mem st" "e_nodes st" "[]"] by (simp add: find_node_def)

text \<open>The request once its stages are known.\<close>

lemma arequest_accepted:
  assumes "areq_nchannels buf = Some 1" "find_node st from = Some 0" "get_node st from = Some (n, st0)" "n \<noteq> 0"
    "associate env from buf n st0 = Some st1" "arequest_loop env n buf 0 1 st1 w = Some (0, st2, w1)"
    "setup_remoteprocs env n st2 w1 = Some (0, st3)" "ether_send_areply n 0 st3 = Some (r, st4)"
  shows "ether_rx_arequest env from buf st w = Some (st4, w1)"
  using assms by (simp add: ether_rx_arequest_def LININOIO_MAX_NCHANNELS_def del: arequest_loop.simps One_nat_def)

section \<open>Properties\<close>

text \<open>
  C13: the association of a slave with a console on its first core succeeds from end to end
  when the system calls do: the slave's node is found under its address, with its name, its
  timeout armed to kill it, its core and its connected channel; the firmware with the console's
  resource is written, the remote processor is given to the kernel with the two events, and
  the slave is sent a positive reply.
\<close>

theorem ether_association:
  assumes "can_associate env st n ns xs t" "console_request buf d" "lininoio_cdescr_to_core_id d = 0"
    and "e_allocs st = t # core # ch # nm # ptr # a1 # a2 # a3 # p # as"
      "0 \<notin> {core, ch, nm, ptr, a1, a2, a3, p}" "cs_allocs w = cc # ws" "cc \<noteq> 0"
    and "console_table ops (e_ops st)" "ops \<noteq> 0" "ee_start_cb env \<noteq> 0" "ee_stop_cb env \<noteq> 0"
    and "abi_ok abi" "28 + ab_sizeof abi \<le> ee_page_size env"
    and "e_sys st = fd # fw # ev1 # ev2 # io # sent # rs" "\<forall>r \<in> {fd, fw, ev1, ev2, io}. 0 \<le> r"
  shows "\<exists>st' w' pd. ether_rx_arequest (with_console abi ops env) from buf st w = Some (st', w') \<and>
    associated abi env from buf 0 n t core ch w' st' \<and>
    r2p_start_fd pd = ev1 \<and> r2p_stop_fd pd = ev2 \<and>
    e_log st' = e_log st @
      [Open ''/dev/r2proc'', Open (''/lib/firmware/'' @ take 31 (slave_name buf @ ''-0'') @ ''-fw''),
       Write_file fw (console_image abi (ee_magic env)), Close fw, Eventfd, Eventfd, Ioctl_add_proc fd pd,
       Sendmsg (e_netif_fd st) from [Some [LININOIO_PACKET_AREPLY, 0], None], Free p]"
proof -
  let ?env = "with_console abi ops env"
  have can: "can_associate ?env st n ns xs t"
    using assms(1) by (simp add: can_associate_def)
  have nz: "core \<noteq> 0" "ch \<noteq> 0" "p \<noteq> 0" using assms(5) by auto
  have k0: "unat (lininoio_cdescr_to_core_id d) = 0"
    using assms(3) by simp
  have d0: "digit 0 = CHR ''0''" by code_simp
  obtain st0 st1 st2 w1 en co c where S: "get_node st from = Some (n, st0)"
    "associate ?env from buf n st0 = Some st1" "arequest_loop ?env n buf 0 1 st1 w = Some (0, st2, w1)"
    "e_objs st2 = (e_objs st)(n \<mapsto> en)" "en_addr en = from" "n_nchannels (en_node en) = 1"
    "n_alive_to (en_node en) = t" "node_name (en_node en) = Some (slave_name buf)"
    "array_get (n_channels (en_node en)) 0 = Some 0"
    "n_cores (en_node en) = (replicate LININOIO_MAX_NCORES 0)[0 := core]"
    "\<exists>e. to_objs (e_timeouts st2) t =
       Some \<lparr>expires = e, handler = ee_kill_node env, priv = n, armed = 1\<rparr>"
    "e_cores st2 core = Some co" "co_channels co = [ch]" "co_nchannels co = 1" "co_node co = n"
    "co_rproc_name co = take 31 (slave_name buf @ CHR ''-'' # [digit 0])"
    "e_chans st2 ch = Some c" "console_connected abi c w1" "quiet st st2"
    "e_allocs st2 = nm # ptr # a1 # a2 # a3 # p # as"
    "next_of (e_mem st2) (e_nodes st2) = n_list n" "n_list n \<noteq> e_nodes st2"
    using request_stage[OF can assms(2,4) nz(1,2) assms(6-9), where ?from = "from"] k0
    by (elim exE conjE) metis
  have o2: "e_objs st2 n = Some en" using S(4) by simp
  have sys2: "e_sys st2 = fd # fw # ev1 # ev2 # io # sent # rs"
    using S(19) assms(14) by (simp add: quiet_def)
  have ready: "rproc_ready ?env core st2 w1 co (console_image abi (ee_magic env))"
    using fw_image_one[OF assms(12,13) S(13,14) _ S(18)] S(12,16,17) nz(1) assms(10,11)
    by (simp add: rproc_ready_def)
  obtain st3 pd where T: "setup_remoteproc ?env core st2 w1 = Some st3"
    "e_log st3 = e_log st2 @ [Open ''/dev/r2proc'', Open (''/lib/firmware/'' @ co_rproc_name co @ ''-fw''),
      Write_file fw (console_image abi (ee_magic env)), Close fw, Eventfd, Eventfd, Ioctl_add_proc fd pd]"
    "r2p_start_fd pd = ev1" "r2p_stop_fd pd = ev2"
    "e_objs st3 = e_objs st2" "e_mem st3 = e_mem st2" "e_nodes st3 = e_nodes st2"
    "e_timeouts st3 = e_timeouts st2" "e_chans st3 = e_chans st2" "e_netif_fd st3 = e_netif_fd st2"
    "e_cores st3 = (e_cores st2)(core \<mapsto> co\<lparr>co_pd := pd\<rparr>)" "e_sys st3 = sent # rs" "e_allocs st3 = p # as"
    using setup_remoteproc_stage[OF ready S(20) _ sys2] assms(5,15) by auto
  have o3: "e_objs st3 n = Some en" using T(5) o2 by simp
  obtain st4 where Y: "ether_send_areply n 0 st3 = Some (sent, st4)"
    "e_log st4 = e_log st3 @ [Sendmsg (e_netif_fd st3) (en_addr en)
      [Some [LININOIO_PACKET_AREPLY, of_int 0], None], Free p]"
    "e_objs st4 = e_objs st3" "e_mem st4 = e_mem st3" "e_nodes st4 = e_nodes st3"
    "e_timeouts st4 = e_timeouts st3" "e_chans st4 = e_chans st3" "e_cores st4 = e_cores st3"
    using reply_stage[OF o3 S(9,6) T(13) nz(3) T(12), of 0] by blast
  have "areq_nchannels buf = Some 1" using assms(2) by (simp add: console_request_def)
  moreover have "find_node st from = Some 0" "n \<noteq> 0"
    using unknown_slave can by (auto simp: can_associate_def)
  ultimately have run: "ether_rx_arequest ?env from buf st w = Some (st4, w1)"
    by (rule arequest_accepted[OF _ _ S(1) _ S(2,3) cores_stage(1)[OF o2 S(10) refl nz(1) T(1)] Y(1)])
  have "associated abi env from buf 0 n t core ch w1 st4"
    by (rule associatedI[where en = en and co = "co\<lparr>co_pd := pd\<rparr>" and c = c])
      (use S T Y o3 in simp_all)
  moreover have "e_log st2 = e_log st" "e_netif_fd st2 = e_netif_fd st"
    using S(19) by (simp_all add: quiet_def)
  ultimately show ?thesis
    using run T(2-4,10) Y(2) S(5,16) d0 by (intro exI[of _ st4] exI[of _ w1] exI[of _ pd]) simp
qed


text \<open>A daemon with one free node and an empty table of protocols, and a request it accepts.\<close>

definition console_daemon :: ether where
  "console_daemon = small_ether\<lparr>e_ops := Some (replicate LININOIO_N_PROTOS 0), e_sys := [4, 5, 6, 7, 0, 20]\<rparr>"

lemma console_daemon_can: "can_associate console_host console_daemon 3 [] [] 10"
proof -
  have "to_rep (e_timeouts console_daemon) []"
    by (simp add: console_daemon_def small_ether_def cold_ether_def to_rep_def dll_INIT_LIST_HEAD)
  moreover have "fresh_timeout (e_timeouts console_daemon) [] 10"
    by (simp add: console_daemon_def small_ether_def cold_ether_def fresh_timeout_def to_list_def)
  moreover have "e_objs console_daemon 3 \<noteq> None"
    by (simp add: console_daemon_def small_ether_def)
  ultimately show ?thesis
    using small_ether_lists by (simp add: can_associate_def console_daemon_def console_host_def)
qed

lemma request_is_console: "console_request one_channel_request 2"
  using request_fields(1,2,4,5) by (simp add: console_request_def LININOIO_PROTO_CONSOLE_def)

lemma console_daemon_facts:
  "console_table 9 (e_ops console_daemon)" "e_log console_daemon = []" "e_netif_fd console_daemon = 0"
  "e_allocs console_daemon = 10 # 11 # 12 # 13 # 14 # 15 # 16 # 17 # 18 # [19]"
  "abi_ok zero_abi" "28 + ab_sizeof zero_abi \<le> ee_page_size console_host"
  by (simp_all add: console_daemon_def console_table_def LININOIO_N_PROTOS_def LININOIO_PROTO_CONSOLE_def
      small_ether_def cold_ether_def upt_rec abi_ok_def zero_abi_def console_host_def)

theorem ether_association_witness:
  "\<exists>st' w'. ether_rx_arequest (with_console zero_abi 9 console_host) first_slave one_channel_request
      console_daemon one_console = Some (st', w') \<and>
    associated zero_abi console_host first_slave one_channel_request 0 3 10 11 12 w' st' \<and>
    Write_file 5 (console_image zero_abi 77) \<in> set (e_log st')"
proof -
  have "e_sys console_daemon = [4, 5, 6, 7, 0, 20]"
    by (simp add: console_daemon_def)
  from ether_association[OF console_daemon_can request_is_console request_fields(3) console_daemon_facts(4)
      _ _ _ console_daemon_facts(1) _ _ _ console_daemon_facts(5,6) this, of one_console 6 "[]", where ?from = first_slave]
  show ?thesis
    by (auto simp: one_console_def console_host_def)
qed

text \<open>
  C14: the cores of a node are set up from core 0 on, up to the first that is missing. The
  association of a slave whose console is on another core goes through in the same way, but for
  its firmware and remote processor: nothing is opened, written or given to the kernel, and the
  slave is sent a positive reply all the same.
\<close>

theorem ether_core_gap:
  assumes "can_associate env st n ns xs t" "console_request buf d" "lininoio_cdescr_to_core_id d \<noteq> 0"
    and "e_allocs st = t # core # ch # p # as" "0 \<notin> {core, ch, p}" "cs_allocs w = cc # ws" "cc \<noteq> 0"
    and "console_table ops (e_ops st)" "ops \<noteq> 0" "e_sys st = sent # rs"
  shows "\<exists>st' w'. ether_rx_arequest (with_console abi ops env) from buf st w = Some (st', w') \<and>
    associated abi env from buf (unat (lininoio_cdescr_to_core_id d)) n t core ch w' st' \<and>
    e_log st' = e_log st @
      [Sendmsg (e_netif_fd st) from [Some [LININOIO_PACKET_AREPLY, 0], None], Free p]"
proof -
  let ?env = "with_console abi ops env"
  have can: "can_associate ?env st n ns xs t"
    using assms(1) by (simp add: can_associate_def)
  have nz: "core \<noteq> 0" "ch \<noteq> 0" "p \<noteq> 0" using assms(5) by auto
  have k: "unat (lininoio_cdescr_to_core_id d) \<noteq> 0"
    using assms(3) by (simp add: unat_eq_zero)
  obtain st0 st1 st2 w1 en co c where S: "get_node st from = Some (n, st0)"
    "associate ?env from buf n st0 = Some st1" "arequest_loop ?env n buf 0 1 st1 w = Some (0, st2, w1)"
    "e_objs st2 = (e_objs st)(n \<mapsto> en)" "en_addr en = from" "n_nchannels (en_node en) = 1"
    "n_alive_to (en_node en) = t" "node_name (en_node en) = Some (slave_name buf)"
    "array_get (n_channels (en_node en)) 0 = Some 0"
    "n_cores (en_node en) = (replicate LININOIO_MAX_NCORES 0)[unat (lininoio_cdescr_to_core_id d) := core]"
    "\<exists>e. to_objs (e_timeouts st2) t =
       Some \<lparr>expires = e, handler = ee_kill_node env, priv = n, armed = 1\<rparr>"
    "e_cores st2 core = Some co" "co_channels co = [ch]" "co_nchannels co = 1" "co_node co = n"
    "co_rproc_name co = take 31 (slave_name buf @ CHR ''-'' # [digit (unat (lininoio_cdescr_to_core_id d))])"
    "e_chans st2 ch = Some c" "console_connected abi c w1" "quiet st st2"
    "e_allocs st2 = p # as"
    "next_of (e_mem st2) (e_nodes st2) = n_list n" "n_list n \<noteq> e_nodes st2"
    using request_stage[OF can assms(2,4) nz(1,2) assms(6-9), where ?from = "from"]
    by (elim exE conjE) metis
  have o2: "e_objs st2 n = Some en" using S(4) by simp
  have sys2: "e_sys st2 = sent # rs" "e_log st2 = e_log st" "e_netif_fd st2 = e_netif_fd st"
    using S(19) assms(10) by (simp_all add: quiet_def)
  obtain st4 where Y: "ether_send_areply n 0 st2 = Some (sent, st4)"
    "e_log st4 = e_log st2 @ [Sendmsg (e_netif_fd st2) (en_addr en)
      [Some [LININOIO_PACKET_AREPLY, of_int 0], None], Free p]"
    "e_objs st4 = e_objs st2" "e_mem st4 = e_mem st2" "e_nodes st4 = e_nodes st2"
    "e_timeouts st4 = e_timeouts st2" "e_chans st4 = e_chans st2" "e_cores st4 = e_cores st2"
    using reply_stage[OF o2 S(9,6,20) nz(3) sys2(1), of 0] by blast
  have "areq_nchannels buf = Some 1" using assms(2) by (simp add: console_request_def)
  moreover have "find_node st from = Some 0" "n \<noteq> 0"
    using unknown_slave can by (auto simp: can_associate_def)
  ultimately have "ether_rx_arequest ?env from buf st w = Some (st4, w1)"
    by (rule arequest_accepted[OF _ _ S(1) _ S(2,3) cores_stage(2)[OF o2 S(10) k] Y(1)])
  moreover have "associated abi env from buf (unat (lininoio_cdescr_to_core_id d)) n t core ch w1 st4"
    by (rule associatedI[where en = en and co = co and c = c]) (use S Y o2 in simp_all)
  ultimately show ?thesis
    using Y(2) S(5) sys2(2,3) by (intro exI[of _ st4] exI[of _ w1]) simp
qed

text \<open>The same request for core 1.\<close>

definition core_one_request :: "u8 list" where
  "core_one_request = [1, 97, 98] @ replicate 14 0 @ [1, 2, 32]"

theorem ether_core_gap_witness:
  "\<exists>st' w'. ether_rx_arequest (with_console zero_abi 9 console_host) first_slave core_one_request
      console_daemon one_console = Some (st', w') \<and>
    e_log st' = [Sendmsg 0 first_slave [Some [LININOIO_PACKET_AREPLY, 0], None], Free 13]"
proof -
  have r: "areq_nchannels core_one_request = Some 1" "areq_chan_descr core_one_request 0 = Some 0x2002"
    "lininoio_cdescr_to_proto_id 0x2002 = 2" "lininoio_cdescr_to_core_id 0x2002 = 1"
    "strncpy16 (areq_slave_name core_one_request) = [97, 98, 0, 0, 0, 0, 0, 0, 0, 0, 0, 0, 0, 0, 0, 0]"
    by code_simp+
  then have "console_request core_one_request 0x2002"
    by (simp add: console_request_def LININOIO_PROTO_CONSOLE_def)
  moreover have "e_sys console_daemon = 4 # [5, 6, 7, 0, 20]"
    by (simp add: console_daemon_def)
  ultimately show ?thesis
    using ether_core_gap[OF console_daemon_can _ _ console_daemon_facts(4), of core_one_request "0x2002"
        one_console 6 "[]" 9 4 "[5, 6, 7, 0, 20]" zero_abi first_slave] r(4) console_daemon_facts
    by (auto simp: one_console_def)
qed

end
