(* ===== verification/Mcuio.thy ===== *)
theory Mcuio
  imports List_Head Lininoio_Node
begin

text \<open>
  The handler of the mcuio protocol, \<^verbatim>\<open>lininoio-protocol-handlers/mcuio.c\<close>: busses of eight
  device numbers each, a device taken for each channel that connects. The library of the
  mcuio daemon is not part of the repository; what its two functions answer are inputs.
\<close>

section \<open>State\<close>

record mcuio_bus =
  mb_id :: int
  mb_fd :: int
  mb_free_devs :: u8

text \<open>
  The state of the module: the list of the busses and their structures, whether there is a
  connection, the answers of the allocator, of \<^verbatim>\<open>mcuiod_connect\<close> and of \<^verbatim>\<open>mcuiod_new_bus\<close> (an
  id and a descriptor, \<^term>\<open>None\<close> for an error), and the writes made to descriptors.
\<close>

record mcuio =
  mc_mem :: list_mem
  mc_busses :: addr
  mc_objs :: "addr \<rightharpoonup> mcuio_bus"
  mc_connection :: bool
  mc_allocs :: "addr list"
  mc_connects :: "bool list"
  mc_new_busses :: "(int \<times> int) option list"
  mc_writes :: "(int \<times> u8 list) list"

definition mb_list :: "addr \<Rightarrow> addr" where "mb_list b = b + 16"
definition mb_entry :: "addr \<Rightarrow> addr" where "mb_entry l = l - 16"

lemma mb_entry_list [simp]: "mb_entry (mb_list b) = b"
  by (simp add: mb_entry_def mb_list_def)

section \<open>Busses\<close>

definition lininoio_mcuio_init :: "mcuio \<Rightarrow> int \<times> mcuio" where
  "lininoio_mcuio_init st =
     (let st1 = st\<lparr>mc_mem := INIT_LIST_HEAD (mc_mem st) (mc_busses st)\<rparr>;
          conn = (case mc_connects st1 of [] \<Rightarrow> False | c # _ \<Rightarrow> c);
          st2 = st1\<lparr>mc_connection := conn, mc_connects := drop 1 (mc_connects st1)\<rparr>
      in (if conn then 0 else - 1, st2))"

definition add_bus :: "mcuio \<Rightarrow> addr \<times> mcuio" where
  "add_bus st =
     (let (out, as) = malloc (mc_allocs st); st1 = st\<lparr>mc_allocs := as\<rparr>
      in if out = 0 then (0, st1)
         else
           let answer = (case mc_new_busses st1 of [] \<Rightarrow> None | r # _ \<Rightarrow> r);
               st2 = st1\<lparr>mc_new_busses := drop 1 (mc_new_busses st1)\<rparr>
           in case answer of
                None \<Rightarrow> (0, st2)
              | Some (bid, fd) \<Rightarrow>
                  (out, st2\<lparr>mc_objs := (mc_objs st2)(out \<mapsto> \<lparr>mb_id = bid, mb_fd = fd, mb_free_devs = 0xff\<rparr>),
                            mc_mem := list_add (mc_mem st2) (mb_list out) (mc_busses st2)\<rparr>))"

definition free_bus :: "mcuio \<Rightarrow> addr \<Rightarrow> mcuio" where
  "free_bus st b =
     st\<lparr>mc_mem := list_del (mc_mem st) (mb_list b), mc_objs := (mc_objs st)(b := None)\<rparr>"

text \<open>\<open>ffs\<close>: one more than the lowest bit that is set, 0 without one.\<close>

definition ffs :: "u8 \<Rightarrow> u8" where
  "ffs v = (case filter (bit v) [0 ..< 8] of [] \<Rightarrow> 0 | i # _ \<Rightarrow> of_nat (Suc i))"

text \<open>\<open>get_free_dev\<close> is given the address of the device number, and does not write it.\<close>

definition get_free_dev :: "mcuio_bus \<Rightarrow> int \<times> mcuio_bus" where
  "get_free_dev b =
     (let v = ffs (mb_free_devs b)
      in if v = 0 then (- 1, b)
         else (uint v - 1, b\<lparr>mb_free_devs := mb_free_devs b AND NOT (push_bit (unat v - 1) 1)\<rparr>))"

definition put_dev :: "mcuio \<Rightarrow> addr \<Rightarrow> u8 \<Rightarrow> mcuio option" where
  "put_dev st b dev =
     (if 7 < dev then Some st
      else
        Option.bind (mc_objs st b) (\<lambda>bus.
          let bus' = bus\<lparr>mb_free_devs := mb_free_devs bus OR push_bit (unat dev) 1\<rparr>;
              st' = st\<lparr>mc_objs := (mc_objs st)(b \<mapsto> bus')\<rparr>
          in Some (if mb_free_devs bus' = 0 then free_bus st' b else st')))"

section \<open>The operations of the protocol\<close>

text \<open>
  The loop of \<open>connect\<close>, \<open>n\<close> rounds: \<^term>\<open>Inl st\<close> is the return of \<open>-1\<close>, \<^term>\<open>Inr (bus, st, c)\<close> its end.
\<close>

fun connect_loop ::
    "nat \<Rightarrow> addr \<Rightarrow> mcuio \<Rightarrow> lininoio_channel \<Rightarrow>
     (mcuio \<times> lininoio_channel + addr \<times> mcuio \<times> lininoio_channel) option" where
  "connect_loop 0 curr_bus st c = Some (Inr (curr_bus, st, c))"
| "connect_loop (Suc n) curr_bus st c =
     (let (bus, st1) = (if curr_bus = 0 then add_bus st else (curr_bus, st))
      in if bus = 0 then Some (Inl (st1, c))
         else
           let c1 = c\<lparr>ch_priv := bus\<rparr>
           in Option.bind (mc_objs st1 bus) (\<lambda>b.
              let (stat, b') = get_free_dev b;
                  st2 = st1\<lparr>mc_objs := (mc_objs st1)(bus \<mapsto> b')\<rparr>
              in if 0 \<le> stat then Some (Inr (bus, st2, c1)) else connect_loop n bus st2 c1))"

definition lininoio_mcuio_connect ::
    "lininoio_channel \<Rightarrow> mcuio \<Rightarrow> (int \<times> lininoio_channel \<times> mcuio) option" where
  "lininoio_mcuio_connect c st =
     (let dev = 0xff :: u8;
          (stat, st1) = (if \<not> mc_connection st then lininoio_mcuio_init st else (0, st))
      in if stat < 0 then Some (- 1, c, st1)
         else
           let curr_bus = (if list_empty (mc_mem st1) (mc_busses st1) then 0
                           else mb_entry (list_first_entry (mc_mem st1) (mc_busses st1)))
           in Option.bind (connect_loop 2 curr_bus st1 c) (\<lambda>r.
                case r of
                  Inl (st2, c2) \<Rightarrow> Some (- 1, c2, st2)
                | Inr (bus, st2, c2) \<Rightarrow>
                    let (adata, as) = malloc (mc_allocs st2); st3 = st2\<lparr>mc_allocs := as\<rparr>
                    in if adata = 0
                       then Option.bind (put_dev st3 bus dev) (\<lambda>st4. Some (- 1, c2, st4))
                       else Some (0, c2\<lparr>ch_adata :=
                              Some \<lparr>ad_chan_dlen = lininoio_encode_cdlen 1 (ch_id c2),
                                    ad_chan_data = [dev]\<rparr>\<rparr>, st3)))"

text \<open>The packet's length word is used as it comes; \<open>len\<close> bytes after it are written.\<close>

definition lininoio_mcuio_inbound_packet ::
    "lininoio_channel \<Rightarrow> u8 list \<Rightarrow> mcuio \<Rightarrow> mcuio option" where
  "lininoio_mcuio_inbound_packet c p st =
     Option.bind (data_cdlen p) (\<lambda>cdlen.
       let len = fst (lininoio_decode_cdlen cdlen)
       in if ch_priv c = 0 then Some st
          else
            Option.bind (mc_objs st (ch_priv c)) (\<lambda>bus.
              if length (data_data p) < unat len then None
              else Some (st\<lparr>mc_writes := mc_writes st @ [(mb_fd bus, take (unat len) (data_data p))]\<rparr>)))"

definition lininoio_mcuio_disconnect :: "lininoio_channel \<Rightarrow> mcuio \<Rightarrow> mcuio option" where
  "lininoio_mcuio_disconnect c st =
     (if ch_priv c = 0 then Some st
      else
        case ch_adata c of
          None \<Rightarrow> Some st
        | Some ad \<Rightarrow>
            Option.bind (array_get (ad_chan_data ad) 0) (\<lambda>dev.
              if dev < 1 \<or> 7 < dev then Some st else put_dev st (ch_priv c) dev))"

section \<open>Device numbers\<close>

definition free_set :: "mcuio_bus \<Rightarrow> nat set" where
  "free_set b = {i. bit (mb_free_devs b) i}"

lemma free_set_bound: "i \<in> free_set b \<Longrightarrow> i < 8"
  using bit_imp_le_length[of "mb_free_devs b" i] by (simp add: free_set_def)

lemma ffs_cases:
  obtains "ffs v = 0" "\<And>i. \<not> bit v i" | i where "ffs v = of_nat (Suc i)" "bit v i" "i < 8"
proof (cases "filter (bit v) [0 ..< 8]")
  case Nil
  have "\<not> bit v i" for i
  proof
    assume b: "bit v i"
    then have "i < 8" using bit_imp_le_length[of v i] by simp
    then show False using b Nil by (auto simp: filter_empty_conv)
  qed
  then show ?thesis using Nil that(1) by (simp add: ffs_def)
next
  case (Cons i rest)
  then have "i \<in> set (filter (bit v) [0 ..< 8])" by simp
  then have "bit v i" "i < 8" by auto
  then show ?thesis using Cons that(2)[of i] by (simp add: ffs_def)
qed

lemma get_free_dev_cases:
  obtains "get_free_dev b = (- 1, b)" "free_set b = {}"
  | i b' where "get_free_dev b = (int i, b')" "i \<in> free_set b" "free_set b' = free_set b - {i}"
proof (cases "mb_free_devs b" rule: ffs_cases)
  case 1
  then show ?thesis using that(1) by (simp add: get_free_dev_def free_set_def)
next
  case (2 i)
  let ?b' = "b\<lparr>mb_free_devs := mb_free_devs b AND NOT (push_bit i 1)\<rparr>"
  have u1: "unat (of_nat (Suc i) :: u8) = Suc i"
    using 2(3) by (intro unat_of_nat_less) simp
  then have "uint (of_nat (Suc i) :: u8) = int (Suc i)"
    by (simp only: uint_nat)
  note u = u1 this
  have "(of_nat (Suc i) :: u8) \<noteq> 0"
    using u(1) by (metis Zero_not_Suc unat_0)
  then have "get_free_dev b = (int i, ?b')"
    using u 2(1) by (simp add: get_free_dev_def Let_def)
  moreover have "free_set ?b' = free_set b - {i}"
    by (auto simp: free_set_def bit_simps dest: bit_imp_le_length)
  ultimately show ?thesis
    using that(2) 2(2) by (simp add: free_set_def)
qed

lemma free_set_put: "d \<le> 7 \<Longrightarrow>
    {i. bit (x OR push_bit (unat d) 1) i} = insert (unat d) {i. bit x i}" for x d :: u8
proof -
  assume "d \<le> 7"
  then have "unat d < 8" by (simp add: word_le_nat_alt)
  then show ?thesis
    by (auto simp: bit_simps)
qed

text \<open>
  Giving a device back makes it free and keeps its bus: the test that is to free an unused bus
  comes after a bit was set, and never holds.
\<close>

lemma put_dev_gives_back:
  assumes "mc_objs st b = Some bus" "d \<le> 7"
  shows "\<exists>bus'. put_dev st b d = Some (st\<lparr>mc_objs := (mc_objs st)(b \<mapsto> bus')\<rparr>) \<and>
    free_set bus' = insert (unat d) (free_set bus) \<and> mb_fd bus' = mb_fd bus"
proof -
  let ?bus' = "bus\<lparr>mb_free_devs := mb_free_devs bus OR push_bit (unat d) 1\<rparr>"
  have fs: "free_set ?bus' = insert (unat d) (free_set bus)"
    using free_set_put[OF assms(2), of "mb_free_devs bus"] by (simp add: free_set_def)
  then have "mb_free_devs ?bus' \<noteq> 0"
    by (metis bit_0_eq bot_apply bot_bool_def empty_Collect_eq free_set_def insert_not_empty)
  moreover have "\<not> 7 < d" using assms(2) by simp
  ultimately show ?thesis
    using fs assms(1) by (intro exI[of _ ?bus']) (simp add: put_dev_def Let_def)
qed

section \<open>Properties\<close>

text \<open>One bus, at address \<open>100\<close>, of which the devices \<open>3, \<dots>, 7\<close> are free.\<close>

definition one_bus :: "u8 \<Rightarrow> mcuio" where
  "one_bus free = \<lparr>mc_mem = \<lparr>next_of = (\<lambda>_. 0)(1000 := 116, 116 := 1000), prev_of = (\<lambda>_. 0)(1000 := 116, 116 := 1000)\<rparr>,
     mc_busses = 1000, mc_objs = [100 \<mapsto> \<lparr>mb_id = 0, mb_fd = 5, mb_free_devs = free\<rparr>],
     mc_connection = True, mc_allocs = [500, 600], mc_connects = [], mc_new_busses = [Some (1, 6)], mc_writes = []\<rparr>"

definition fresh_channel :: lininoio_channel where
  "fresh_channel = \<lparr>ch_protocol = 1, ch_core_id = 0, ch_id = 2, ch_ops = 7, ch_priv = 0,
     ch_null_adata = \<lparr>ad_chan_dlen = 8192, ad_chan_data = []\<rparr>, ch_adata = None,
     ch_resources_len = 0, ch_resources = 0\<rparr>"

definition first_bus :: "mcuio \<Rightarrow> addr \<Rightarrow> mcuio_bus \<Rightarrow> bool" where
  "first_bus st b bus \<longleftrightarrow> mc_connection st \<and> b \<noteq> 0 \<and> next_of (mc_mem st) (mc_busses st) = mb_list b \<and>
     mb_list b \<noteq> mc_busses st \<and> mc_objs st b = Some bus"

lemma one_bus_first: "first_bus (one_bus free) 100 \<lparr>mb_id = 0, mb_fd = 5, mb_free_devs = free\<rparr>"
  by (simp add: first_bus_def one_bus_def mb_list_def)

text \<open>
  C38: connecting a channel takes a free device of the first bus, but the association
  data sent to the node says device \<open>255\<close> whatever was taken, because \<open>get_free_dev\<close> never
  writes the number through its pointer; so disconnecting refuses the number, and the device
  is never free again.
\<close>

theorem mcuio_connect_loses_device:
  assumes "first_bus st b bus" "free_set bus \<noteq> {}" "mc_allocs st = a # as" "a \<noteq> 0"
  shows "\<exists>i bus' c' st'. lininoio_mcuio_connect c st = Some (0, c', st') \<and>
    i \<in> free_set bus \<and> mc_objs st' = (mc_objs st)(b \<mapsto> bus') \<and> free_set bus' = free_set bus - {i} \<and>
    ch_priv c' = b \<and> map_option ad_chan_data (ch_adata c') = Some [255] \<and>
    lininoio_mcuio_disconnect c' st' = Some st'"
proof -
  have ne: "\<not> list_empty (mc_mem st) (mc_busses st)"
      "mb_entry (list_first_entry (mc_mem st) (mc_busses st)) = b" "mc_objs st b = Some bus"
      "mc_connection st" "b \<noteq> 0"
    using assms(1) by (auto simp: first_bus_def list_empty_def list_first_entry_def)
  show ?thesis
  proof (cases bus rule: get_free_dev_cases)
    case 1
    then show ?thesis using assms(2) by simp
  next
    case (2 i bus')
    define st' where "st' = st\<lparr>mc_objs := (mc_objs st)(b \<mapsto> bus'), mc_allocs := as\<rparr>"
    define c' where "c' = c\<lparr>ch_priv := b, ch_adata :=
        Some \<lparr>ad_chan_dlen = lininoio_encode_cdlen 1 (ch_id c), ad_chan_data = [0xff]\<rparr>\<rparr>"
    have "connect_loop (Suc 1) b st c =
        Some (Inr (b, st\<lparr>mc_objs := (mc_objs st)(b \<mapsto> bus')\<rparr>, c\<lparr>ch_priv := b\<rparr>))"
      using ne 2 by (simp add: Let_def)
    then have "lininoio_mcuio_connect c st = Some (0, c', st')"
      using ne assms(3,4) by (simp add: lininoio_mcuio_connect_def c'_def st'_def numeral_2_eq_2 Let_def)
    moreover have "lininoio_mcuio_disconnect c' st' = Some st'"
      by (simp add: lininoio_mcuio_disconnect_def c'_def)
    ultimately show ?thesis
      using 2 by (intro exI[of _ i] exI[of _ bus'] exI[of _ c'] exI[of _ st']) (simp add: c'_def st'_def)
  qed
qed

theorem mcuio_connect_loses_device_witness:
  "\<exists>i bus' c' st'. lininoio_mcuio_connect fresh_channel (one_bus 0xf8) = Some (0, c', st') \<and>
    i \<in> free_set \<lparr>mb_id = 0, mb_fd = 5, mb_free_devs = 0xf8\<rparr> \<and>
    mc_objs st' = (mc_objs (one_bus 0xf8))(100 \<mapsto> bus') \<and>
    free_set bus' = free_set \<lparr>mb_id = 0, mb_fd = 5, mb_free_devs = 0xf8\<rparr> - {i} \<and>
    ch_priv c' = 100 \<and> map_option ad_chan_data (ch_adata c') = Some [255] \<and>
    lininoio_mcuio_disconnect c' st' = Some st'"
proof (rule mcuio_connect_loses_device[OF one_bus_first, where a = 500 and as = "[600]"])
  have "3 \<in> free_set \<lparr>mb_id = 0, mb_fd = 5, mb_free_devs = 0xf8\<rparr>"
    by (simp add: free_set_def)
  then show "free_set \<lparr>mb_id = 0, mb_fd = 5, mb_free_devs = 0xf8\<rparr> \<noteq> {}"
    by blast
qed (simp_all add: one_bus_def)

text \<open>
  When the first bus has no free device, connecting succeeds all the same: the
  second round of the loop tries the same bus again, no bus is added, no device is taken, and
  the channel is left with the full bus and the association data of device \<open>255\<close>.
\<close>

lemma mcuio_connect_full_bus:
  assumes "first_bus st b bus" "free_set bus = {}" "mc_allocs st = a # as" "a \<noteq> 0"
  shows "\<exists>c' st'. lininoio_mcuio_connect c st = Some (0, c', st') \<and>
    mc_objs st' = mc_objs st \<and> mc_mem st' = mc_mem st \<and> mc_new_busses st' = mc_new_busses st \<and>
    ch_priv c' = b \<and> map_option ad_chan_data (ch_adata c') = Some [255]"
proof -
  have ne: "\<not> list_empty (mc_mem st) (mc_busses st)"
      "mb_entry (list_first_entry (mc_mem st) (mc_busses st)) = b" "mc_objs st b = Some bus"
      "mc_connection st" "b \<noteq> 0"
    using assms(1) by (auto simp: first_bus_def list_empty_def list_first_entry_def)
  have "get_free_dev bus = (- 1, bus)"
    by (cases bus rule: get_free_dev_cases) (use assms(2) in auto)
  moreover have "(mc_objs st)(b \<mapsto> bus) = mc_objs st" using ne(3) by auto
  ultimately have "connect_loop 2 b st c = Some (Inr (b, st, c\<lparr>ch_priv := b\<rparr>))"
    using ne by (simp add: numeral_2_eq_2 Let_def)
  then show ?thesis
    using ne assms(3,4) by (simp add: lininoio_mcuio_connect_def Let_def)
qed

lemma mcuio_connect_full_bus_witness:
  "\<exists>c' st'. lininoio_mcuio_connect fresh_channel (one_bus 0) = Some (0, c', st') \<and>
    mc_new_busses st' = [Some (1, 6)] \<and> ch_priv c' = 100"
proof -
  have "free_set \<lparr>mb_id = 0, mb_fd = 5, mb_free_devs = 0\<rparr> = {}"
    by (simp add: free_set_def)
  then show ?thesis
    using mcuio_connect_full_bus[OF one_bus_first, of 0 500 "[600]" fresh_channel]
    by (auto simp: one_bus_def)
qed

end
