(* ===== verification/Plugin.thy ===== *)
theory Plugin
  imports List_Head
begin

text \<open>
  The plugins of \<^verbatim>\<open>util/plugin.c\<close> and the loading of protocol handlers,
  \<^verbatim>\<open>util/lininoio-proto-handler.c\<close>. What the operating system and the dynamic linker answer is
  an environment; the state keeps what the code must balance, the open handles of the linker
  and the allocated structures.
\<close>

section \<open>Data\<close>

record plugin_data =
  pd_name :: string
  pd_class :: string
  pd_description :: string
  pd_private :: addr

record plugin =
  p_data :: plugin_data
  p_free_strings :: int
  p_handler :: addr

datatype file_type = DT_REG | DT_LNK | DT_OTHER

record dir_entry =
  de_name :: string
  de_type :: file_type

text \<open>
  The environment: whether \<^verbatim>\<open>getcwd\<close> fits the buffer, whether \<^verbatim>\<open>chdir\<close> succeeds, the entries of a
  directory (\<^term>\<open>None\<close> when it cannot be opened), the handle of a library (0 for none), the
  symbol \<^verbatim>\<open>mcuio_plugin_data\<close> of a handle, and the private data of a protocol handler.
\<close>

record plugin_env =
  ev_getcwd :: bool
  ev_chdir :: "string \<Rightarrow> bool"
  ev_opendir :: "string \<Rightarrow> dir_entry list option"
  ev_dlopen :: "string \<Rightarrow> addr"
  ev_dlsym :: "addr \<Rightarrow> plugin_data option"
  ev_proto_data :: "addr \<rightharpoonup> addr \<times> u16"
  ev_uninit :: addr

text \<open>
  The state: open handles, with multiplicity, allocated plugin structures, what the next
  calls of \<^verbatim>\<open>malloc\<close> return (0, or no more entries: it fails), the working directory and the
  cells of the list of \<open>find_plugins\<close>.
\<close>

record plugins =
  pl_handles :: "addr list"
  pl_objs :: "addr \<rightharpoonup> plugin"
  pl_allocs :: "addr list"
  pl_cwd :: string
  pl_mem :: list_mem

definition MAX_PLUGIN_NAME_LENGTH :: nat where "MAX_PLUGIN_NAME_LENGTH = 80"
definition MAX_PLUGIN_CLASS_NAME_LENGTH :: nat where "MAX_PLUGIN_CLASS_NAME_LENGTH = 80"
definition MAX_PLUGIN_DESCRIPTION_LENGTH :: nat where "MAX_PLUGIN_DESCRIPTION_LENGTH = 160"

definition plugin_malloc :: "plugins \<Rightarrow> addr \<times> plugins" where
  "plugin_malloc st =
     (case pl_allocs st of [] \<Rightarrow> (0, st) | a # as \<Rightarrow> (a, st\<lparr>pl_allocs := as\<rparr>))"

definition dlclose :: "plugins \<Rightarrow> addr \<Rightarrow> plugins" where
  "dlclose st h = st\<lparr>pl_handles := remove1 h (pl_handles st)\<rparr>"

definition plugin_free :: "plugins \<Rightarrow> addr \<Rightarrow> plugins" where
  "plugin_free st p = st\<lparr>pl_objs := (pl_objs st)(p := None)\<rparr>"

definition plugin_unload :: "plugins \<Rightarrow> addr \<Rightarrow> plugins option" where
  "plugin_unload st p =
     Option.bind (pl_objs st p) (\<lambda>x. Some (dlclose st (p_handler x)))"

section \<open>Walking the directory\<close>

text \<open>\<open>strncpy\<close> and \<open>strncat\<close> into \<^verbatim>\<open>path[PATH_MAX + 1]\<close>; a longer \<open>dir\<close> is not terminated.\<close>

definition plugin_path :: "string \<Rightarrow> string \<Rightarrow> string option" where
  "plugin_path dir name =
     (if PATH_MAX < length dir then None else Some (dir @ take (PATH_MAX - length dir) name))"

text \<open>The structure built for a plugin that matches the class.\<close>

definition new_plugin :: "plugin_env \<Rightarrow> plugin_data \<Rightarrow> bool \<Rightarrow> addr \<Rightarrow> plugin" where
  "new_plugin env pd do_load h =
     (if do_load then \<lparr>p_data = pd, p_free_strings = 0, p_handler = h\<rparr>
      else \<lparr>p_data = \<lparr>pd_name = take MAX_PLUGIN_NAME_LENGTH (pd_name pd),
                     pd_class = take MAX_PLUGIN_CLASS_NAME_LENGTH (pd_class pd),
                     pd_description = take MAX_PLUGIN_DESCRIPTION_LENGTH (pd_description pd),
                     pd_private = ev_uninit env\<rparr>,
            p_free_strings = 1, p_handler = 0\<rparr>)"

text \<open>A callback gets the plugin and acts on the plugins and on a state \<^typ>\<open>'w\<close> of its own.\<close>

type_synonym 'w plugin_cb = "addr \<Rightarrow> plugins \<times> 'w \<Rightarrow> (int \<times> plugins \<times> 'w) option"

fun plugin_loop ::
    "plugin_env \<Rightarrow> string \<Rightarrow> string \<Rightarrow> bool \<Rightarrow> 'w plugin_cb \<Rightarrow> dir_entry list \<Rightarrow> int \<Rightarrow> plugins \<Rightarrow> 'w \<Rightarrow>
     (int \<times> plugins \<times> 'w) option" where
  "plugin_loop env dir class do_load cb [] found st w = Some (found, st, w)"
| "plugin_loop env dir class do_load cb (de # des) found st w =
     (if de_type de \<noteq> DT_REG \<and> de_type de \<noteq> DT_LNK
      then plugin_loop env dir class do_load cb des found st w
      else
        Option.bind (plugin_path dir (de_name de)) (\<lambda>path.
        let h = ev_dlopen env path
        in if h = 0 then plugin_loop env dir class do_load cb des found st w
           else
             let st1 = st\<lparr>pl_handles := h # pl_handles st\<rparr>
             in case ev_dlsym env h of
                  None \<Rightarrow> plugin_loop env dir class do_load cb des found st1 w
                | Some pd \<Rightarrow>
                    if pd_class pd \<noteq> class
                    then plugin_loop env dir class do_load cb des found (dlclose st1 h) w
                    else
                      let (p, st2) = plugin_malloc st1
                      in if p = 0 then Some (found + 1, st2, w)
                         else
                           let st3 = st2\<lparr>pl_objs := (pl_objs st2)(p \<mapsto> new_plugin env pd do_load h)\<rparr>;
                               st4 = (if do_load then st3 else dlclose st3 h)
                           in Option.bind (cb p (st4, w)) (\<lambda>(r, st5, w').
                                if r \<noteq> 0 then Some (found + 1, st5, w')
                                else plugin_loop env dir class do_load cb des (found + 1) st5 w')))"

definition for_each_plugin ::
    "plugin_env \<Rightarrow> string \<Rightarrow> string \<Rightarrow> bool \<Rightarrow> 'w plugin_cb \<Rightarrow> plugins \<Rightarrow> 'w \<Rightarrow>
     (int \<times> plugins \<times> 'w) option" where
  "for_each_plugin env dir class do_load cb st w =
     (if \<not> ev_getcwd env then None
      else
        let cwd = pl_cwd st
        in if \<not> ev_chdir env dir then Some (- 1, st, w)
           else
             let st1 = st\<lparr>pl_cwd := dir\<rparr>
             in case ev_opendir env dir of
                  None \<Rightarrow> Some (- 1, st1, w)
                | Some des \<Rightarrow>
                    Option.bind (plugin_loop env dir class do_load cb des 0 st1 w) (\<lambda>(found, st2, w').
                      Some (found, (if ev_chdir env cwd then st2\<lparr>pl_cwd := cwd\<rparr> else st2), w')))"

section \<open>Finding plugins\<close>

definition p_list :: "addr \<Rightarrow> addr" where "p_list p = p + 56"

definition find_plugins_cb :: "addr \<Rightarrow> unit plugin_cb" where
  "find_plugins_cb l p sw =
     (let st = fst sw
      in Some (0, st\<lparr>pl_mem := list_add_tail (pl_mem st) (p_list p) l\<rparr>, ()))"

definition find_plugins ::
    "plugin_env \<Rightarrow> string \<Rightarrow> string \<Rightarrow> bool \<Rightarrow> addr \<Rightarrow> plugins \<Rightarrow> (int \<times> plugins) option" where
  "find_plugins env dir class do_load out st =
     (let st1 = st\<lparr>pl_mem := INIT_LIST_HEAD (pl_mem st) out\<rparr>
      in Option.bind (for_each_plugin env dir class do_load (find_plugins_cb out) st1 ())
           (\<lambda>(r, st2, _). Some (r, st2)))"

text \<open>
  \<open>struct find_plugin_data\<close>: \<open>has_out\<close> tells whether the caller passes a location for the
  plugin, the state of the callback is what is stored there (\<^term>\<open>None\<close>: nothing yet) and \<open>found\<close>.
\<close>

definition find_plugin_cb :: "(plugin \<Rightarrow> int option) \<Rightarrow> bool \<Rightarrow> bool \<Rightarrow> (addr option \<times> int) plugin_cb" where
  "find_plugin_cb match do_load has_out p sw =
     (let (st, out, found) = sw
      in Option.bind (pl_objs st p) (\<lambda>x.
         Option.bind (match x) (\<lambda>ret.
           Option.bind (if ret = 0 \<and> do_load
                           then Option.bind (plugin_unload st p) (\<lambda>st1. Some (plugin_free st1 p))
                           else Some st)
                (\<lambda>st2.
              let (st3, out') = (if ret \<noteq> 0
                                 then if has_out then (st2, Some p) else (plugin_free st2 p, out)
                                 else (st2, out))
              in Some (ret, st3, out', ret)))))"

definition raw_find_plugin ::
    "plugin_env \<Rightarrow> string \<Rightarrow> string \<Rightarrow> (plugin \<Rightarrow> int option) \<Rightarrow> bool \<Rightarrow> bool \<Rightarrow> plugins \<Rightarrow>
     (int \<times> addr option \<times> plugins) option" where
  "raw_find_plugin env dir class match do_load has_out st =
     (if do_load \<and> \<not> has_out then Some (- 1, None, st)
      else
        Option.bind (for_each_plugin env dir class do_load (find_plugin_cb match do_load has_out) st (None, 0))
          (\<lambda>(ret, st', out, found).
             if ret < 0 then Some (ret, out, st')
             else Some (if found \<noteq> 0 then 0 else - 1, out, st')))"



section \<open>Protocol handlers\<close>

text \<open>
  The protocol of a handler and its operations are behind its private pointer, a
  \<^verbatim>\<open>lininoio_proto_handler_plugin_data\<close>; an address with nothing behind it is undefined.
\<close>

definition lininoio_proto_match :: "plugin_env \<Rightarrow> u16 \<Rightarrow> plugin \<Rightarrow> int option" where
  "lininoio_proto_match env proto_id candidate =
     Option.bind (ev_proto_data env (pd_private (p_data candidate))) (\<lambda>(ops, hid).
       Some (if proto_id = hid then 1 else 0))"

definition load_lininoio_proto_handler ::
    "plugin_env \<Rightarrow> string \<Rightarrow> u16 \<Rightarrow> plugins \<Rightarrow> (addr option \<times> plugins) option" where
  "load_lininoio_proto_handler env path proto_id st =
     Option.bind
       (raw_find_plugin env path ''lininoio-proto-handler'' (lininoio_proto_match env proto_id) True True st)
       (\<lambda>(stat, out, st1).
          if stat < 0 then Some (None, st1)
          else
            Option.bind out (\<lambda>p.
            let (h, st2) = plugin_malloc st1
            in if h = 0
               then Option.bind (plugin_unload st2 p) (\<lambda>st3. Some (None, plugin_free st3 p))
               else
                 Option.bind (pl_objs st2 p) (\<lambda>x. Some (Some (pd_private (p_data x)), st2))))"

text \<open>
  The loader as \<open>lininoio_find_proto_ops\<close> uses it: the operations of the handler it returns.
\<close>

definition load_proto_ops ::
    "plugin_env \<Rightarrow> string \<Rightarrow> u16 \<Rightarrow> plugins \<Rightarrow> (addr option \<times> plugins) option" where
  "load_proto_ops env path proto_id st =
     Option.bind (load_lininoio_proto_handler env path proto_id st) (\<lambda>(h, st').
       case h of
         None \<Rightarrow> Some (None, st')
       | Some dat \<Rightarrow> Option.bind (ev_proto_data env dat) (\<lambda>(ops, _). Some (Some ops, st')))"

section \<open>The search\<close>







declare plugin_loop.simps(2) [simp del]








section \<open>Properties\<close>



text \<open>A directory with two plugins of a class and a library of another class.\<close>

definition demo_env :: plugin_env where
  "demo_env = \<lparr>ev_getcwd = True, ev_chdir = (\<lambda>_. True),
     ev_opendir = (\<lambda>d. Some [\<lparr>de_name = ''.'', de_type = DT_OTHER\<rparr>, \<lparr>de_name = ''a'', de_type = DT_REG\<rparr>,
       \<lparr>de_name = ''b'', de_type = DT_REG\<rparr>, \<lparr>de_name = ''c'', de_type = DT_LNK\<rparr>]),
     ev_dlopen = (\<lambda>p. if p = ''/l/a'' then 11 else if p = ''/l/b'' then 12 else if p = ''/l/c'' then 13 else 0),
     ev_dlsym = (\<lambda>h. Some \<lparr>pd_name = (if h = 11 then ''one'' else ''two''),
       pd_class = (if h = 12 then ''spi'' else ''radio''), pd_description = [], pd_private = h\<rparr>),
     ev_proto_data = Map.empty, ev_uninit = 99\<rparr>"

definition demo_plugins :: plugins where
  "demo_plugins = \<lparr>pl_handles = [], pl_objs = Map.empty, pl_allocs = [100, 200], pl_cwd = ''/'',
     pl_mem = \<lparr>next_of = (\<lambda>_. 0), prev_of = (\<lambda>_. 0)\<rparr>\<rparr>"



text \<open>
  A library without the symbol is skipped without being closed: after walking a
  directory that holds only such libraries, every one of them is still open.
\<close>

lemma for_each_plugin_leaks_handles:
  assumes "ev_getcwd env" "ev_chdir env dir" "ev_opendir env dir = Some des" "length dir \<le> PATH_MAX"
    and "\<forall>de \<in> set des. de_type de = DT_REG \<and> ev_dlopen env (the (plugin_path dir (de_name de))) \<noteq> 0 \<and>
      ev_dlsym env (ev_dlopen env (the (plugin_path dir (de_name de)))) = None"
  shows "\<exists>st'. for_each_plugin env dir class do_load cb st w = Some (0, st', w) \<and>
    length (pl_handles st') = length (pl_handles st) + length des"
proof -
  have "\<exists>st'. plugin_loop env dir class do_load cb ds n st w = Some (n, st', w) \<and>
      length (pl_handles st') = length (pl_handles st) + length ds" if "set ds \<subseteq> set des" for ds n st
    using that
  proof (induction ds arbitrary: st)
    case (Cons de ds)
    have "plugin_loop env dir class do_load cb (de # ds) n st w = plugin_loop env dir class do_load cb ds n
        (st\<lparr>pl_handles := ev_dlopen env (the (plugin_path dir (de_name de))) # pl_handles st\<rparr>) w"
      using Cons.prems assms(4,5) by (subst plugin_loop.simps) (auto simp: plugin_path_def)
    then show ?case using Cons by fastforce
  qed simp
  from this[of des 0 "st\<lparr>pl_cwd := dir\<rparr>"] show ?thesis
    using assms(1-3) by (auto simp: for_each_plugin_def Let_def)
qed

lemma for_each_plugin_leaks_handles_witness:
  "\<exists>st'. for_each_plugin (demo_env\<lparr>ev_dlsym := (\<lambda>_. None), ev_opendir := (\<lambda>_. Some [\<lparr>de_name = ''a'', de_type = DT_REG\<rparr>])\<rparr>)
      ''/l/'' ''radio'' True (\<lambda>p (st, w). Some (0, st, w)) demo_plugins () = Some (0, st', ()) \<and>
    length (pl_handles st') = 1"
  using for_each_plugin_leaks_handles[of "demo_env\<lparr>ev_dlsym := (\<lambda>_. None),
      ev_opendir := (\<lambda>_. Some [\<lparr>de_name = ''a'', de_type = DT_REG\<rparr>])\<rparr>" "''/l/''"
      "[\<lparr>de_name = ''a'', de_type = DT_REG\<rparr>]" "''radio''" True "\<lambda>p (st, w). Some (0, st, w)" demo_plugins "()"]
  by (simp add: demo_env_def demo_plugins_def PATH_MAX_def plugin_path_def)

end
