(* ===== verification/Etherd.thy ===== *)
theory Etherd
  imports Console Mcuio Plugin
begin

text \<open>
  The daemon, \<^verbatim>\<open>etherd/main.c\<close>: its options, its initialisation and the rounds of its main loop,
  which dispatch descriptors, devices and timeouts to the Ethernet transport; the states it
  reaches, and the contract under which a predicate holds in all of them.
\<close>

section \<open>Options\<close>

text \<open>
  \<open>getopt_long\<close> is an input: the values it returns, each with its argument, and whether
  arguments remain (the first of them is the interface). A short option is the code of its
  letter, a long one its index. \<^term>\<open>Inl\<close> is the status the process exits with.
\<close>

record options =
  opt_verbose :: bool
  opt_dont_daemonize :: bool
  opt_pid_file_path :: string
  opt_log_to_stderr :: bool

definition default_options :: options where
  "default_options = \<lparr>opt_verbose = False, opt_dont_daemonize = False,
     opt_pid_file_path = ''/var/run/etherd.pid'', opt_log_to_stderr = False\<rparr>"

fun parse_options :: "(int \<times> string) list \<Rightarrow> options \<Rightarrow> int + options" where
  "parse_options [] o1 = Inr o1"
| "parse_options ((opt, optarg) # rest) o1 =
     (if opt = 0 \<or> opt = 104 then Inl 0
      else if opt = 1 \<or> opt = 118 then parse_options rest (o1\<lparr>opt_verbose := True\<rparr>)
      else if opt = 2 \<or> opt = 68 then parse_options rest (o1\<lparr>opt_dont_daemonize := True\<rparr>)
      else if opt = 3 \<or> opt = 112 then parse_options rest (o1\<lparr>opt_pid_file_path := optarg\<rparr>)
      else if opt = 4 \<or> opt = 69 then parse_options rest (o1\<lparr>opt_log_to_stderr := True\<rparr>)
      else parse_options rest o1)"

definition parse_cmdline :: "(int \<times> string) list \<Rightarrow> string list \<Rightarrow> int + options \<times> string" where
  "parse_cmdline opts args =
     (case parse_options opts default_options of
        Inl e \<Rightarrow> Inl e
      | Inr o1 \<Rightarrow> (case args of [] \<Rightarrow> Inl 127 | netif # _ \<Rightarrow> Inr (o1, netif)))"

section \<open>State\<close>

text \<open>
  The state: the static receive buffer, the transport with its timeouts and events, the state
  of the protocol handlers, and what the next calls of \<^verbatim>\<open>recvfrom\<close> and
  \<^verbatim>\<open>udev_monitor_receive_device\<close> give (nothing when the list ends).
\<close>

record 'w daemon =
  d_buf :: "u8 list"
  d_ether :: ether
  d_w :: 'w
  d_recv :: "(sockaddr_ll \<times> u8 list) option list"
  d_devs :: "udev_device option list"

definition next_input :: "'a option list \<Rightarrow> 'a option \<times> 'a option list" where
  "next_input xs = (case xs of [] \<Rightarrow> (None, []) | x # ys \<Rightarrow> (x, ys))"

section \<open>Callbacks\<close>

text \<open>
  The callbacks behind the addresses. Each list of events is handed from the dispatcher to
  the transport and back, since the callbacks add events and timeouts of their own. Any other
  address is undefined.
\<close>

definition device_cb :: "'w ether_env \<Rightarrow> ether udev_cb" where
  "device_cb env cb dev data sw =
     (let (ue, st) = sw
      in if cb = ee_backend_add env
         then Option.bind (virtio_backend_add env dev (ud_syspath dev) data (st\<lparr>e_udev := ue\<rparr>))
                (\<lambda>st'. Some (e_udev st', st'))
         else None)"

definition on_device :: "'w ether_env \<Rightarrow> udev_device option \<Rightarrow> ether \<Rightarrow> ether option" where
  "on_device env dev st =
     Option.bind (do_udev_event (device_cb env) dev (e_udev st) st) (\<lambda>(ue, st', _).
       Some (st'\<lparr>e_udev := ue\<rparr>))"

definition on_fd :: "'w ether_env \<Rightarrow> addr \<Rightarrow> addr \<Rightarrow> 'w daemon \<Rightarrow> 'w daemon option" where
  "on_fd env cb data d =
     (if cb = ee_rx_cb env then
        let (r, rs) = next_input (d_recv d)
        in Option.bind (ether_rx env r (d_buf d) (d_ether d) (d_w d)) (\<lambda>(buf, st, w).
             Some (d\<lparr>d_buf := buf, d_ether := st, d_w := w, d_recv := rs\<rparr>))
      else if cb = ee_udev_cb env then
        let (dev, ds) = next_input (d_devs d)
        in Option.bind (on_device env dev (d_ether d)) (\<lambda>st. Some (d\<lparr>d_ether := st, d_devs := ds\<rparr>))
      else if cb = ee_start_cb env then
        Option.bind (start_cb data (d_ether d)) (\<lambda>st. Some (d\<lparr>d_ether := st\<rparr>))
      else if cb = ee_stop_cb env then
        Option.bind (stop_cb data (d_ether d)) (\<lambda>st. Some (d\<lparr>d_ether := st\<rparr>))
      else if cb = ee_backend_readable env then
        Option.bind (virtio_backend_readable env data (d_ether d)) (\<lambda>_. Some d)
      else None)"

definition fd_event_cb :: "'w ether_env \<Rightarrow> 'w daemon fd_cb" where
  "fd_event_cb env cb data sw =
     (let (fes, d) = sw
      in Option.bind (on_fd env cb data (d\<lparr>d_ether := (d_ether d)\<lparr>e_fds := fes\<rparr>\<rparr>)) (\<lambda>d'.
           Some (e_fds (d_ether d'), d')))"

definition timeout_cb :: "'w ether_env \<Rightarrow> 'w daemon to_handler" where
  "timeout_cb env h to prv sw =
     (let (tos, d) = sw
      in if h = ee_kill_node env
         then Option.bind (kill_node env prv ((d_ether d)\<lparr>e_timeouts := tos\<rparr>) (d_w d)) (\<lambda>(st, w).
                Some (e_timeouts st, d\<lparr>d_ether := st, d_w := w\<rparr>))
         else None)"

section \<open>The main loop\<close>

text \<open>
  A round: \<^verbatim>\<open>select\<close> is called with the descriptors of the read events and the first timeout;
  \<open>sel\<close> is what it returns (\<^term>\<open>None\<close> an error, otherwise the descriptors that are ready, none
  when the time is up) and \<open>left\<close> the time it writes back.
\<close>

definition main_round :: "'w ether_env \<Rightarrow> int set option \<Rightarrow> timeval \<Rightarrow> 'w daemon \<Rightarrow> 'w daemon option" where
  "main_round env sel left d =
     Option.bind (prepare_fd_events (e_fds (d_ether d)) (Some {}) None None) (\<lambda>_.
     Option.bind (select_writes (e_timeouts (d_ether d)) left) (\<lambda>tos.
     let d1 = d\<lparr>d_ether := (d_ether d)\<lparr>e_timeouts := tos\<rparr>\<rparr>
     in case sel of
          None \<Rightarrow> Some d1
        | Some fds \<Rightarrow>
            if fds = {}
            then Option.bind (handle_timeouts (timeout_cb env) (e_timeouts (d_ether d1)) d1) (\<lambda>(tos', d2).
                   Some (d2\<lparr>d_ether := (d_ether d2)\<lparr>e_timeouts := tos'\<rparr>\<rparr>))
            else Option.bind (handle_fd_events (fd_event_cb env) (Some fds) None None (e_fds (d_ether d1)) d1)
                   (\<lambda>(fes, d2). Some (d2\<lparr>d_ether := (d_ether d2)\<lparr>e_fds := fes\<rparr>\<rparr>))))"

text \<open>
  The initialisation: \<^term>\<open>Inl\<close> is the status the process exits with, \<^term>\<open>Inr\<close> the daemon as it
  enters its loop. The results of \<^verbatim>\<open>udev_new\<close>, the monitor with its descriptor, and of the
  allocation of the table of the handlers are inputs. What \<open>lininoio_ether_init\<close> returns is not
  looked at.
\<close>

definition etherd_init ::
    "'w ether_env \<Rightarrow> string \<Rightarrow> bool \<Rightarrow> int \<Rightarrow> addr \<Rightarrow> bool \<Rightarrow> ether \<Rightarrow> 'w \<Rightarrow> int + 'w daemon" where
  "etherd_init env netif udev udev_fd mon table st w =
     (let (r1, fes) = fd_events_init (e_fds st)
      in if r1 < 0 then Inl 129
         else
           let (r2, tos) = timeouts_init (e_timeouts st)
           in if r2 < 0 then Inl 129
              else
                let (a, st1) = e_malloc st;
                    (r3, ue, fes') = udev_events_init (e_udev st1) fes udev udev_fd (ee_udev_cb env) mon a
                in if r3 < 0 then Inl 131
                   else
                     let (r4, ops) = lininoio_init table
                     in if r4 < 0 then Inl 130
                        else
                          let st2 = snd (lininoio_ether_init env netif
                                (st1\<lparr>e_fds := fes', e_timeouts := tos, e_udev := ue, e_ops := ops\<rparr>))
                          in Inr \<lparr>d_buf = replicate 1024 0, d_ether = st2, d_w = w, d_recv = [], d_devs = []\<rparr>)"

text \<open>The states the daemon reaches from \<open>d0\<close>, round by round, with any input.\<close>

inductive etherd_reach :: "'w ether_env \<Rightarrow> 'w daemon \<Rightarrow> 'w daemon \<Rightarrow> bool" for env d0 where
  start: "etherd_reach env d0 d0"
| round: "etherd_reach env d0 d \<Longrightarrow> main_round env sel left (d\<lparr>d_recv := rs, d_devs := ds\<rparr>) = Some d' \<Longrightarrow>
    etherd_reach env d0 d'"

section \<open>What does not touch the nodes\<close>

lemma empty_updates [simp]:
  "chans_empty (st\<lparr>e_fds := a\<rparr>) = chans_empty st" "chans_empty (st\<lparr>e_timeouts := b\<rparr>) = chans_empty st"
  "chans_empty (st\<lparr>e_udev := c\<rparr>) = chans_empty st"
  by (simp_all add: chans_empty_def)

lemma view_match_backend: "match_backend v st = Some st' \<Longrightarrow> nodes_view st' = nodes_view st"
  by (auto simp: match_backend_def bind_eq_Some_conv Let_def)

lemma view_backend_add: "virtio_backend_add env dev p c st = Some st' \<Longrightarrow> nodes_view st' = nodes_view st"
  unfolding virtio_backend_add_def
  by (auto simp: bind_eq_Some_conv Let_def case_prod_unfold split: if_splits option.splits
      dest!: view_match_backend)

section \<open>Invariants of the main loop\<close>

text \<open>A round dispatches nothing, the timeouts or the descriptors that are ready.\<close>

lemma main_round_cases:
  fixes d d' :: "'w daemon"
  assumes "main_round env sel left d = Some d'"
  obtains (none) tos where "d' = d\<lparr>d_ether := (d_ether d)\<lparr>e_timeouts := tos\<rparr>\<rparr>"
  | (timeouts) tos tos' d2 where
      "handle_timeouts (timeout_cb env) tos (d\<lparr>d_ether := (d_ether d)\<lparr>e_timeouts := tos\<rparr>\<rparr>) = Some (tos', d2)"
      "d' = d2\<lparr>d_ether := (d_ether d2)\<lparr>e_timeouts := tos'\<rparr>\<rparr>"
  | (fds) tos fds fes d2 where
      "handle_fd_events (fd_event_cb env) (Some fds) None None (e_fds (d_ether d))
         (d\<lparr>d_ether := (d_ether d)\<lparr>e_timeouts := tos\<rparr>\<rparr>) = Some (fes, d2)"
      "d' = d2\<lparr>d_ether := (d_ether d2)\<lparr>e_fds := fes\<rparr>\<rparr>"
proof -
  obtain tos where tos: "select_writes (e_timeouts (d_ether d)) left = Some tos"
    using assms by (auto simp: main_round_def bind_eq_Some_conv)
  obtain x where x: "prepare_fd_events (e_fds (d_ether d)) (Some {}) None None = Some x"
    using assms by (auto simp: main_round_def bind_eq_Some_conv)
  show thesis
  proof (cases sel)
    case None
    then show thesis using assms tos x none[of tos] by (simp add: main_round_def Let_def)
  next
    case sel: (Some s)
    show thesis
    proof (cases "s = {}")
      case True
      then obtain r where r: "handle_timeouts (timeout_cb env) tos
          (d\<lparr>d_ether := (d_ether d)\<lparr>e_timeouts := tos\<rparr>\<rparr>) = Some r"
          "d' = (snd r)\<lparr>d_ether := (d_ether (snd r))\<lparr>e_timeouts := fst r\<rparr>\<rparr>"
        using assms tos x sel by (auto simp: main_round_def Let_def bind_eq_Some_conv)
      then show thesis using timeouts[of tos "fst r" "snd r"] by simp
    next
      case False
      then obtain r where r: "handle_fd_events (fd_event_cb env) (Some s) None None (e_fds (d_ether d))
          (d\<lparr>d_ether := (d_ether d)\<lparr>e_timeouts := tos\<rparr>\<rparr>) = Some r"
          "d' = (snd r)\<lparr>d_ether := (d_ether (snd r))\<lparr>e_fds := fst r\<rparr>\<rparr>"
        using assms tos x sel by (auto simp: main_round_def Let_def bind_eq_Some_conv)
      then show thesis using fds[of s tos "fst r" "snd r"] by simp
    qed
  qed
qed

text \<open>
  The contract between the transport and the daemon's loop: a predicate on the transport and the
  protocol handlers that a packet, a new device, a dying node and a system call keep, and that
  the lists of timeouts and of device callbacks do not matter for. The dispatchers keep it,
  hence every round and every state reached.
\<close>

locale transport_invariant =
  fixes env :: "'w ether_env" and P :: "ether \<Rightarrow> 'w \<Rightarrow> bool"
  assumes rx_keeps: "ether_rx env r buf st w = Some (buf', st', w') \<Longrightarrow> P st w \<Longrightarrow> P st' w'"
    and kill_keeps: "kill_node env n st w = Some (st', w') \<Longrightarrow> P st w \<Longrightarrow> P st' w'"
    and backend_keeps: "virtio_backend_add env dev path c st = Some st' \<Longrightarrow> P st w \<Longrightarrow> P st' w"
    and syscall_keeps: "P st w \<Longrightarrow> P (snd (syscall os st)) w"
    and free_of_timeouts: "P (st\<lparr>e_timeouts := tos\<rparr>) w = P st w"
    and free_of_udev: "P (st\<lparr>e_udev := ue\<rparr>) w = P st w"
begin

sublocale devs: udev_dispatch "device_cb env" "\<lambda>sw. P (snd sw) w" for w
  by unfold_locales (auto simp: device_cb_def bind_eq_Some_conv free_of_udev split: if_splits dest!: backend_keeps)

lemma on_device_keeps: "on_device env dev st = Some st' \<Longrightarrow> P st w \<Longrightarrow> P st' w"
  by (auto simp: on_device_def bind_eq_Some_conv free_of_udev dest!: devs.do_udev_event_keeps)

lemma on_fd_keeps: "on_fd env cb data d = Some d' \<Longrightarrow> P (d_ether d) (d_w d) \<Longrightarrow> P (d_ether d') (d_w d')"
  by (auto simp: on_fd_def bind_eq_Some_conv start_cb_def stop_cb_def split: if_splits prod.splits
      intro: rx_keeps on_device_keeps syscall_keeps)

sublocale tos: timeout_dispatch "timeout_cb env" "\<lambda>d. P (d_ether d) (d_w d)"
  by unfold_locales (auto simp: timeout_cb_def bind_eq_Some_conv free_of_timeouts split: if_splits dest!: kill_keeps)

sublocale fds: fd_dispatch "fd_event_cb env" "\<lambda>sw. P ((d_ether (snd sw))\<lparr>e_fds := fst sw\<rparr>) (d_w (snd sw))"
  by unfold_locales (auto simp: fd_event_cb_def bind_eq_Some_conv dest!: on_fd_keeps)

lemma round_keeps:
  fixes d d' :: "'w daemon"
  assumes "main_round env sel left d = Some d'" "P (d_ether d) (d_w d)"
  shows "P (d_ether d') (d_w d')"
  using assms(1)
proof (cases rule: main_round_cases)
  case none
  then show ?thesis using assms(2) free_of_timeouts by simp
next
  case (timeouts tos tos' d2)
  then have "P (d_ether d2) (d_w d2)"
    using tos.handle_timeouts_keeps[OF timeouts(1)] assms(2) by (simp add: free_of_timeouts)
  then show ?thesis using timeouts(2) by (simp add: free_of_timeouts)
next
  case (fds tos fs fes d2)
  then show ?thesis
    using fds.handle_fd_events_keeps[OF fds(1)] assms(2) free_of_timeouts by simp
qed

lemma reach_keeps: "etherd_reach env d0 d \<Longrightarrow> P (d_ether d0) (d_w d0) \<Longrightarrow> P (d_ether d) (d_w d)"
  by (induction rule: etherd_reach.induct) (auto dest: round_keeps)

end

text \<open>The tables of channels stay empty.\<close>

interpretation silent: transport_invariant env "\<lambda>st _. chans_empty st" for env :: "'w ether_env"
  by unfold_locales (auto intro: chans_empty_rx chans_empty_kill_node chans_empty_view
      dest: view_backend_add)

end
