(* ===== verification/R2proc_Test.thy ===== *)
theory R2proc_Test
  imports Ether_Association Etherd Virtio_Ring
begin

text \<open>
  The test program \<^verbatim>\<open>test/simple_r2proc_test.c\<close>: it gives the kernel one remote processor with a
  firmware of its own and then runs the event loop of the daemon. It is a second client of the
  event sources, and its firmware is a table the compiler lays out where the daemon writes its
  tables field by field.
\<close>

section \<open>State\<close>

text \<open>What the callbacks of the two events of the processor are given.\<close>

record cb_data =
  cbd_pd :: addr
  cbd_fd :: int

record test_backend =
  tb_devname :: string
  tb_fd :: int
  tb_evt :: addr
  tb_vring_ptr :: u64
  tb_phy_offset :: u64

text \<open>The calls to the system, in order; the last is the pointer that is printed.\<close>

datatype test_call =
    T_open string
  | T_eventfd
  | T_fopen string
  | T_fwrite int "u8 list"
  | T_fclose int
  | T_read int
  | T_poll int
  | T_mmap int int
  | T_close int
  | T_free addr
  | T_add_proc int r2p_processor_data
  | T_remove_proc int string
  | T_print_ptr u64

record r2p_test =
  t_fds :: fd_events
  t_timeouts :: timeouts
  t_udev :: udev_events
  t_pds :: "addr \<rightharpoonup> r2p_processor_data"
  t_cbds :: "addr \<rightharpoonup> cb_data"
  t_vbes :: "addr \<rightharpoonup> test_backend"
  t_r2proc_fd :: int
  t_allocs :: "addr list"
  t_sys :: "int list"
  t_devs :: "udev_device option list"
  t_log :: "test_call list"

text \<open>
  The attribute of a device, the addresses of the callbacks, the constants of the kernel, the
  contents of a fresh block, the size of a name, and the descriptor found at an address of a
  mapped ring.
\<close>

record test_env =
  te_phy_offset :: "udev_device \<Rightarrow> string option"
  te_udev_cb :: addr
  te_start_cb :: addr
  te_stop_cb :: addr
  te_readable :: addr
  te_backend_add :: addr
  te_abi :: remoteproc_abi
  te_magic :: u32
  te_fw_simple :: u32
  te_uninit_pd :: r2p_processor_data
  te_name_len :: nat
  te_ring :: "u64 \<Rightarrow> vring_desc"

definition t_malloc :: "r2p_test \<Rightarrow> addr \<times> r2p_test" where
  "t_malloc st = (let (a, as) = malloc (t_allocs st) in (a, st\<lparr>t_allocs := as\<rparr>))"

definition t_call :: "test_call \<Rightarrow> r2p_test \<Rightarrow> int \<times> r2p_test" where
  "t_call c st =
     (case t_sys st of
        [] \<Rightarrow> (- 1, st\<lparr>t_log := t_log st @ [c]\<rparr>)
      | r # rs \<Rightarrow> (r, st\<lparr>t_sys := rs, t_log := t_log st @ [c]\<rparr>))"

definition t_call0 :: "test_call \<Rightarrow> r2p_test \<Rightarrow> r2p_test" where
  "t_call0 c st = st\<lparr>t_log := t_log st @ [c]\<rparr>"

section \<open>The firmware\<close>

text \<open>
  The static table. The size of its body is that of its members, rounded up to the alignment of
  \<^verbatim>\<open>uint32_t\<close>; the members without an initialiser, and the padding, are zero.
\<close>

definition test_resources :: "remoteproc_abi \<Rightarrow> console_channel_resources" where
  "test_resources abi =
     \<lparr>ccr_type = 3, ccr_id = ab_rproc_serial abi, ccr_dfeatures = 0, ccr_config_len = 16,
      ccr_num_of_vrings = 2, ccr_align1 = 16, ccr_num1 = 4, ccr_align2 = 16, ccr_num2 = 4\<rparr>"

definition my_table_body_size :: "remoteproc_abi \<Rightarrow> nat" where
  "my_table_body_size abi = (16 + 4 + ab_sizeof abi + 3) div 4 * 4"

definition my_table :: "remoteproc_abi \<Rightarrow> u32 \<Rightarrow> u8 list" where
  "my_table abi magic =
     (let ver = 1; num = 1; offset0 = 16 + 4;
          body = le32 ver @ le32 num @ le32 0 @ le32 0 @ le32 offset0 @ ab_bytes abi (test_resources abi);
          padding = replicate (my_table_body_size abi - length body) 0
      in le32 magic @ le32 (of_nat (my_table_body_size abi)) @ body @ padding)"

text \<open>
  \<^verbatim>\<open>fopen\<close> answers 0 for a null pointer. What \<^verbatim>\<open>fwrite\<close> returns has no sign, so that the test for
  an error never holds.
\<close>

definition setup_fw :: "test_env \<Rightarrow> r2p_test \<Rightarrow> int \<times> r2p_test" where
  "setup_fw env st =
     (let (f, st1) = t_call (T_fopen ''/lib/firmware/r2p-test-fw'') st
      in if f = 0 then (- 1, st1)
         else
           let (_, st2) = t_call (T_fwrite f (my_table (te_abi env) (te_magic env))) st1
           in t_call (T_fclose f) st2)"

section \<open>Callbacks\<close>

definition test_start_cb :: "addr \<Rightarrow> r2p_test \<Rightarrow> r2p_test option" where
  "test_start_cb data st =
     Option.bind (t_cbds st data) (\<lambda>cbd. Some (snd (t_call (T_read (cbd_fd cbd)) st)))"

definition test_stop_cb :: "addr \<Rightarrow> r2p_test \<Rightarrow> r2p_test option" where
  "test_stop_cb data st =
     Option.bind (t_cbds st data) (\<lambda>cbd. Some (snd (t_call (T_read (cbd_fd cbd)) st)))"

text \<open>The block is allocated before the parameters are looked at, and written without a check.\<close>

definition test_assign_fd_evt :: "int \<Rightarrow> addr \<Rightarrow> addr \<Rightarrow> r2p_test \<Rightarrow> (int \<times> r2p_test) option" where
  "test_assign_fd_evt fd cb pd st =
     (let (cbd, st1) = t_malloc st
      in if fd < 0 \<or> cb = 0 \<or> pd = 0 then Some (- 1, st1)
         else if cbd = 0 then None
         else
           let st2 = st1\<lparr>t_cbds := (t_cbds st1)(cbd \<mapsto> \<lparr>cbd_pd = pd, cbd_fd = fd\<rparr>)\<rparr>;
               (a, st3) = t_malloc st2;
               (e, fds) = add_fd_event (t_fds st3) fd EVT_FD_RD cb cbd a
           in Some (if e \<noteq> 0 then fd else - 1, st3\<lparr>t_fds := fds\<rparr>))"

text \<open>Reading the ring behind a mapping that failed is undefined.\<close>

definition test_backend_readable :: "test_env \<Rightarrow> addr \<Rightarrow> r2p_test \<Rightarrow> r2p_test option" where
  "test_backend_readable env data st =
     Option.bind (t_vbes st data) (\<lambda>vbe.
       if tb_vring_ptr vbe = - 1 then None
       else
         let desc = te_ring env (tb_vring_ptr vbe);
             offset = d_addr desc - tb_phy_offset vbe;
             ptr = tb_vring_ptr vbe + offset
         in Some (t_call0 (T_print_ptr ptr) st))"

definition test_backend_add :: "test_env \<Rightarrow> udev_device \<Rightarrow> string \<Rightarrow> r2p_test \<Rightarrow> r2p_test option" where
  "test_backend_add env dev path st =
     (let (vbe, st1) = t_malloc st
      in if vbe = 0 then Some st1
         else
           case te_phy_offset env dev of
             None \<Rightarrow> Some st1
           | Some offs \<Rightarrow>
               Option.bind (path_basename path) (\<lambda>basename.
               let devname = take (PATH_MAX - 2) (''/dev/'' @ basename);
                   (fd, st2) = t_call (T_open devname) (t_call0 (T_poll 10) st1)
               in if fd < 0 then Some st2
                  else
                    let (a, st3) = t_malloc st2;
                        (evt, fds) = add_fd_event (t_fds st3) fd EVT_FD_RD (te_readable env) vbe a;
                        st4 = st3\<lparr>t_fds := fds\<rparr>
                    in if evt = 0 then Some (t_call0 (T_free vbe) (t_call0 (T_close fd) st4))
                       else
                         let (ptr, st5) = t_call (T_mmap fd (1024 * 1024)) st4
                         in Some (st5\<lparr>t_vbes := (t_vbes st5)(vbe \<mapsto>
                              \<lparr>tb_devname = devname, tb_fd = fd, tb_evt = evt, tb_vring_ptr = of_int ptr,
                               tb_phy_offset = of_nat (strtoul16 offs)\<rparr>)\<rparr>)))"

text \<open>The handler of the interrupt: the processor is removed and the program exits.\<close>

definition sigint_handler :: "test_env \<Rightarrow> r2p_test \<Rightarrow> int \<times> r2p_test" where
  "sigint_handler env st =
     (let n = strncpy_to (replicate (te_name_len env) (CHR 0x00)) ''test'' (te_name_len env)
      in (0, snd (t_call (T_remove_proc (t_r2proc_fd st) n) st)))"

lemma sigint_removes_added:
  assumes "length (r2p_name (te_uninit_pd env)) = te_name_len env"
  shows "fst (sigint_handler env st) = 0 \<and>
    t_log (snd (sigint_handler env st)) = t_log st @
      [T_remove_proc (t_r2proc_fd st) (strncpy_to (r2p_name (te_uninit_pd env)) ''test'' (te_name_len env))]"
  using assms by (simp add: sigint_handler_def strncpy_to_def t_call_def Let_def split: list.split)

section \<open>The program\<close>

text \<open>
  \<^term>\<open>Inl\<close> is the status the program exits with and the state it leaves, \<^term>\<open>Inr\<close> the state in
  which it enters its loop. The result of \<open>udev_new\<close>, the descriptor of the monitor and the
  monitor are inputs; the block allocated first is the logger's, and is not needed.
\<close>

definition test_fill_pd :: "test_env \<Rightarrow> r2p_processor_data" where
  "test_fill_pd env =
     (let u = te_uninit_pd env
      in u\<lparr>r2p_fw_type := te_fw_simple env,
           r2p_fw_name := strncpy_to (r2p_fw_name u) ''r2p-test-fw'' (length (r2p_fw_name u)),
           r2p_name := strncpy_to (r2p_name u) ''test'' (length (r2p_name u))\<rparr>)"

definition test_main ::
    "test_env \<Rightarrow> bool \<Rightarrow> int \<Rightarrow> addr \<Rightarrow> r2p_test \<Rightarrow> ((int \<times> r2p_test) + r2p_test) option" where
  "test_main env udev udev_fd mon st =
     (let (fd, st1) = t_call (T_open R2PROC_MISC_DEV) st
      in if fd < 0 then Some (Inl (127, st1))
         else
           let st2 = snd (t_malloc (st1\<lparr>t_r2proc_fd := fd\<rparr>));
               (r1, fes) = fd_events_init (t_fds st2)
           in if r1 < 0 then Some (Inl (127, st2))
              else
                let (r2, tos) = timeouts_init (t_timeouts st2)
                in if r2 < 0 then Some (Inl (127, st2))
                   else
                     let (a, st3) = (if udev then t_malloc st2 else (0, st2));
                         (r3, ue, fes') = udev_events_init (t_udev st3) fes udev udev_fd (te_udev_cb env) mon a;
                         st4 = st3\<lparr>t_fds := fes', t_timeouts := tos, t_udev := ue\<rparr>
                     in if r3 < 0 then Some (Inl (127, st4))
                        else
                          let (pd, st5) = t_malloc st4
                          in if pd = 0 then Some (Inl (127, st5))
                             else
                               let (efd1, st6) = t_call T_eventfd st5
                               in Option.bind (test_assign_fd_evt efd1 (te_start_cb env) pd st6) (\<lambda>(s1, st7).
                                  let (efd2, st8) = t_call T_eventfd st7
                                  in Option.bind (test_assign_fd_evt efd2 (te_stop_cb env) pd st8) (\<lambda>(s2, st9).
                                  let p = (test_fill_pd env)\<lparr>r2p_start_fd := s1, r2p_stop_fd := s2,
                                             r2p_reserved_memsize := 1024 * 1024\<rparr>;
                                      st10 = st9\<lparr>t_pds := (t_pds st9)(pd \<mapsto> p)\<rparr>;
                                      (r4, st11) = setup_fw env st10
                                  in if r4 < 0 then Some (Inl (127, st11))
                                     else
                                       let (e, st12) = t_malloc st11;
                                           (r5, ue') = schedule_udev_event (t_udev st12) udev_new_virtio_backend
                                             (te_backend_add env) 0 e;
                                           st13 = st12\<lparr>t_udev := ue'\<rparr>
                                       in if r5 < 0 then Some (Inl (127, st13))
                                          else
                                            let (r6, st14) = t_call (T_add_proc fd p) st13
                                            in if r6 < 0 then Some (Inl (127, st14)) else Some (Inr st14))))"

text \<open>The callbacks behind the addresses, and a round of the loop. No timeout is ever scheduled.\<close>

definition test_device_cb :: "test_env \<Rightarrow> r2p_test udev_cb" where
  "test_device_cb env cb dev data sw =
     (let (ue, st) = sw
      in if cb = te_backend_add env
         then Option.bind (test_backend_add env dev (ud_syspath dev) (st\<lparr>t_udev := ue\<rparr>))
                (\<lambda>st'. Some (t_udev st', st'))
         else None)"

definition test_on_device :: "test_env \<Rightarrow> udev_device option \<Rightarrow> r2p_test \<Rightarrow> r2p_test option" where
  "test_on_device env dev st =
     Option.bind (do_udev_event (test_device_cb env) dev (t_udev st) st) (\<lambda>(ue, st', _).
       Some (st'\<lparr>t_udev := ue\<rparr>))"

definition test_on_fd :: "test_env \<Rightarrow> addr \<Rightarrow> addr \<Rightarrow> r2p_test \<Rightarrow> r2p_test option" where
  "test_on_fd env cb data st =
     (if cb = te_udev_cb env then
        let (dev, ds) = next_input (t_devs st)
        in Option.bind (test_on_device env dev st) (\<lambda>st'. Some (st'\<lparr>t_devs := ds\<rparr>))
      else if cb = te_start_cb env then test_start_cb data st
      else if cb = te_stop_cb env then test_stop_cb data st
      else if cb = te_readable env then test_backend_readable env data st
      else None)"

definition test_fd_cb :: "test_env \<Rightarrow> r2p_test fd_cb" where
  "test_fd_cb env cb data sw =
     (let (fes, st) = sw
      in Option.bind (test_on_fd env cb data (st\<lparr>t_fds := fes\<rparr>)) (\<lambda>st'. Some (t_fds st', st')))"

definition test_round :: "test_env \<Rightarrow> int set option \<Rightarrow> timeval \<Rightarrow> r2p_test \<Rightarrow> r2p_test option" where
  "test_round env sel left st =
     Option.bind (prepare_fd_events (t_fds st) (Some {}) None None) (\<lambda>_.
     Option.bind (select_writes (t_timeouts st) left) (\<lambda>tos.
     let st1 = st\<lparr>t_timeouts := tos\<rparr>
     in case sel of
          None \<Rightarrow> Some st1
        | Some fds \<Rightarrow>
            if fds = {}
            then Option.bind (handle_timeouts (\<lambda>_ _ _ _. None) (t_timeouts st1) st1) (\<lambda>(tos', st2).
                   Some (st2\<lparr>t_timeouts := tos'\<rparr>))
            else Option.bind (handle_fd_events (test_fd_cb env) (Some fds) None None (t_fds st1) st1)
                   (\<lambda>(fes, st2). Some (st2\<lparr>t_fds := fes\<rparr>))))"


section \<open>The two firmwares\<close>

text \<open>The resource as the kernel's header lays it out, for the witness.\<close>

definition kernel_abi :: remoteproc_abi where
  "kernel_abi = \<lparr>ab_rsc_vdev = 3, ab_rproc_serial = 11, ab_sizeof = 84,
     ab_bytes = (\<lambda>r. le32 (ccr_type r) @
       le32 (ccr_id r) @ le32 0 @ le32 (ccr_dfeatures r) @ le32 0 @ le32 (ccr_config_len r) @
       [0, ccr_num_of_vrings r, 0, 0] @
       le32 0 @ le32 (ccr_align1 r) @ le32 (ccr_num1 r) @ le32 0 @ le32 0 @
       le32 0 @ le32 (ccr_align2 r) @ le32 (ccr_num2 r) @ le32 0 @ le32 0 @ replicate 16 0)\<rparr>"

text \<open>
  C17: the table the compiler lays out for the test program is, byte for byte, the firmware
  the daemon writes for a core with one console channel, when the number of the resource type,
  which the test program spells out, is the kernel's, and the resource is a whole number of words.
\<close>

theorem r2p_test_firmware:
  assumes "abi_ok abi" "ab_rsc_vdev abi = 3" "4 dvd ab_sizeof abi"
    and "28 + ab_sizeof abi \<le> ee_page_size env" "co_channels co = [ch]" "co_nchannels co = 1"
    and "e_chans st ch = Some c" "console_connected abi c w"
  shows "fw_image (with_console abi ops env) st w co = Some (my_table abi (ee_magic env))"
proof -
  have res: "test_resources abi = console_resources abi"
    using assms(2) by (simp add: test_resources_def console_resources_def)
  have "my_table_body_size abi = 20 + ab_sizeof abi"
    using assms(3) by (auto simp: my_table_body_size_def elim!: dvdE)
  then have "my_table abi (ee_magic env) = console_image abi (ee_magic env)"
    using assms(1) by (simp add: my_table_def console_image_def res abi_ok_def Let_def)
  then show ?thesis
    using fw_image_one[OF assms(1,4-8)] by simp
qed

theorem r2p_test_firmware_witness:
  "fw_image (with_console kernel_abi 9 console_host)
     (cold_ether\<lparr>e_chans := [7 \<mapsto> (ee_uninit_chan console_host)\<lparr>ch_priv := 5, ch_resources_len := 84, ch_resources := 5\<rparr>]\<rparr>)
     \<lparr>cs_objs = [5 \<mapsto> console_resources kernel_abi], cs_allocs = []\<rparr>
     ((ee_uninit_core console_host)\<lparr>co_channels := [7], co_nchannels := 1\<rparr>) =
   Some (my_table kernel_abi (ee_magic console_host))"
proof -
  have "abi_ok kernel_abi"
    by (simp add: abi_ok_def kernel_abi_def le32_def)
  then show ?thesis
    by (rule r2p_test_firmware[where ch = 7 and
          c = "(ee_uninit_chan console_host)\<lparr>ch_priv := 5, ch_resources_len := 84, ch_resources := 5\<rparr>"])
      (simp_all add: kernel_abi_def console_host_def console_connected_def)
qed


section \<open>The start\<close>

text \<open>Eight blocks: the logger, the monitor's event, the processor, two pairs of data and event, the callback.\<close>

definition test_memory :: "r2p_test \<Rightarrow> addr list \<Rightarrow> addr list \<Rightarrow> bool" where
  "test_memory st bs rest \<longleftrightarrow> t_allocs st = bs @ rest \<and> length bs = 8 \<and> 0 \<notin> set bs"

lemma test_memoryE:
  assumes "test_memory st bs rest"
  obtains lg a pd c1 e1 c2 e2 x where "bs = [lg, a, pd, c1, e1, c2, e2, x]"
    "t_allocs st = lg # a # pd # c1 # e1 # c2 # e2 # x # rest"
    "pd \<noteq> 0" "c1 \<noteq> 0" "e1 \<noteq> 0" "c2 \<noteq> 0" "e2 \<noteq> 0" "x \<noteq> 0" "a \<noteq> 0"
proof -
  obtain lg a pd c1 e1 c2 e2 x where "bs = [lg, a, pd, c1, e1, c2, e2, x]"
    using assms by (auto simp: test_memory_def length_Suc_conv eval_nat_numeral)
  then show thesis
    using that assms by (auto simp: test_memory_def)
qed

text \<open>
  What the start of the test program comes to. With the control device open and memory
  enough, it gets as far as the firmware whatever \<^verbatim>\<open>eventfd\<close> and \<^verbatim>\<open>fwrite\<close> answer: a
  descriptor that could not be made is given to the kernel as \<open>- 1\<close>, and a firmware that could
  not be written is taken for good. It exits with 127 when the file cannot be opened or closed,
  and when the kernel refuses the processor, in which case the firmware stays behind.
\<close>

lemma r2p_test_outcomes:
  assumes "test_memory st bs rest" "t_sys st = [fd, efd1, efd2, f] @ (if f = 0 then [] else [wr, cl]) @ [added]"
    and "0 \<le> fd" "te_start_cb env \<noteq> 0" "te_stop_cb env \<noteq> 0"
  shows "\<exists>st'. test_main env True udev_fd mon st =
      Some (if f = 0 \<or> cl < 0 \<or> added < 0 then Inl (127, st') else Inr st') \<and>
    t_log st' = t_log st @ [T_open R2PROC_MISC_DEV, T_eventfd, T_eventfd,
        T_fopen ''/lib/firmware/r2p-test-fw''] @
      (if f = 0 then []
       else [T_fwrite f (my_table (te_abi env) (te_magic env)), T_fclose f] @
         (if cl < 0 then []
          else [T_add_proc fd ((test_fill_pd env)\<lparr>r2p_start_fd := max (- 1) efd1,
                  r2p_stop_fd := max (- 1) efd2, r2p_reserved_memsize := 1024 * 1024\<rparr>)]))"
  using assms(1)
proof (cases rule: test_memoryE)
  case (1 lg a pd c1 e1 c2 e2 x)
  have m: "max (- 1) e = (if e < 0 then - 1 else e)" for e :: int
    by simp
  show ?thesis
    using assms(2-5) 1(2-)
    by (cases "efd1 < 0"; cases "efd2 < 0"; cases "f = 0";
        cases "cl < 0"; cases "added < 0")
      (simp_all add: test_main_def t_call_def t_malloc_def fd_events_init_def timeouts_init_def
        udev_events_init_def test_assign_fd_evt_def add_fd_event_def setup_fw_def schedule_udev_event_def
        EVT_FD_RD_def m Let_def)
qed


section \<open>Rounds\<close>

text \<open>
  The program between two rounds: the event of the monitor, the other events in order, and the
  callback for devices. An event other than the first reads the data it was given: a descriptor
  of the processor, or a device whose ring is mapped. The blocks left are apart.
\<close>

definition event_ok :: "test_env \<Rightarrow> r2p_test \<Rightarrow> fd_event \<Rightarrow> bool" where
  "event_ok env st e \<longleftrightarrow>
     fe_cb e \<in> {te_start_cb env, te_stop_cb env} \<and> t_cbds st (fe_data e) \<noteq> None \<or>
     fe_cb e = te_readable env \<and> (\<exists>v. t_vbes st (fe_data e) = Some v \<and> tb_vring_ptr v \<noteq> - 1)"

definition callbacks_differ :: "test_env \<Rightarrow> bool" where
  "callbacks_differ env \<longleftrightarrow> distinct [te_udev_cb env, te_start_cb env, te_stop_cb env, te_readable env]"

definition blocks_apart :: "addr list \<Rightarrow> r2p_test \<Rightarrow> bool" where
  "blocks_apart xs st \<longleftrightarrow> distinct (filter (\<lambda>b. b \<noteq> 0) (t_allocs st)) \<and>
     (\<forall>b \<in> set (t_allocs st). b \<noteq> 0 \<longrightarrow> b \<notin> set xs \<and>
        (\<forall>t < 3. fe_list b \<noteq> fe_head (t_fds st) t))"

definition read_only :: "fd_events \<Rightarrow> addr list \<Rightarrow> bool" where
  "read_only fes xs \<longleftrightarrow> fe_rep fes EVT_FD_RD xs \<and> fe_rep fes EVT_FD_WR [] \<and> fe_rep fes EVT_FD_EXC [] \<and>
     (\<forall>y \<in> set xs. \<forall>t < 3. fe_list y \<noteq> fe_head fes t)"

definition test_ready :: "test_env \<Rightarrow> addr \<Rightarrow> addr list \<Rightarrow> addr \<Rightarrow> r2p_test \<Rightarrow> bool" where
  "test_ready env u ys x st \<longleftrightarrow>
     read_only (t_fds st) (u # ys) \<and>
     (\<exists>e. fe_objs (t_fds st) u = Some e \<and> fe_cb e = te_udev_cb env) \<and>
     (\<forall>y \<in> set ys. \<exists>e. fe_objs (t_fds st) y = Some e \<and> event_ok env st e) \<and>
     ue_rep (t_udev st) [x] \<and>
     (\<exists>e. ue_objs (t_udev st) x = Some e \<and> ue_cb e = te_backend_add env) \<and>
     to_rep (t_timeouts st) [] \<and> blocks_apart (u # ys) st"

text \<open>The callbacks of the processor and of the devices only use up answers and add to the log.\<close>

definition quiet :: "r2p_test \<Rightarrow> r2p_test \<Rightarrow> bool" where
  "quiet st st' \<longleftrightarrow> st' = st\<lparr>t_sys := t_sys st', t_log := t_log st'\<rparr>"

lemma quiet_iff:
  "quiet st st' \<longleftrightarrow> t_fds st' = t_fds st \<and> t_timeouts st' = t_timeouts st \<and> t_udev st' = t_udev st \<and>
     t_pds st' = t_pds st \<and> t_cbds st' = t_cbds st \<and> t_vbes st' = t_vbes st \<and>
     t_r2proc_fd st' = t_r2proc_fd st \<and> t_allocs st' = t_allocs st \<and> t_devs st' = t_devs st"
  by (auto simp: quiet_def intro: r2p_test.equality dest: arg_cong[where f = t_fds]
      arg_cong[where f = t_timeouts] arg_cong[where f = t_udev] arg_cong[where f = t_pds]
      arg_cong[where f = t_cbds] arg_cong[where f = t_vbes] arg_cong[where f = t_r2proc_fd]
      arg_cong[where f = t_allocs] arg_cong[where f = t_devs])

lemma quiet_call: "quiet st (snd (t_call c st))" "quiet st (t_call0 c st)"
  by (simp_all add: quiet_iff t_call_def t_call0_def split: list.split)

lemma event_runs:
  assumes "event_ok env st e" "callbacks_differ env" "t_fds st = fes"
  shows "\<exists>st'. test_fd_cb env (fe_cb e) (fe_data e) (fes, st) = Some (fes, st') \<and> quiet st st'"
proof -
  have f: "st\<lparr>t_fds := fes\<rparr> = st"
    using assms(3) by (intro r2p_test.equality) simp_all
  consider "fe_cb e \<in> {te_start_cb env, te_stop_cb env}" "t_cbds st (fe_data e) \<noteq> None"
    | v where "fe_cb e = te_readable env" "t_vbes st (fe_data e) = Some v" "tb_vring_ptr v \<noteq> - 1"
    using assms(1) by (auto simp: event_ok_def)
  then have "\<exists>st'. test_on_fd env (fe_cb e) (fe_data e) st = Some st' \<and> quiet st st'"
  proof cases
    case 1
    then show ?thesis
      using assms(2) quiet_call(1)
      by (auto simp: test_on_fd_def test_start_cb_def test_stop_cb_def callbacks_differ_def)
  next
    case 2
    then show ?thesis
      using assms(2) quiet_call(2)
      by (auto simp: test_on_fd_def test_backend_readable_def callbacks_differ_def Let_def)
  qed
  then show ?thesis
    using f assms(3) by (auto simp: test_fd_cb_def quiet_iff)
qed

lemma events_run:
  assumes "linked (fe_mem fes) p (map fe_list ys) head" "head \<notin> fe_list ` set ys"
    and "\<And>y. y \<in> set ys \<Longrightarrow> \<exists>e. fe_objs fes y = Some e \<and> 0 \<le> fe_fd e \<and> fe_fd e < 1024 \<and> event_ok env st e"
    and "callbacks_differ env" "t_fds st = fes"
  shows "\<exists>st'. do_handle_fd_events (test_fd_cb env) (Some s) head (next_of (fe_mem fes) p) fes st = Some (fes, st') \<and>
    quiet st st'"
  using assms
proof (induction ys arbitrary: p st)
  case Nil
  then show ?case by (simp add: do_handle_fd_events.simps quiet_iff)
next
  case (Cons y ys)
  obtain e where e: "fe_objs fes y = Some e" "0 \<le> fe_fd e" "fe_fd e < 1024" "event_ok env st e"
    using Cons.prems(3)[of y] by auto
  obtain st1 where st1: "quiet st st1"
    "(if fe_fd e \<in> s then test_fd_cb env (fe_cb e) (fe_data e) (fes, st) else Some (fes, st)) = Some (fes, st1)"
    using event_runs[OF e(4) Cons.prems(4,5)] by (cases "fe_fd e \<in> s") (auto simp: quiet_iff)
  have "event_ok env st1 = event_ok env st"
    using st1(1) by (auto simp: event_ok_def quiet_iff fun_eq_iff)
  then have "\<exists>st'. do_handle_fd_events (test_fd_cb env) (Some s) head (next_of (fe_mem fes) (fe_list y)) fes st1 =
      Some (fes, st') \<and> quiet st1 st'"
    using Cons.prems st1(1) by (intro Cons.IH) (simp_all add: quiet_iff)
  then obtain st' where st': "quiet st1 st'"
    "do_handle_fd_events (test_fd_cb env) (Some s) head (next_of (fe_mem fes) (fe_list y)) fes st1 = Some (fes, st')"
    by blast
  have "do_handle_fd_events (test_fd_cb env) (Some s) head (next_of (fe_mem fes) p) fes st = Some (fes, st')"
    using Cons.prems(1,2) e(1-3) st1(2) st'(2)
    by (subst do_handle_fd_events.simps) (simp add: FD_ISSET_def)
  then show ?case
    using st1(1) st'(1) by (auto simp: quiet_iff)
qed


text \<open>A new device: the program allocates, calls the system, and adds an event.\<close>

lemma test_readyD:
  "test_ready env u ys x st \<Longrightarrow> y \<in> set ys \<Longrightarrow>
    \<exists>e. fe_objs (t_fds st) y = Some e \<and> event_ok env st e"
  by (simp add: test_ready_def)

lemma ready_quiet: "quiet st st' \<Longrightarrow> test_ready env u ys x st \<Longrightarrow> test_ready env u ys x st'"
  by (simp add: test_ready_def quiet_iff event_ok_def blocks_apart_def)

lemma ready_malloc:
  assumes "test_ready env u ys x st"
  shows "test_ready env u ys x (snd (t_malloc st))"
    and "fst (t_malloc st) \<noteq> 0 \<Longrightarrow> fst (t_malloc st) \<notin> set (u # ys) \<and>
      (\<forall>t < 3. fe_list (fst (t_malloc st)) \<noteq> fe_head (t_fds st) t) \<and>
      fst (t_malloc st) \<notin> set (t_allocs (snd (t_malloc st)))"
  using assms
  by (cases "t_allocs st"; auto simp: t_malloc_def test_ready_def event_ok_def blocks_apart_def split: if_splits)+

lemma read_only_add:
  assumes "read_only fes xs" "b \<noteq> 0" "b \<notin> set xs" "\<forall>t < 3. fe_list b \<noteq> fe_head fes t" "0 \<le> fd" "fd < 1024"
  shows "read_only (snd (add_fd_event fes fd EVT_FD_RD cb data b)) (xs @ [b])"
    "fst (add_fd_event fes fd EVT_FD_RD cb data b) = b"
    "fe_objs (snd (add_fd_event fes fd EVT_FD_RD cb data b)) =
      (fe_objs fes)(b \<mapsto> \<lparr>fe_fd = fd, fe_cb = cb, fe_data = data\<rparr>)"
    "fe_head (snd (add_fd_event fes fd EVT_FD_RD cb data b)) = fe_head fes"
proof -
  let ?f = "snd (add_fd_event fes fd EVT_FD_RD cb data b)"
  note rd = assms(1)[unfolded read_only_def]
  have t: "EVT_FD_RD < 3" "EVT_FD_WR < 3" "EVT_FD_EXC < 3"
    by (simp_all add: EVT_FD_RD_def EVT_FD_WR_def EVT_FD_EXC_def)
  note spec = add_fd_event_spec[of fes EVT_FD_RD xs b fd cb data]
  show heads: "fe_head ?f = fe_head fes"
    by (auto simp: add_fd_event_def fe_head_def)
  show "fst (add_fd_event fes fd EVT_FD_RD cb data b) = b"
    and "fe_objs ?f = (fe_objs fes)(b \<mapsto> \<lparr>fe_fd = fd, fe_cb = cb, fe_data = data\<rparr>)"
    using spec rd t assms by auto
  have frame: "fe_rep ?f t []" if t3: "fe_rep fes t []" "t = EVT_FD_WR \<or> t = EVT_FD_EXC" for t
  proof (rule add_fd_event_frame[of _ _ xs])
    have "fe_head fes EVT_FD_RD \<noteq> fe_head fes t" and "t < 3"
      using t3(2) by (auto simp: fe_head_def EVT_FD_RD_def EVT_FD_WR_def EVT_FD_EXC_def)
    moreover have "\<forall>y \<in> set xs. fe_head fes t \<noteq> fe_list y"
      using rd \<open>t < 3\<close> by metis
    ultimately show "set (fe_head fes EVT_FD_RD # map fe_list xs) \<inter> set (fe_head fes t # map fe_list []) = {}"
      by auto
  qed (use rd t3 t assms in auto)
  have "fe_rep ?f EVT_FD_RD (xs @ [b])"
    using spec rd t assms by auto
  then show "read_only ?f (xs @ [b])"
    using rd frame assms(4) by (simp add: read_only_def heads)
qed

lemma ready_event:
  assumes "test_ready env u ys x st" "b \<noteq> 0" "b \<notin> set (u # ys)" "b \<notin> set (t_allocs st)"
    and "\<forall>t < 3. fe_list b \<noteq> fe_head (t_fds st) t" "0 \<le> fd" "fd < 1024" "tb_vring_ptr v \<noteq> - 1"
  shows "test_ready env u (ys @ [b]) x (st\<lparr>
    t_fds := snd (add_fd_event (t_fds st) fd EVT_FD_RD (te_readable env) vbe b), t_vbes := (t_vbes st)(vbe \<mapsto> v)\<rparr>)"
    (is "test_ready env u _ x ?st")
proof -
  note rd = assms(1)[unfolded test_ready_def]
  have "read_only (t_fds st) (u # ys)" using rd by simp
  note add = read_only_add[OF this assms(2,3,5-7), of "te_readable env" vbe]
  have ev: "event_ok env ?st e" if "event_ok env st e" for e
    using that assms(8) by (auto simp: event_ok_def)
  have "event_ok env ?st \<lparr>fe_fd = fd, fe_cb = te_readable env, fe_data = vbe\<rparr>"
    using assms(8) by (simp add: event_ok_def)
  then have "\<forall>y \<in> set (ys @ [b]). \<exists>e. fe_objs (t_fds ?st) y = Some e \<and> event_ok env ?st e"
    using rd ev assms(3) by (auto simp: add(3))
  moreover have "\<exists>e. fe_objs (t_fds ?st) u = Some e \<and> fe_cb e = te_udev_cb env"
    using rd assms(3) by (auto simp: add(3))
  moreover have "blocks_apart (u # ys @ [b]) ?st"
    using rd assms(4) by (auto simp: blocks_apart_def add(4))
  ultimately show ?thesis
    using rd add(1) by (simp add: test_ready_def)
qed

lemma backend_add_ready:
  assumes "test_ready env u ys x st" "t_sys st = fd # ptr # rs" "fd < 1024" "(of_int ptr :: u64) \<noteq> - 1"
    and "path_basename path \<noteq> None"
  shows "\<exists>st' zs. test_backend_add env dev path st = Some st' \<and> test_ready env u (ys @ zs) x st'"
proof -
  obtain vbe st1 where m1: "t_malloc st = (vbe, st1)" by (cases "t_malloc st")
  have r1: "test_ready env u ys x st1" and s1: "t_sys st1 = fd # ptr # rs"
    using ready_malloc(1)[OF assms(1)] m1 assms(2) by (auto simp: t_malloc_def split: prod.splits)
  have unchanged: ?thesis if "test_backend_add env dev path st = Some st'" "test_ready env u ys x st'" for st'
    using that by (intro exI[of _ st'] exI[of _ "[]"]) simp
  obtain name where name: "path_basename path = Some name"
    using assms(5) by blast
  define st2 where "st2 = snd (t_call (T_open (take (PATH_MAX - 2) (''/dev/'' @ name))) (t_call0 (T_poll 10) st1))"
  have q2: "quiet st1 st2"
    using quiet_call by (simp add: st2_def quiet_iff)
  have c2: "t_call (T_open (take (PATH_MAX - 2) (''/dev/'' @ name))) (t_call0 (T_poll 10) st1) = (fd, st2)"
    and s2: "t_sys st2 = ptr # rs"
    using s1 by (simp_all add: st2_def t_call_def t_call0_def)
  obtain a st3 where m3: "t_malloc st2 = (a, st3)" by (cases "t_malloc st2")
  have r3: "test_ready env u ys x st3" and s3: "t_sys st3 = ptr # rs"
    using ready_malloc(1)[OF ready_quiet[OF q2 r1]] m3 s2 by (auto simp: t_malloc_def split: prod.splits)
  show ?thesis
  proof (cases "te_phy_offset env dev")
    case None
    then show ?thesis
      using unchanged[OF _ r1] m1 by (simp add: test_backend_add_def)
  next
    case (Some offs)
    consider "vbe = 0" | "vbe \<noteq> 0" "fd < 0" | "vbe \<noteq> 0" "0 \<le> fd" "a = 0" | "vbe \<noteq> 0" "0 \<le> fd" "a \<noteq> 0"
      by linarith
    then show ?thesis
    proof cases
      case 1
      then show ?thesis using unchanged[OF _ r1] m1 by (simp add: test_backend_add_def)
    next
      case 2
      then show ?thesis
        using unchanged[OF _ ready_quiet[OF q2 r1]] m1 c2 Some name by (simp add: test_backend_add_def)
    next
      case 3
      have "quiet st3 (t_call0 (T_free vbe) (t_call0 (T_close fd) st3))"
        by (simp add: t_call0_def quiet_iff)
      from unchanged[OF _ ready_quiet[OF this r3]] show ?thesis
        using 3 m1 c2 m3 Some name by (simp add: test_backend_add_def add_fd_event_def EVT_FD_RD_def)
    next
      case 4
      define fds where "fds = snd (add_fd_event (t_fds st3) fd EVT_FD_RD (te_readable env) vbe a)"
      have add: "add_fd_event (t_fds st3) fd EVT_FD_RD (te_readable env) vbe a = (a, fds)"
        using 4(3) by (simp add: fds_def add_fd_event_def EVT_FD_RD_def)
      define v where "v = \<lparr>tb_devname = take (PATH_MAX - 2) (''/dev/'' @ name), tb_fd = fd, tb_evt = a,
        tb_vring_ptr = of_int ptr, tb_phy_offset = of_nat (strtoul16 offs)\<rparr>"
      have "a \<notin> set (u # ys) \<and> (\<forall>t < 3. fe_list a \<noteq> fe_head (t_fds st3) t) \<and> a \<notin> set (t_allocs st3)"
        using ready_malloc(2)[OF ready_quiet[OF q2 r1]] m3 4(3) by (auto simp: t_malloc_def split: prod.splits)
      then have "test_ready env u (ys @ [a]) x (st3\<lparr>t_fds := fds, t_vbes := (t_vbes st3)(vbe \<mapsto> v)\<rparr>)"
        unfolding fds_def using 4 assms(3,4) r3 by (intro ready_event) (simp_all add: v_def)
      then have "test_ready env u (ys @ [a]) x (st3\<lparr>t_fds := fds, t_sys := rs,
          t_log := t_log st3 @ [T_mmap fd (1024 * 1024)], t_vbes := (t_vbes st3)(vbe \<mapsto> v)\<rparr>)"
        by (rule ready_quiet[rotated]) (simp add: quiet_iff)
      moreover have "test_backend_add env dev path st = Some (st3\<lparr>t_fds := fds, t_sys := rs,
          t_log := t_log st3 @ [T_mmap fd (1024 * 1024)], t_vbes := (t_vbes st3)(vbe \<mapsto> v)\<rparr>)"
        using 4 m1 c2 m3 s3 add Some name by (simp add: test_backend_add_def t_call_def v_def)
      ultimately show ?thesis by blast
    qed
  qed
qed


text \<open>A device comes: it has an action, and a path with a slash.\<close>

definition device_ok :: "udev_device option \<Rightarrow> bool" where
  "device_ok dev \<longleftrightarrow> (case dev of None \<Rightarrow> True | Some d \<Rightarrow> ud_action d \<noteq> None \<and> CHR ''/'' \<in> set (ud_syspath d))"

definition answers_ok :: "r2p_test \<Rightarrow> bool" where
  "answers_ok st \<longleftrightarrow> (\<exists>fd ptr rs. t_sys st = fd # ptr # rs \<and> fd < 1024 \<and> (of_int ptr :: u64) \<noteq> - 1)"

lemma malloc_udev: "t_udev (snd (t_malloc st)) = t_udev st"
  by (simp add: t_malloc_def case_prod_unfold Let_def)

lemma backend_add_udev: "test_backend_add env dev path st = Some st' \<Longrightarrow> t_udev st' = t_udev st"
  using quiet_call[unfolded quiet_iff]
  by (auto simp: test_backend_add_def malloc_udev bind_eq_Some_conv case_prod_unfold Let_def
      split: if_splits option.splits)

lemma on_device_ready:
  assumes "test_ready env u ys x st" "answers_ok st" "device_ok dev"
  shows "\<exists>st' zs. test_on_device env dev st = Some st' \<and> test_ready env u (ys @ zs) x st'"
proof -
  have same: "st\<lparr>t_udev := t_udev st\<rparr> = st" by simp
  have unchanged: ?thesis if "do_udev_event (test_device_cb env) dev (t_udev st) st = Some (t_udev st, st, b)" for b
    using that assms(1) same by (intro exI[of _ st] exI[of _ "[]"]) (simp add: test_on_device_def)
  show ?thesis
  proof (cases dev)
    case None
    then show ?thesis by (intro unchanged[of False]) (simp add: do_udev_event_def)
  next
    case (Some d)
    then obtain action where act: "ud_action d = Some action" and path: "path_basename (ud_syspath d) \<noteq> None"
      using assms(3) by (auto simp: device_ok_def path_basename_def)
    have "ue_rep (t_udev st) [x]" using assms(1) by (simp add: test_ready_def)
    then have w: "next_of (ue_mem (t_udev st)) (ue_head (t_udev st)) = ue_list x"
      "next_of (ue_mem (t_udev st)) (ue_list x) = ue_head (t_udev st)" "ue_list x \<noteq> ue_head (t_udev st)"
      by (auto simp: ue_rep_def dll_def)
    obtain e where e: "ue_objs (t_udev st) x = Some e" "ue_cb e = te_backend_add env"
      using assms(1) by (auto simp: test_ready_def)
    show ?thesis
    proof (cases "action_to_id action = Some (ue_id e)")
      case False
      then show ?thesis
        using Some act w e(1)
        by (cases "action_to_id action"; intro unchanged[of "action_to_id action \<noteq> None"])
          (simp_all add: do_udev_event_def udev_loop.simps)
    next
      case True
      obtain fd ptr rs where "t_sys st = fd # ptr # rs" "fd < 1024" "(of_int ptr :: u64) \<noteq> - 1"
        using assms(2) unfolding answers_ok_def by blast
      from backend_add_ready[OF assms(1) this path]
      obtain st' zs where add: "test_backend_add env d (ud_syspath d) st = Some st'" "test_ready env u (ys @ zs) x st'"
        by blast
      have "test_device_cb env (ue_cb e) d (ue_data e) (t_udev st, st) = Some (t_udev st, st')"
        using add(1) same backend_add_udev[OF add(1)] by (simp add: test_device_cb_def e(2))
      then have "do_udev_event (test_device_cb env) dev (t_udev st) st = Some (t_udev st, st', True)"
        using Some act w e(1) True by (simp add: do_udev_event_def udev_loop.simps)
      moreover have "st'\<lparr>t_udev := t_udev st\<rparr> = st'"
        using backend_add_udev[OF add(1)] by (intro r2p_test.equality) simp_all
      ultimately show ?thesis
        using add(2) by (intro exI[of _ st'] exI[of _ zs]) (simp add: test_on_device_def)
    qed
  qed
qed


text \<open>The array of the heads stays where it is: a contract of the dispatchers.\<close>

lemma malloc_base: "t_fds (snd (t_malloc st)) = t_fds st"
  by (simp add: t_malloc_def case_prod_unfold Let_def)

lemma add_base: "fe_base (snd (add_fd_event fes fd t cb data a)) = fe_base fes"
  by (simp add: add_fd_event_def)

lemma backend_add_base: "test_backend_add env dev path st = Some st' \<Longrightarrow> fe_base (t_fds st') = fe_base (t_fds st)"
  using quiet_call[unfolded quiet_iff]
  by (auto simp: test_backend_add_def malloc_base add_base bind_eq_Some_conv case_prod_unfold Let_def
      split: if_splits option.splits)

interpretation test_devs: udev_dispatch "test_device_cb env" "\<lambda>sw. fe_base (t_fds (snd sw)) = v" for env v
  by unfold_locales
    (auto simp: test_device_cb_def bind_eq_Some_conv split: if_splits dest!: backend_add_base)

interpretation test_cbs: fd_dispatch "test_fd_cb env"
    "\<lambda>sw. fe_base (fst sw) = v \<and> fe_base (t_fds (snd sw)) = v" for env v
proof unfold_locales
  fix cb data sw sw'
  assume a: "test_fd_cb env cb data sw = Some sw'" "fe_base (fst sw) = v \<and> fe_base (t_fds (snd sw)) = v"
  define st where "st = (snd sw)\<lparr>t_fds := fst sw\<rparr>"
  obtain st' where st': "test_on_fd env cb data st = Some st'" "sw' = (t_fds st', st')"
    using a(1) by (auto simp: test_fd_cb_def st_def bind_eq_Some_conv case_prod_unfold)
  have "fe_base (t_fds st') = fe_base (t_fds st)"
    using st'(1) quiet_call[unfolded quiet_iff]
    by (auto simp: test_on_fd_def test_on_device_def test_start_cb_def test_stop_cb_def
        test_backend_readable_def bind_eq_Some_conv case_prod_unfold Let_def split: if_splits
        dest: test_devs.do_udev_event_keeps[where v = "fe_base (t_fds st)"])
  then show "fe_base (fst sw') = v \<and> fe_base (t_fds (snd sw')) = v"
    using a(2) st'(2) by (simp add: st_def)
qed

lemma monitor_ready:
  assumes "test_ready env u ys x st" "answers_ok st" "list_all device_ok (t_devs st)"
  shows "\<exists>st' zs. test_fd_cb env (te_udev_cb env) data (t_fds st, st) = Some (t_fds st', st') \<and>
    test_ready env u (ys @ zs) x st'"
proof -
  have dev: "device_ok (fst (next_input (t_devs st)))"
    using assms(3) by (auto simp: next_input_def device_ok_def split: list.split)
  have f: "st\<lparr>t_fds := t_fds st\<rparr> = st" by simp
  obtain st' zs where s: "test_on_device env (fst (next_input (t_devs st))) st = Some st'"
    "test_ready env u (ys @ zs) x st'"
    using on_device_ready[OF assms(1,2) dev] by blast
  have "test_ready env u (ys @ zs) x (st'\<lparr>t_devs := snd (next_input (t_devs st))\<rparr>)"
    using s(2) by (simp add: test_ready_def event_ok_def blocks_apart_def)
  then show ?thesis
    using s(1) f
    by (intro exI[of _ "st'\<lparr>t_devs := snd (next_input (t_devs st))\<rparr>"] exI[of _ zs])
      (simp add: test_fd_cb_def test_on_fd_def case_prod_unfold Let_def)
qed

lemma handle_ready:
  assumes "test_ready env u ys x st" "answers_ok st" "list_all device_ok (t_devs st)" "callbacks_differ env"
  shows "\<exists>st' zs. handle_fd_events (test_fd_cb env) (Some s) None None (t_fds st) st = Some (t_fds st', st') \<and>
    test_ready env u (ys @ zs) x st'"
proof -
  let ?h = "fe_head (t_fds st) EVT_FD_RD"
  have rep: "fe_rep (t_fds st) EVT_FD_RD (u # ys)" using assms(1) by (simp add: test_ready_def read_only_def)
  obtain e where e: "fe_objs (t_fds st) u = Some e" "fe_cb e = te_udev_cb env"
    using assms(1) by (auto simp: test_ready_def)
  with fe_rep_linked(3)[OF rep, of u] have e: "fe_objs (t_fds st) u = Some e" "fe_cb e = te_udev_cb env"
    "0 \<le> fe_fd e" "fe_fd e < 1024" by auto
  have u: "next_of (fe_mem (t_fds st)) ?h = fe_list u" "fe_list u \<noteq> ?h"
    using fe_rep_linked[OF rep] by auto
  obtain st1 zs where st1: "test_ready env u (ys @ zs) x st1"
    "(if fe_fd e \<in> s then test_fd_cb env (fe_cb e) (fe_data e) (t_fds st, st) else Some (t_fds st, st)) = Some (t_fds st1, st1)"
    using monitor_ready[OF assms(1-3), of "fe_data e"] assms(1) e(2)
    by (cases "fe_fd e \<in> s") (auto intro: that[of "[]" st])
  have base: "fe_head (t_fds st1) EVT_FD_RD = ?h"
    using st1(2) test_cbs.call_keeps[of env "fe_cb e" "fe_data e" "(t_fds st, st)" "(t_fds st1, st1)" "fe_base (t_fds st)"]
    by (auto simp: fe_head_def split: if_splits)
  have rep1: "fe_rep (t_fds st1) EVT_FD_RD (u # ys @ zs)" using st1(1) by (simp add: test_ready_def read_only_def)
  have "\<exists>st2. do_handle_fd_events (test_fd_cb env) (Some s) ?h (next_of (fe_mem (t_fds st1)) (fe_list u)) (t_fds st1) st1 =
      Some (t_fds st1, st2) \<and> quiet st1 st2"
  proof (rule events_run[OF _ _ _ assms(4)])
    show "linked (fe_mem (t_fds st1)) (fe_list u) (map fe_list (ys @ zs)) ?h" "?h \<notin> fe_list ` set (ys @ zs)"
      using fe_rep_linked(1,2)[OF rep1] base by auto
    show "\<exists>e. fe_objs (t_fds st1) y = Some e \<and> 0 \<le> fe_fd e \<and> fe_fd e < 1024 \<and> event_ok env st1 e"
      if y: "y \<in> set (ys @ zs)" for y
    proof -
      obtain e where e: "fe_objs (t_fds st1) y = Some e" "event_ok env st1 e"
        using test_readyD[OF st1(1) y] by blast
      have "y \<in> set (u # ys @ zs)" using y by simp
      from fe_rep_get[OF rep1 this] obtain e' where "fe_objs (t_fds st1) y = Some e'" "0 \<le> fe_fd e'" "fe_fd e' < 1024"
        by metis
      with e show ?thesis by simp
    qed
  qed simp
  then obtain st2 where st2: "quiet st1 st2" "do_handle_fd_events (test_fd_cb env) (Some s) ?h
      (next_of (fe_mem (t_fds st1)) (fe_list u)) (t_fds st1) st1 = Some (t_fds st1, st2)" by blast
  have "handle_one (test_fd_cb env) [Some s, None, None] EVT_FD_RD (t_fds st, st) = Some (t_fds st1, st2)"
    using u e st1(2) st2(2)
    by (simp add: handle_one_def do_handle_fd_events.simps[of _ _ _ "fe_list u"] FD_ISSET_def EVT_FD_RD_def)
  moreover have "fe_rep (t_fds st1) EVT_FD_WR []" "fe_rep (t_fds st1) EVT_FD_EXC []"
    using st1(1) by (simp_all add: test_ready_def read_only_def)
  ultimately have "handle_fd_events (test_fd_cb env) (Some s) None None (t_fds st) st = Some (t_fds st1, st2)"
    by (simp add: handle_fd_events_def handle_one_null)
  then show ?thesis
    using ready_quiet[OF st2(1) st1(1)] st2(1) by (auto simp: quiet_iff)
qed


fun test_rounds ::
    "test_env \<Rightarrow> (int set option \<times> timeval \<times> udev_device option list \<times> int list) list \<Rightarrow> r2p_test \<Rightarrow>
     r2p_test option" where
  "test_rounds env [] st = Some st"
| "test_rounds env ((sel, left, devs, answers) # is) st =
     Option.bind (test_round env sel left (st\<lparr>t_devs := devs, t_sys := answers\<rparr>)) (test_rounds env is)"

text \<open>
  What a round may meet: \<^verbatim>\<open>select\<close>, which has no time limit, fails or finds a descriptor; the
  devices that come have an action and a path with a slash; the descriptor of a device fits a
  set, and its ring can be mapped.
\<close>

fun round_ok :: "int set option \<times> timeval \<times> udev_device option list \<times> int list \<Rightarrow> bool" where
  "round_ok (sel, left, devs, answers) \<longleftrightarrow> sel \<noteq> Some {} \<and> list_all device_ok devs \<and>
     (case answers of fd # ptr # _ \<Rightarrow> fd < 1024 \<and> (of_int ptr :: u64) \<noteq> - 1 | _ \<Rightarrow> False)"

lemma prepare_null: "fe_rep st t [] \<Longrightarrow> do_prepare_fd_events st fds (fe_head st t) (next_of (fe_mem st) (fe_head st t)) m = Some (fds, m)"
  using fe_rep_linked(1) by (fastforce simp: do_prepare_fd_events.simps)

lemma round_ready:
  assumes "test_ready env u ys x st" "round_ok (sel, left, devs, answers)" "callbacks_differ env"
  shows "\<exists>st' zs. test_round env sel left (st\<lparr>t_devs := devs, t_sys := answers\<rparr>) = Some st' \<and>
    test_ready env u (ys @ zs) x st'"
proof -
  define s0 where "s0 = st\<lparr>t_devs := devs, t_sys := answers\<rparr>"
  have rd: "test_ready env u ys x s0"
    using assms(1) by (simp add: s0_def test_ready_def event_ok_def blocks_apart_def)
  have reps: "fe_rep (t_fds s0) EVT_FD_RD (u # ys)" "fe_rep (t_fds s0) EVT_FD_WR []"
    "fe_rep (t_fds s0) EVT_FD_EXC []" "to_rep (t_timeouts s0) []"
    using rd by (simp_all add: test_ready_def read_only_def)
  have prep: "\<exists>r. prepare_fd_events (t_fds s0) (Some {}) None None = Some r"
    using do_prepare_linked[OF fe_rep_linked[OF reps(1)]] prepare_null[OF reps(2)] prepare_null[OF reps(3)]
    by (simp add: prepare_fd_events_def)
  have "list_empty (to_mem (t_timeouts s0)) (to_head (t_timeouts s0))"
    using reps(4) dll_list_empty by (auto simp: to_rep_def)
  then have sel: "select_writes (t_timeouts s0) left = Some (t_timeouts s0)"
    by (simp add: select_writes_def get_next_timeout_def)
  have same: "s0\<lparr>t_timeouts := t_timeouts s0\<rparr> = s0" by simp
  show ?thesis
  proof (cases sel)
    case None
    then show ?thesis
      using prep sel same rd by (intro exI[of _ s0] exI[of _ "[]"]) (auto simp: test_round_def s0_def[symmetric])
  next
    case (Some fds)
    have "answers_ok s0" "list_all device_ok (t_devs s0)" "fds \<noteq> {}"
      using assms(2) Some by (auto simp: answers_ok_def s0_def split: list.splits)
    with handle_ready[OF rd _ _ assms(3)] obtain st' zs where h: "test_ready env u (ys @ zs) x st'"
      "handle_fd_events (test_fd_cb env) (Some fds) None None (t_fds s0) s0 = Some (t_fds st', st')" by blast
    have "st'\<lparr>t_fds := t_fds st'\<rparr> = st'" by simp
    then show ?thesis
      using prep sel same h Some \<open>fds \<noteq> {}\<close>
      by (intro exI[of _ st'] exI[of _ zs]) (auto simp: test_round_def s0_def[symmetric])
  qed
qed

lemma rounds_ready:
  assumes "test_ready env u ys x st" "list_all round_ok is" "callbacks_differ env"
  shows "\<exists>st' zs. test_rounds env is st = Some st' \<and> test_ready env u (ys @ zs) x st'"
  using assms
proof (induction "is" arbitrary: ys st)
  case Nil
  then show ?case by (auto intro: exI[of _ "[]"])
next
  case (Cons i "is")
  obtain sel left devs answers where i: "i = (sel, left, devs, answers)" by (cases i)
  obtain st1 zs where r: "test_round env sel left (st\<lparr>t_devs := devs, t_sys := answers\<rparr>) = Some st1"
    "test_ready env u (ys @ zs) x st1"
  proof -
    have "round_ok (sel, left, devs, answers)" using Cons.prems(2) i by simp
    from round_ready[OF Cons.prems(1) this Cons.prems(3)] show thesis using that by blast
  qed
  from Cons.IH[OF r(2)] Cons.prems(2,3) obtain st' zs' where "test_rounds env is st1 = Some st'"
    "test_ready env u (ys @ zs @ zs') x st'" by auto
  with r(1) i show ?case by auto
qed


text \<open>The events the program starts with.\<close>

lemma three_added:
  fixes f0 :: fd_events and a e1 e2 cb0 cb1 cb2 d0 d1 d2 :: addr and fd0 fd1 fd2 :: int
  assumes "read_only f0 []" "0 \<notin> {a, e1, e2}" "distinct [a, e1, e2]" "0 \<le> fd0" "fd0 < 1024"
    and "0 \<le> fd1" "fd1 < 1024" "0 \<le> fd2" "fd2 < 1024"
    and head: "\<forall>b \<in> {a, e1, e2}. \<forall>t < 3. fe_list b \<noteq> fe_head f0 t"
  defines "f1 \<equiv> snd (add_fd_event f0 fd0 EVT_FD_RD cb0 d0 a)"
  defines "f2 \<equiv> snd (add_fd_event f1 fd1 EVT_FD_RD cb1 d1 e1)"
  defines "f3 \<equiv> snd (add_fd_event f2 fd2 EVT_FD_RD cb2 d2 e2)"
  shows "read_only f3 [a, e1, e2] \<and> fe_head f3 = fe_head f0 \<and>
    add_fd_event f0 fd0 EVT_FD_RD cb0 d0 a = (a, f1) \<and>
    add_fd_event f1 fd1 EVT_FD_RD cb1 d1 e1 = (e1, f2) \<and>
    add_fd_event f2 fd2 EVT_FD_RD cb2 d2 e2 = (e2, f3) \<and>
    fe_objs f3 = (fe_objs f0)(a \<mapsto> \<lparr>fe_fd = fd0, fe_cb = cb0, fe_data = d0\<rparr>,
       e1 \<mapsto> \<lparr>fe_fd = fd1, fe_cb = cb1, fe_data = d1\<rparr>, e2 \<mapsto> \<lparr>fe_fd = fd2, fe_cb = cb2, fe_data = d2\<rparr>)"
proof -
  note r1 = read_only_add[OF assms(1), of a fd0 cb0 d0, folded f1_def]
  have "read_only f1 [a]" and h1: "fe_head f1 = fe_head f0"
    using r1 assms(2-5) head by simp_all
  note r2 = read_only_add[OF this(1), of e1 fd1 cb1 d1, folded f2_def, simplified h1]
  have "read_only f2 [a, e1]" and h2: "fe_head f2 = fe_head f0"
    using r2 assms(2,3,6,7) head by simp_all
  note r3 = read_only_add[OF this(1), of e2 fd2 cb2 d2, folded f3_def, simplified h2]
  have "read_only f3 [a, e1, e2]" "fe_head f3 = fe_head f0"
    using r3 assms(2,3,8,9) head by simp_all
  then show ?thesis
    using assms(2) by (simp add: f1_def f2_def f3_def add_fd_event_def EVT_FD_RD_def)
qed

lemma start_ready:
  assumes "t_allocs st = lg # a # pd # c1 # e1 # c2 # e2 # x # rest" "0 \<notin> {pd, c1, e1, c2, e2, x, a}"
    and "distinct (filter (\<lambda>b. b \<noteq> 0) (t_allocs st))" "ue_list x \<noteq> ue_head (t_udev st)"
    and "\<forall>b \<in> set (t_allocs st). b \<noteq> 0 \<longrightarrow> (\<forall>t < 3. fe_list b \<noteq> fe_head (t_fds st) t)"
    and "te_start_cb env \<noteq> 0" "te_stop_cb env \<noteq> 0" "0 \<le> udev_fd" "udev_fd < 1024"
    and "t_sys st = [fd, efd1, efd2, f, wr, cl, added]" "0 \<le> fd" "f \<noteq> 0" "0 \<le> cl" "0 \<le> added"
    and "0 \<le> efd1" "efd1 < 1024" "0 \<le> efd2" "efd2 < 1024"
  shows "\<exists>st0. test_main env True udev_fd mon st = Some (Inr st0) \<and> test_ready env a [e1, e2] x st0"
proof -
  define f0 where "f0 = snd (fd_events_init (t_fds st))"
  define f1 where "f1 = snd (add_fd_event f0 udev_fd EVT_FD_RD (te_udev_cb env) mon a)"
  define f2 where "f2 = snd (add_fd_event f1 efd1 EVT_FD_RD (te_start_cb env) c1 e1)"
  define f3 where "f3 = snd (add_fd_event f2 efd2 EVT_FD_RD (te_stop_cb env) c2 e2)"
  define tos where "tos = snd (timeouts_init (t_timeouts st))"
  define ue0 where "ue0 = (t_udev st)\<lparr>ue_mem := INIT_LIST_HEAD (ue_mem (t_udev st)) (ue_head (t_udev st))\<rparr>"
  have "ue_rep ue0 []"
    by (simp add: ue_rep_def ue0_def dll_INIT_LIST_HEAD)
  from schedule_udev_event_spec[OF this, of x udev_new_virtio_backend "te_backend_add env" 0]
  obtain ue1 where ue1: "schedule_udev_event ue0 udev_new_virtio_backend (te_backend_add env) 0 x = (0, ue1)"
    "ue_rep ue1 [x]" "ue_objs ue1 = (ue_objs ue0)(x \<mapsto> \<lparr>ue_id = udev_new_virtio_backend, ue_cb = te_backend_add env, ue_data = 0\<rparr>)"
    using assms(2,4) by (auto simp: ue0_def)
  have rest: "distinct [a, e1, e2]" "\<forall>b \<in> set rest. b \<noteq> 0 \<longrightarrow> b \<notin> {a, e1, e2}" "distinct (filter (\<lambda>b. b \<noteq> 0) rest)"
    using assms(2,3) unfolding assms(1) by (auto split: if_splits)
  have head: "\<forall>t < 3. fe_list b \<noteq> fe_head (t_fds st) t" if "b \<in> {a, e1, e2}" for b
    using assms(1,2,5) that by auto
  have h0: "fe_head f0 = fe_head (t_fds st)"
    by (auto simp: f0_def fd_events_init_def fe_head_def)
  have "read_only f0 []"
    using fd_events_init_rep by (simp add: read_only_def f0_def EVT_FD_RD_def EVT_FD_WR_def EVT_FD_EXC_def)
  note add = three_added[OF this _ rest(1) assms(8,9,15-18), of "te_udev_cb env" mon "te_start_cb env" c1
      "te_stop_cb env" c2, folded f1_def, folded f2_def, folded f3_def, unfolded h0]
  have f3: "read_only f3 [a, e1, e2]" "fe_head f3 = fe_head (t_fds st)"
    "add_fd_event f0 udev_fd EVT_FD_RD (te_udev_cb env) mon a = (a, f1)"
    "add_fd_event f1 efd1 EVT_FD_RD (te_start_cb env) c1 e1 = (e1, f2)"
    "add_fd_event f2 efd2 EVT_FD_RD (te_stop_cb env) c2 e2 = (e2, f3)"
    "fe_objs f3 = (fe_objs f0)(a \<mapsto> \<lparr>fe_fd = udev_fd, fe_cb = te_udev_cb env, fe_data = mon\<rparr>,
      e1 \<mapsto> \<lparr>fe_fd = efd1, fe_cb = te_start_cb env, fe_data = c1\<rparr>,
      e2 \<mapsto> \<lparr>fe_fd = efd2, fe_cb = te_stop_cb env, fe_data = c2\<rparr>)"
    using add assms(2) head by auto
  have inits: "fd_events_init (t_fds st) = (0, f0)" "timeouts_init (t_timeouts st) = (0, tos)"
    by (simp_all add: f0_def tos_def fd_events_init_def timeouts_init_def)
  have "\<exists>st0. test_main env True udev_fd mon st = Some (Inr st0) \<and> t_fds st0 = f3 \<and> t_timeouts st0 = tos \<and>
      t_udev st0 = ue1 \<and> t_cbds st0 c1 \<noteq> None \<and> t_cbds st0 c2 \<noteq> None \<and> t_allocs st0 = rest"
    using assms(1,2,6,7,10-18) f3(3-5) inits ue1(1)
    by (simp add: test_main_def t_call_def t_malloc_def udev_events_init_def test_assign_fd_evt_def
        setup_fw_def ue0_def Let_def)
  then obtain st0 where st0: "test_main env True udev_fd mon st = Some (Inr st0)" "t_fds st0 = f3"
    "t_timeouts st0 = tos" "t_udev st0 = ue1" "t_cbds st0 c1 \<noteq> None" "t_cbds st0 c2 \<noteq> None" "t_allocs st0 = rest"
    by (elim exE conjE)
  have "\<forall>y \<in> set [e1, e2]. \<exists>e. fe_objs f3 y = Some e \<and> event_ok env st0 e"
    using st0(5,6) rest(1) by (auto simp: f3(6) event_ok_def)
  moreover have "to_rep tos []"
    by (simp add: to_rep_def tos_def timeouts_init_def dll_INIT_LIST_HEAD)
  moreover have "blocks_apart [a, e1, e2] st0"
    using rest(2,3) st0(2,7) assms(1,5) by (simp add: blocks_apart_def f3(2))
  ultimately have "test_ready env a [e1, e2] x st0"
    using f3(1) ue1(2,3) rest(1) st0(2-4) by (simp add: test_ready_def f3(6))
  with st0(1) show ?thesis by blast
qed


text \<open>
  C18: the test program runs for ever. After a start in which every call succeeds, any
  number of rounds is defined, whatever devices come (with an action, a path, and a ring that can
  be mapped) and whatever descriptors are ready, even those of events added in the round: no
  list is left, no event is read whose data is missing. The monitor and the two events of the
  processor are watched all along, and all but the first are events whose callback can run.
\<close>

theorem r2p_test_runs:
  assumes "t_allocs st = lg # a # pd # c1 # e1 # c2 # e2 # x # rest" "0 \<notin> {pd, c1, e1, c2, e2, x, a}"
    and "distinct (filter (\<lambda>b. b \<noteq> 0) (t_allocs st))" "ue_list x \<noteq> ue_head (t_udev st)"
    and "\<forall>b \<in> set (t_allocs st). b \<noteq> 0 \<longrightarrow> (\<forall>t < 3. fe_list b \<noteq> fe_head (t_fds st) t)"
    and "te_start_cb env \<noteq> 0" "te_stop_cb env \<noteq> 0" "callbacks_differ env" "0 \<le> udev_fd" "udev_fd < 1024"
    and "t_sys st = [fd, efd1, efd2, f, wr, cl, added]" "0 \<le> fd" "f \<noteq> 0" "0 \<le> cl" "0 \<le> added"
    and "0 \<le> efd1" "efd1 < 1024" "0 \<le> efd2" "efd2 < 1024" "list_all round_ok is"
  shows "\<exists>st0 st' zs. test_main env True udev_fd mon st = Some (Inr st0) \<and> test_rounds env is st0 = Some st' \<and>
    fe_rep (t_fds st') EVT_FD_RD (a # e1 # e2 # zs) \<and>
    (\<forall>y \<in> set (e1 # e2 # zs). \<exists>e. fe_objs (t_fds st') y = Some e \<and> event_ok env st' e)"
proof -
  obtain st0 where st0: "test_main env True udev_fd mon st = Some (Inr st0)" "test_ready env a [e1, e2] x st0"
    using start_ready[OF assms(1-7,9-19)] by blast
  from rounds_ready[OF st0(2) assms(20,8)] obtain st' zs where r: "test_rounds env is st0 = Some st'"
    "test_ready env a ([e1, e2] @ zs) x st'" by blast
  then have "fe_rep (t_fds st') EVT_FD_RD (a # e1 # e2 # zs)"
    "\<forall>y \<in> set (e1 # e2 # zs). \<exists>e. fe_objs (t_fds st') y = Some e \<and> event_ok env st' e"
    by (simp_all add: test_ready_def read_only_def)
  with st0(1) r(1) show ?thesis by blast
qed

definition test_host :: test_env where
  "test_host = \<lparr>te_phy_offset = (\<lambda>_. Some ''0x1000''), te_udev_cb = 1, te_start_cb = 2, te_stop_cb = 3,
     te_readable = 4, te_backend_add = 5, te_abi = kernel_abi, te_magic = 77, te_fw_simple = 1,
     te_uninit_pd = \<lparr>r2p_fw_type = 0, r2p_fw_name = replicate 33 (CHR 0x00), r2p_name = replicate 33 (CHR 0x00),
       r2p_start_fd = 0, r2p_stop_fd = 0, r2p_reserved_memsize = 0\<rparr>,
     te_name_len = 33, te_ring = (\<lambda>_. \<lparr>d_addr = 0x1800, d_len = 16, d_flags = 0, d_next = 0\<rparr>)\<rparr>"

definition cold_test :: "int list \<Rightarrow> r2p_test" where
  "cold_test answers = \<lparr>t_fds = \<lparr>fe_mem = cold_mem, fe_objs = Map.empty, fe_base = 2000\<rparr>,
     t_timeouts = \<lparr>to_mem = cold_mem, to_objs = Map.empty, to_head = 80\<rparr>,
     t_udev = \<lparr>ue_mem = cold_mem, ue_objs = Map.empty, ue_head = 90\<rparr>,
     t_pds = Map.empty, t_cbds = Map.empty, t_vbes = Map.empty, t_r2proc_fd = 0,
     t_allocs = [101, 102, 103, 104, 105, 106, 107, 108, 109, 110, 111, 112], t_sys = answers,
     t_devs = [], t_log = []\<rparr>"

definition new_device :: udev_device where
  "new_device = \<lparr>ud_action = Some ''add'', ud_syspath = ''/sys/devices/r2p0''\<rparr>"

theorem r2p_test_runs_witness:
  "\<exists>st0 st' zs. test_main test_host True 4 60 (cold_test [3, 5, 6, 9, 1, 0, 0]) = Some (Inr st0) \<and>
    test_rounds test_host
      [(Some {4, 5, 7}, \<lparr>tv_sec = 0, tv_usec = 0\<rparr>, [Some new_device], [7, 4096, 8]),
       (Some {4, 7}, \<lparr>tv_sec = 0, tv_usec = 0\<rparr>, [Some new_device], [8, 8192])] st0 = Some st' \<and>
    fe_rep (t_fds st') EVT_FD_RD (102 # 105 # 107 # zs)"
proof -
  have w: "(of_int 4096 :: u64) \<noteq> - 1" "(of_int 8192 :: u64) \<noteq> - 1"
    by simp_all
  have "list_all round_ok
      [(Some {4, 5, 7}, \<lparr>tv_sec = 0, tv_usec = 0\<rparr>, [Some new_device], [7, 4096, 8]),
       (Some {4, 7}, \<lparr>tv_sec = 0, tv_usec = 0\<rparr>, [Some new_device], [8, 8192])]"
    using w by (simp add: device_ok_def new_device_def)
  from r2p_test_runs[of "cold_test [3, 5, 6, 9, 1, 0, 0]" 101 102 103 104 105 106 107 108 "[109, 110, 111, 112]"
      test_host 4 3 5 6 9 1 0 0, OF _ _ _ _ _ _ _ _ _ _ _ _ _ _ _ _ _ _ _ this, of 60]
  show ?thesis
    by (auto simp: cold_test_def test_host_def callbacks_differ_def fe_list_def fe_head_def ue_list_def)
qed

lemma r2p_test_outcomes_witness:
  "\<exists>st'. test_main test_host True 4 60 (cold_test [3, - 1, 6, 9, 0, 0, - 1]) = Some (Inl (127, st')) \<and>
    T_add_proc 3 ((test_fill_pd test_host)\<lparr>r2p_start_fd := - 1, r2p_stop_fd := 6,
      r2p_reserved_memsize := 1024 * 1024\<rparr>) \<in> set (t_log st')"
proof -
  have "test_memory (cold_test [3, - 1, 6, 9, 0, 0, - 1]) [101, 102, 103, 104, 105, 106, 107, 108]
      [109, 110, 111, 112]"
    by (simp add: test_memory_def cold_test_def)
  from r2p_test_outcomes[OF this, of 3 "- 1" 6 9 0 0 "- 1" test_host 4 60] show ?thesis
    by (auto simp: cold_test_def test_host_def)
qed

end
