(* ===== verification/Etherd_Init.thy ===== *)
theory Etherd_Init
  imports Etherd
begin

text \<open>
  The initialisation of the daemon: what it leaves in memory, its errors, and what holds in
  every state the daemon reaches from it.
\<close>

section \<open>The initialisation\<close>

lemma view_setup_socket:
  "setup_ether_socket env ifname data st = (r, st') \<Longrightarrow> e_objs st' = e_objs st \<and> e_mem st' = e_mem st \<and>
    e_nodes st' = e_nodes st \<and> e_free_nodes st' = e_free_nodes st"
  unfolding setup_ether_socket_def
  by (auto simp: Let_def case_prod_unfold syscall_def syscall0_def e_malloc_def malloc_def
      split: if_splits list.splits)

lemma empty_init_nodes: "init_nodes k st = (r, st') \<Longrightarrow> chans_empty st \<Longrightarrow> chans_empty st'"
proof (induction k arbitrary: st)
  case (Suc k)
  obtain en st1 where m: "e_malloc st = (en, st1)" by (cases "e_malloc st")
  have e: "chans_empty st1"
    using chans_empty_view[OF view_malloc[OF m] Suc.prems(2)] .
  show ?case
  proof (cases "en = 0")
    case True
    then show ?thesis using Suc.prems(1) m e by simp
  next
    case False
    let ?st2 = "st1\<lparr>e_mem := list_add_tail (e_mem st1) (n_list en) (e_free_nodes st1),
      e_objs := (e_objs st1)(en \<mapsto> empty_node)\<rparr>"
    have "init_nodes k ?st2 = (r, st')"
      using Suc.prems(1) m False by simp
    moreover have "chans_empty ?st2"
      using e by (simp add: chans_empty_def empty_node_def)
    ultimately show ?thesis by (rule Suc.IH)
  qed
qed simp

lemma empty_ether_init:
  assumes "lininoio_ether_init env netif st = (r, st')" "chans_empty st"
  shows "chans_empty st'"
proof -
  obtain data st1 where m: "e_malloc st = (data, st1)" by (cases "e_malloc st")
  then have e: "chans_empty st1"
    using chans_empty_view[OF view_malloc[OF m]] assms(2) by simp
  show ?thesis
  proof (cases "data = 0")
    case True
    then show ?thesis using assms(1) e m by (simp add: lininoio_ether_init_def)
  next
    case False
    define s0 where "s0 = st1\<lparr>e_mem := INIT_LIST_HEAD (INIT_LIST_HEAD (e_mem st1) (data + 16)) data,
      e_free_nodes := data, e_nodes := data + 16, e_addr := empty_sockaddr, e_netif_fd := 0, e_rx_event := 0\<rparr>"
    obtain r2 st2 where n: "init_nodes 7 s0 = (r2, st2)" by (cases "init_nodes 7 s0")
    have "chans_empty s0"
      using e by (simp add: chans_empty_def s0_def)
    then have "chans_empty st2"
      by (rule empty_init_nodes[OF n])
    moreover have "(if r2 < 0 then (r2, st2) else setup_ether_socket env netif data st2) = (r, st')"
      using assms(1) m False n by (simp add: lininoio_ether_init_def s0_def Let_def)
    ultimately show ?thesis
      by (cases "r2 < 0") (auto simp: chans_empty_def dest: view_setup_socket)
  qed
qed

lemma empty_etherd_init:
  assumes "etherd_init env netif udev fd mon table st w = Inr d" "chans_empty st"
  shows "chans_empty (d_ether d)"
proof -
  obtain a b c e where d: "d_ether d = snd (lininoio_ether_init env netif
      ((snd (e_malloc st))\<lparr>e_fds := a, e_timeouts := b, e_udev := c, e_ops := e\<rparr>))"
    using assms(1) by (auto simp: etherd_init_def Let_def case_prod_unfold split: if_splits)
  have "chans_empty (snd (e_malloc st))"
    by (rule chans_empty_view[OF _ assms(2)]) simp
  then have "chans_empty ((snd (e_malloc st))\<lparr>e_fds := a, e_timeouts := b, e_udev := c, e_ops := e\<rparr>)"
    by (simp add: chans_empty_def)
  then show ?thesis
    unfolding d by (rule empty_ether_init[OF prod.collapse[symmetric]])
qed

lemma init_nodes_spec:
  "e_allocs st = ns @ rest \<Longrightarrow> length ns = k \<Longrightarrow> 0 \<notin> set ns \<Longrightarrow>
    init_nodes k st = (0, st\<lparr>
      e_mem := fold (\<lambda>l m. list_add_tail m l (e_free_nodes st)) (map n_list ns) (e_mem st),
      e_objs := (\<lambda>x. if x \<in> set ns then Some empty_node else e_objs st x), e_allocs := rest\<rparr>)"
proof (induction k arbitrary: st ns)
  case (Suc k)
  then obtain n ms where n: "ns = n # ms" "n \<noteq> 0" "length ms = k" "0 \<notin> set ms"
    by (cases ns) auto
  define st1 where "st1 = st\<lparr>e_allocs := ms @ rest,
    e_mem := list_add_tail (e_mem st) (n_list n) (e_free_nodes st), e_objs := (e_objs st)(n \<mapsto> empty_node)\<rparr>"
  have "init_nodes (Suc k) st = init_nodes k st1"
    using Suc.prems(1) n by (simp add: e_malloc_def st1_def)
  also have "\<dots> = (0, st1\<lparr>
      e_mem := fold (\<lambda>l m. list_add_tail m l (e_free_nodes st1)) (map n_list ms) (e_mem st1),
      e_objs := (\<lambda>x. if x \<in> set ms then Some empty_node else e_objs st1 x), e_allocs := rest\<rparr>)"
    by (rule Suc.IH) (use n in \<open>simp_all add: st1_def\<close>)
  finally have eq: "init_nodes (Suc k) st = (0, st1\<lparr>
      e_mem := fold (\<lambda>l m. list_add_tail m l (e_free_nodes st1)) (map n_list ms) (e_mem st1),
      e_objs := (\<lambda>x. if x \<in> set ms then Some empty_node else e_objs st1 x), e_allocs := rest\<rparr>)" .
  have objs: "(\<lambda>x. if x \<in> set ms then Some empty_node else e_objs st1 x) =
      (\<lambda>x. if x \<in> set ns then Some empty_node else e_objs st x)"
    by (auto simp: st1_def n fun_eq_iff)
  show ?case
    unfolding eq objs by (simp add: st1_def n)
qed simp

lemma add_all_frame:
  assumes "dll m a xs" "dll m b ys" "distinct ns" "set ns \<inter> set (a # xs) = {}" "b \<notin> set (a # xs @ ns)"
    "set ys \<inter> set (a # xs @ ns) = {}"
  shows "dll (fold (\<lambda>l m. list_add_tail m l a) ns m) b ys"
  using assms
proof (induction ns arbitrary: m xs)
  case (Cons n ns)
  have "dll (list_add_tail m n a) a (xs @ [n])"
    using Cons.prems by (intro dll_list_add_tail) auto
  moreover have "dll (list_add_tail m n a) b ys"
    using Cons.prems by (intro list_add_tail_frame[where zs = xs]) auto
  ultimately show ?case
    using Cons.IH[of "list_add_tail m n a" "xs @ [n]"] Cons.prems by auto
qed simp

text \<open>
  What the start of the daemon needs: memory for an event, the data of the transport, seven
  nodes and the event of the socket, all apart; a socket with a descriptor that can be watched,
  an interface with a short name that the socket can be bound to.
\<close>

definition boot_memory :: "ether \<Rightarrow> addr \<Rightarrow> addr \<Rightarrow> addr list \<Rightarrow> addr \<Rightarrow> bool" where
  "boot_memory st a data ns rx \<longleftrightarrow> (\<exists>rest. e_allocs st = a # data # ns @ rx # rest) \<and>
     length ns = 7 \<and> distinct ns \<and> 0 \<notin> set (a # data # rx # ns) \<and> a \<noteq> rx \<and>
     (\<forall>n \<in> set ns. n_list n \<noteq> data \<and> n_list n \<noteq> data + 16) \<and>
     fe_list a \<noteq> fe_base (e_fds st) \<and> fe_list rx \<noteq> fe_base (e_fds st)"

definition boot_network :: "ether \<Rightarrow> string \<Rightarrow> int \<Rightarrow> bool" where
  "boot_network st netif fd \<longleftrightarrow> length netif < IFNAMSIZ \<and> 0 \<le> fd \<and> fd < 1024 \<and>
     (\<exists>io b rs. e_sys st = fd # io # b # rs \<and> io \<noteq> - 1 \<and> 0 \<le> b)"

lemma ether_init_nodes:
  assumes "e_allocs st = data # ns @ rest" "length ns = 7" "0 \<notin> set (data # ns)"
  shows "lininoio_ether_init env netif st = setup_ether_socket env netif data (st\<lparr>
      e_mem := fold (\<lambda>l m. list_add_tail m l data) (map n_list ns)
        (INIT_LIST_HEAD (INIT_LIST_HEAD (e_mem st) (data + 16)) data),
      e_free_nodes := data, e_nodes := data + 16,
      e_objs := (\<lambda>x. if x \<in> set ns then Some empty_node else e_objs st x),
      e_addr := empty_sockaddr, e_netif_fd := 0, e_rx_event := 0, e_allocs := rest\<rparr>)"
proof -
  define s0 where "s0 = st\<lparr>e_allocs := ns @ rest,
    e_mem := INIT_LIST_HEAD (INIT_LIST_HEAD (e_mem st) (data + 16)) data,
    e_free_nodes := data, e_nodes := data + 16, e_addr := empty_sockaddr, e_netif_fd := 0, e_rx_event := 0\<rparr>"
  have "init_nodes 7 s0 = (0, s0\<lparr>
      e_mem := fold (\<lambda>l m. list_add_tail m l (e_free_nodes s0)) (map n_list ns) (e_mem s0),
      e_objs := (\<lambda>x. if x \<in> set ns then Some empty_node else e_objs s0 x), e_allocs := rest\<rparr>)"
    by (rule init_nodes_spec) (use assms in \<open>simp_all add: s0_def\<close>)
  moreover have "lininoio_ether_init env netif st =
      (let (ret, st2) = init_nodes 7 s0 in if ret < 0 then (ret, st2) else setup_ether_socket env netif data st2)"
    using assms by (simp add: lininoio_ether_init_def e_malloc_def s0_def Let_def)
  ultimately have "lininoio_ether_init env netif st = setup_ether_socket env netif data (s0\<lparr>
      e_mem := fold (\<lambda>l m. list_add_tail m l (e_free_nodes s0)) (map n_list ns) (e_mem s0),
      e_objs := (\<lambda>x. if x \<in> set ns then Some empty_node else e_objs s0 x), e_allocs := rest\<rparr>)"
    by simp
  also have "s0\<lparr>
      e_mem := fold (\<lambda>l m. list_add_tail m l (e_free_nodes s0)) (map n_list ns) (e_mem s0),
      e_objs := (\<lambda>x. if x \<in> set ns then Some empty_node else e_objs s0 x), e_allocs := rest\<rparr> = st\<lparr>
      e_mem := fold (\<lambda>l m. list_add_tail m l data) (map n_list ns)
        (INIT_LIST_HEAD (INIT_LIST_HEAD (e_mem st) (data + 16)) data),
      e_free_nodes := data, e_nodes := data + 16,
      e_objs := (\<lambda>x. if x \<in> set ns then Some empty_node else e_objs st x),
      e_addr := empty_sockaddr, e_netif_fd := 0, e_rx_event := 0, e_allocs := rest\<rparr>"
    by (intro ether.equality) (simp_all add: s0_def cong: if_cong)
  finally show ?thesis .
qed

lemma node_lists:
  assumes "length ns = 7" "distinct ns" "\<forall>n \<in> set ns. n_list n \<noteq> data \<and> n_list n \<noteq> data + 16"
    and "m = fold (\<lambda>l m. list_add_tail m l data) (map n_list ns)
      (INIT_LIST_HEAD (INIT_LIST_HEAD m0 (data + 16)) data)"
  shows "dll m data (map n_list ns)" "dll m (data + 16) []"
proof -
  have d: "distinct (map n_list ns)" "data \<notin> set (map n_list ns)" "data + 16 \<notin> set (map n_list ns)"
    using assms(2,3) by (auto simp: distinct_map inj_on_def)
  show "dll m data (map n_list ns)"
    unfolding assms(4) by (rule dl.init_add_all[OF d(1,2)])
  have "dll (INIT_LIST_HEAD (INIT_LIST_HEAD m0 (data + 16)) data) (data + 16) []"
    by (simp add: dll_INIT_frame dll_INIT_LIST_HEAD)
  then show "dll m (data + 16) []"
    unfolding assms(4) using d
    by (intro add_all_frame[where xs = "[]"]) (auto simp: dll_INIT_LIST_HEAD)
qed


lemma socket_ready:
  assumes "boot_network st netif fd" "e_allocs st = rx # rest" "rx \<noteq> 0"
  obtains st' where "setup_ether_socket env netif data st = (0, st')" "e_netif_fd st' = fd"
    "e_fds st' = snd (add_fd_event (e_fds st) fd EVT_FD_RD (ee_rx_cb env) data rx)"
    "e_mem st' = e_mem st" "e_nodes st' = e_nodes st" "e_free_nodes st' = e_free_nodes st" "e_objs st' = e_objs st"
    "e_allocs st' = rest"
  using assms
  by (auto simp: boot_network_def setup_ether_socket_def syscall_def e_malloc_def add_fd_event_def
      EVT_FD_RD_def Let_def)

lemma etherd_init_state:
  assumes "boot_memory st a data ns rx" "boot_network st netif fd" "0 \<le> udev_fd" "udev_fd < 1024"
    and al: "e_allocs st = a # data # ns @ rx # rest"
  shows "\<exists>d. etherd_init env netif True udev_fd mon True st w = Inr d \<and>
    e_free_nodes (d_ether d) = data \<and> e_nodes (d_ether d) = data + 16 \<and>
    dll (e_mem (d_ether d)) data (map n_list ns) \<and> dll (e_mem (d_ether d)) (data + 16) [] \<and>
    (\<forall>n \<in> set ns. e_objs (d_ether d) n = Some empty_node) \<and> e_netif_fd (d_ether d) = fd \<and>
    fe_rep (e_fds (d_ether d)) EVT_FD_RD [a, rx] \<and>
    fe_objs (e_fds (d_ether d)) a = Some \<lparr>fe_fd = udev_fd, fe_cb = ee_udev_cb env, fe_data = mon\<rparr> \<and>
    fe_objs (e_fds (d_ether d)) rx = Some \<lparr>fe_fd = fd, fe_cb = ee_rx_cb env, fe_data = data\<rparr> \<and>
    e_allocs (d_ether d) = rest \<and> fe_base (e_fds (d_ether d)) = fe_base (e_fds st)"
proof -
  have mem: "length ns = 7" "distinct ns" "0 \<notin> set (data # ns)" "a \<noteq> 0" "rx \<noteq> 0" "a \<noteq> rx"
    "\<forall>n \<in> set ns. n_list n \<noteq> data \<and> n_list n \<noteq> data + 16"
    using assms(1) by (auto simp: boot_memory_def)
  define f0 where "f0 = snd (fd_events_init (e_fds st))"
  define f1 where "f1 = snd (add_fd_event f0 udev_fd EVT_FD_RD (ee_udev_cb env) mon a)"
  have rep0: "fe_rep f0 EVT_FD_RD []" "fe_base f0 = fe_base (e_fds st)"
    using fd_events_init_rep[of 0] by (simp_all add: f0_def fd_events_init_def EVT_FD_RD_def)
  then have head: "fe_list a \<noteq> fe_head f0 EVT_FD_RD" "fe_list rx \<noteq> fe_head f0 EVT_FD_RD"
    using assms(1) by (auto simp: boot_memory_def fe_head_def EVT_FD_RD_def)
  have t: "EVT_FD_RD < 3" by (simp add: EVT_FD_RD_def)
  note add1 = add_fd_event_spec[OF rep0(1) t mem(4) _ head(1) assms(3,4), of "ee_udev_cb env" mon, folded f1_def]
  have rep1: "fe_rep f1 EVT_FD_RD [a]" and obj1: "fe_objs f1 a = Some \<lparr>fe_fd = udev_fd, fe_cb = ee_udev_cb env, fe_data = mon\<rparr>"
    using add1 by simp_all
  have base1: "fe_head f1 EVT_FD_RD = fe_head f0 EVT_FD_RD"
    by (simp add: f1_def add_fd_event_def fe_head_def)
  define s1 where "s1 = st\<lparr>e_allocs := data # ns @ rx # rest, e_fds := f1,
    e_timeouts := snd (timeouts_init (e_timeouts st)),
    e_udev := (e_udev st)\<lparr>ue_mem := INIT_LIST_HEAD (ue_mem (e_udev st)) (ue_head (e_udev st))\<rparr>,
    e_ops := Some (replicate (2 ^ 13) 0)\<rparr>"
  have init: "etherd_init env netif True udev_fd mon True st w = Inr \<lparr>d_buf = replicate 1024 0,
      d_ether = snd (lininoio_ether_init env netif s1), d_w = w, d_recv = [], d_devs = []\<rparr>"
    using al by (simp add: etherd_init_def e_malloc_def udev_events_init_def lininoio_init_def
        fd_events_init_def timeouts_init_def s1_def f1_def f0_def Let_def)
  define s2 where "s2 = s1\<lparr>
      e_mem := fold (\<lambda>l m. list_add_tail m l data) (map n_list ns)
        (INIT_LIST_HEAD (INIT_LIST_HEAD (e_mem s1) (data + 16)) data),
      e_free_nodes := data, e_nodes := data + 16,
      e_objs := (\<lambda>x. if x \<in> set ns then Some empty_node else e_objs s1 x),
      e_addr := empty_sockaddr, e_netif_fd := 0, e_rx_event := 0, e_allocs := rx # rest\<rparr>"
  have "lininoio_ether_init env netif s1 = setup_ether_socket env netif data s2"
    unfolding s2_def by (rule ether_init_nodes) (use mem in \<open>simp_all add: s1_def\<close>)
  moreover have "boot_network s2 netif fd"
    using assms(2) by (simp add: boot_network_def s2_def s1_def)
  then obtain st' where st': "setup_ether_socket env netif data s2 = (0, st')" "e_netif_fd st' = fd"
    "e_fds st' = snd (add_fd_event (e_fds s2) fd EVT_FD_RD (ee_rx_cb env) data rx)"
    "e_mem st' = e_mem s2" "e_nodes st' = e_nodes s2" "e_free_nodes st' = e_free_nodes s2" "e_objs st' = e_objs s2"
    "e_allocs st' = rest"
    by (rule socket_ready) (use mem(5) in \<open>simp_all add: s2_def\<close>)
  ultimately have d: "snd (lininoio_ether_init env netif s1) = st'" by simp
  have fd: "0 \<le> fd" "fd < 1024"
    using assms(2) by (simp_all add: boot_network_def)
  have f2: "e_fds s2 = f1"
    by (simp add: s2_def s1_def)
  have "rx \<notin> set [a]" "fe_list rx \<noteq> fe_head f1 EVT_FD_RD"
    using mem(6) head(2) base1 by auto
  note add2 = add_fd_event_spec[OF rep1 t mem(5) this fd, of "ee_rx_cb env" data]
  note lists = node_lists[OF mem(1,2,7) refl, of "e_mem s1"]
  have "e_mem st' = fold (\<lambda>l m. list_add_tail m l data) (map n_list ns)
      (INIT_LIST_HEAD (INIT_LIST_HEAD (e_mem s1) (data + 16)) data)" "e_free_nodes st' = data"
    "e_nodes st' = data + 16" "\<forall>n \<in> set ns. e_objs st' n = Some empty_node"
    using st' by (simp_all add: s2_def)
  moreover have "fe_base (e_fds st') = fe_base (e_fds st)"
    using st'(3) f2 rep0(2) by (simp add: f1_def add_fd_event_def)
  ultimately show ?thesis
    unfolding init using lists add2 obj1 mem(6) st'(2,3,8) f2 by (simp add: d)
qed

section \<open>Properties\<close>

text \<open>
  C19: with enough memory and a usable interface the daemon enters its loop with seven free
  nodes and no associated one, its socket, and two read events, of the device monitor and of
  the socket, with their callbacks.
\<close>

theorem etherd_init_ready:
  assumes "boot_memory st a data ns rx" "boot_network st netif fd" "0 \<le> udev_fd" "udev_fd < 1024"
  shows "\<exists>d. etherd_init env netif True udev_fd mon True st w = Inr d \<and>
    e_free_nodes (d_ether d) = data \<and> e_nodes (d_ether d) = data + 16 \<and>
    dll (e_mem (d_ether d)) data (map n_list ns) \<and> dll (e_mem (d_ether d)) (data + 16) [] \<and>
    (\<forall>n \<in> set ns. e_objs (d_ether d) n = Some empty_node) \<and> e_netif_fd (d_ether d) = fd \<and>
    fe_rep (e_fds (d_ether d)) EVT_FD_RD [a, rx] \<and>
    fe_objs (e_fds (d_ether d)) a = Some \<lparr>fe_fd = udev_fd, fe_cb = ee_udev_cb env, fe_data = mon\<rparr> \<and>
    fe_objs (e_fds (d_ether d)) rx = Some \<lparr>fe_fd = fd, fe_cb = ee_rx_cb env, fe_data = data\<rparr>"
proof -
  obtain rest where "e_allocs st = a # data # ns @ rx # rest"
    using assms(1) by (auto simp: boot_memory_def)
  from etherd_init_state[OF assms this, of env mon w] show ?thesis
    by (elim exE conjE) (intro exI conjI; assumption)
qed

definition boot_ether :: ether where
  "boot_ether = cold_ether\<lparr>e_allocs := [1, 2, 30, 31, 32, 33, 34, 35, 36, 40], e_sys := [5, 0, 0]\<rparr>"

lemma boot_ether_ok:
  "boot_memory boot_ether 1 2 [30, 31, 32, 33, 34, 35, 36] 40" "boot_network boot_ether ''wlan0'' 5"
  by (simp_all add: boot_memory_def boot_network_def boot_ether_def cold_ether_def fd_events_init_def
      n_list_def fe_list_def IFNAMSIZ_def)

text \<open>The start always succeeds there, in any environment.\<close>

lemma boot_ether_starts:
  "\<exists>d. etherd_init env ''wlan0'' True 4 60 True boot_ether w = Inr d"
proof -
  have "e_allocs boot_ether = 1 # 2 # [30, 31, 32, 33, 34, 35, 36] @ 40 # []"
    by (simp add: boot_ether_def)
  from etherd_init_state[OF boot_ether_ok _ _ this, of 4 env 60 w] show ?thesis by auto
qed

theorem etherd_init_ready_witness:
  "\<exists>d. etherd_init null_env ''wlan0'' True 4 60 True boot_ether () = Inr d \<and>
    dll (e_mem (d_ether d)) 2 (map n_list [30, 31, 32, 33, 34, 35, 36]) \<and>
    fe_rep (e_fds (d_ether d)) EVT_FD_RD [1, 40]"
proof -
  have "boot_memory boot_ether 1 2 [30, 31, 32, 33, 34, 35, 36] 40"
    by (rule boot_ether_ok)
  moreover have "boot_network boot_ether ''wlan0'' 5"
    by (rule boot_ether_ok)
  ultimately show ?thesis
    using etherd_init_ready[of boot_ether 1 2 "[30, 31, 32, 33, 34, 35, 36]" 40 "''wlan0''" 5 4 null_env 60 "()"]
    by auto
qed


text \<open>
  What \<open>lininoio_ether_init\<close> returns is not looked at: with an interface name that is too
  long, and whatever else works, the daemon enters its loop all the same, without a socket and
  with no event but the device monitor's.
\<close>

lemma etherd_init_unchecked:
  assumes "boot_memory st a data ns rx" "IFNAMSIZ \<le> length netif" "0 \<le> udev_fd" "udev_fd < 1024"
  shows "\<exists>d. etherd_init env netif True udev_fd mon True st w = Inr d \<and>
    e_netif_fd (d_ether d) = 0 \<and> e_rx_event (d_ether d) = 0 \<and> e_log (d_ether d) = e_log st \<and>
    fe_rep (e_fds (d_ether d)) EVT_FD_RD [a]"
proof -
  obtain rest where al: "e_allocs st = a # data # ns @ rx # rest"
    using assms(1) by (auto simp: boot_memory_def)
  have mem: "length ns = 7" "0 \<notin> set (data # ns)" "a \<noteq> 0" "fe_list a \<noteq> fe_base (e_fds st)"
    using assms(1) by (auto simp: boot_memory_def)
  define f0 where "f0 = snd (fd_events_init (e_fds st))"
  define f1 where "f1 = snd (add_fd_event f0 udev_fd EVT_FD_RD (ee_udev_cb env) mon a)"
  have rep0: "fe_rep f0 EVT_FD_RD []" "fe_base f0 = fe_base (e_fds st)"
    using fd_events_init_rep[of 0] by (simp_all add: f0_def fd_events_init_def EVT_FD_RD_def)
  then have "fe_list a \<noteq> fe_head f0 EVT_FD_RD" "EVT_FD_RD < 3"
    using mem(4) by (simp_all add: fe_head_def EVT_FD_RD_def)
  then have rep1: "fe_rep f1 EVT_FD_RD [a]"
    using add_fd_event_spec(2)[OF rep0(1) _ mem(3) _ _ assms(3,4)] by (simp add: f1_def)
  define s1 where "s1 = st\<lparr>e_allocs := data # ns @ rx # rest, e_fds := f1,
    e_timeouts := snd (timeouts_init (e_timeouts st)),
    e_udev := (e_udev st)\<lparr>ue_mem := INIT_LIST_HEAD (ue_mem (e_udev st)) (ue_head (e_udev st))\<rparr>,
    e_ops := Some (replicate (2 ^ 13) 0)\<rparr>"
  have init: "etherd_init env netif True udev_fd mon True st w = Inr \<lparr>d_buf = replicate 1024 0,
      d_ether = snd (lininoio_ether_init env netif s1), d_w = w, d_recv = [], d_devs = []\<rparr>"
    using al by (simp add: etherd_init_def e_malloc_def udev_events_init_def lininoio_init_def
        fd_events_init_def timeouts_init_def s1_def f1_def f0_def Let_def)
  have al1: "e_allocs s1 = data # ns @ (rx # rest)"
    by (simp add: s1_def)
  show ?thesis
    unfolding init using rep1 assms(2)
    by (simp add: ether_init_nodes[OF al1 mem(1,2)] setup_ether_socket_def) (simp add: s1_def)
qed

lemma etherd_init_unchecked_witness:
  "\<exists>d. etherd_init null_env ''wlan0wlan0wlan0wlan0'' True 4 60 True boot_ether () = Inr d \<and>
    e_netif_fd (d_ether d) = 0 \<and> fe_rep (e_fds (d_ether d)) EVT_FD_RD [1]"
proof -
  have "boot_memory boot_ether 1 2 [30, 31, 32, 33, 34, 35, 36] 40"
    by (rule boot_ether_ok)
  then show ?thesis
    using etherd_init_unchecked[of boot_ether 1 2 "[30, 31, 32, 33, 34, 35, 36]" 40 "''wlan0wlan0wlan0wlan0''" 4 null_env 60 "()"]
    by (auto simp: IFNAMSIZ_def)
qed

text \<open>
  C11: the daemon never delivers data. In every state it reaches from its start, by any rounds
  with any packets, devices and timeouts, no node has a channel in its table: a data packet
  changes nothing, so it neither reaches a protocol handler nor puts off the death of its node,
  whichever node and channel it is for; and when a node dies, no handler is told and no channel
  is freed.
\<close>

theorem etherd_data_never_delivered:
  assumes "etherd_init env netif udev udev_fd mon table st w = Inr d0" "e_objs st = Map.empty"
    and "etherd_reach env d0 d"
  shows "(ether_data_packet env mac packet (d_ether d) v = Some (st1, v1) \<longrightarrow> st1 = d_ether d \<and> v1 = v) \<and>
    (kill_node env n (d_ether d) v = Some (st2, v2) \<longrightarrow> v2 = v \<and> e_chans st2 = e_chans (d_ether d) \<and>
       e_log st2 = e_log (d_ether d))"
proof -
  have "chans_empty st"
    using assms(2) by (simp add: chans_empty_def)
  then have e: "chans_empty (d_ether d)"
    using silent.reach_keeps[OF assms(3)] empty_etherd_init[OF assms(1)] by simp
  have "kill_channels env (replicate LININOIO_MAX_NCHANNELS 0) s x = Some (s, x)" for s x
    by (simp add: LININOIO_MAX_NCHANNELS_def numeral_eq_Suc)
  then have k: "kill_node env n (d_ether d) v = Some (st2, v2) \<Longrightarrow>
      v2 = v \<and> e_chans st2 = e_chans (d_ether d) \<and> e_log st2 = e_log (d_ether d)"
    using e by (auto simp: kill_node_def kill_remoteprocs_def bind_eq_Some_conv chans_empty_def Let_def)
  show ?thesis
    using chans_empty_data[OF e, of env mac packet v st1 v1] k by blast
qed

text \<open>The daemon at the start of its loop.\<close>

definition boot_daemon :: "unit daemon" where
  "boot_daemon = (case etherd_init null_env ''wlan0'' True 4 60 True boot_ether () of
     Inr d \<Rightarrow> d | Inl _ \<Rightarrow> \<lparr>d_buf = [], d_ether = boot_ether, d_w = (), d_recv = [], d_devs = []\<rparr>)"

theorem etherd_data_never_delivered_witness:
  "\<exists>st1. ether_data_packet null_env (sll_addr first_slave) [3, 1, 0] (d_ether boot_daemon) () = Some (st1, ()) \<and>
    st1 = d_ether boot_daemon"
proof -
  have "boot_memory boot_ether 1 2 [30, 31, 32, 33, 34, 35, 36] 40"
    by (rule boot_ether_ok)
  moreover have "boot_network boot_ether ''wlan0'' 5"
    by (rule boot_ether_ok)
  ultimately obtain d where d: "etherd_init null_env ''wlan0'' True 4 60 True boot_ether () = Inr d"
    "e_nodes (d_ether d) = 18" "dll (e_mem (d_ether d)) 18 []"
    using etherd_init_ready[of boot_ether 1 2 "[30, 31, 32, 33, 34, 35, 36]" 40 "''wlan0''" 5 4 null_env 60 "()"]
    by auto
  then have b: "boot_daemon = d"
    by (simp add: boot_daemon_def)
  have "mac_to_node (d_ether d) (sll_addr first_slave) = Some 0"
    using dll_find_entry[OF d(3)] d(2) by (simp add: mac_to_node_def)
  moreover have "data_cdlen [3, 1, 0] = Some 1"
    by code_simp
  ultimately obtain st1 where r: "ether_data_packet null_env (sll_addr first_slave) [3, 1, 0] (d_ether d) () = Some (st1, ())"
    by (simp add: ether_data_packet_def Let_def)
  have "e_objs boot_ether = Map.empty"
    by (simp add: boot_ether_def cold_ether_def)
  from etherd_data_never_delivered[OF d(1) this etherd_reach.start] r show ?thesis
    unfolding b by blast
qed

end
