(* ===== verification/Etherd_Watch.thy ===== *)
theory Etherd_Watch
  imports Etherd_Init
begin

text \<open>
  The events of the daemon only grow: what the transport does to the list of the descriptors it
  watches and to the allocator, and that the daemon never stops listening.
\<close>

section \<open>Growth\<close>

text \<open>
  The events and the allocator, and the two things that happen to them: a block is allocated for
  something else, or for an event that is added to the ones to be read.
\<close>

definition ev_view :: "ether \<Rightarrow> fd_events \<times> addr list" where
  "ev_view st = (e_fds st, e_allocs st)"

inductive ev_grow :: "fd_events \<times> addr list \<Rightarrow> fd_events \<times> addr list \<Rightarrow> bool" for v where
  refl: "ev_grow v v"
| alloc: "ev_grow v (fes, as) \<Longrightarrow> ev_grow v (fes, snd (malloc as))"
| event: "ev_grow v (fes, as) \<Longrightarrow>
    ev_grow v (snd (add_fd_event fes fd EVT_FD_RD cb data (fst (malloc as))), snd (malloc as))"

lemma ev_view_update [simp]:
  "ev_view (b\<lparr>e_log := x1\<rparr>) = ev_view b"
  "ev_view (b\<lparr>e_sys := x2\<rparr>) = ev_view b"
  "ev_view (b\<lparr>e_objs := x3\<rparr>) = ev_view b"
  "ev_view (b\<lparr>e_mem := x4\<rparr>) = ev_view b"
  "ev_view (b\<lparr>e_udev := x5\<rparr>) = ev_view b"
  "ev_view (b\<lparr>e_cores := x6\<rparr>) = ev_view b"
  "ev_view (b\<lparr>e_chans := x7\<rparr>) = ev_view b"
  "ev_view (b\<lparr>e_vbes := x8\<rparr>) = ev_view b"
  "ev_view (b\<lparr>e_timeouts := x9\<rparr>) = ev_view b"
  "ev_view (b\<lparr>e_ops := x10\<rparr>) = ev_view b"
  by (simp_all add: ev_view_def)

lemma ev_syscall [simp]:
  "ev_view (snd (syscall c st)) = ev_view st" "ev_view (syscall0 c st) = ev_view st"
  by (simp_all add: syscall_def syscall0_def split: list.splits)

lemma ev_malloc [simp]: "ev_grow v (ev_view st) \<Longrightarrow> ev_grow v (ev_view (snd (e_malloc st)))"
  by (auto simp: ev_view_def e_malloc_def split: prod.splits dest: ev_grow.alloc)

lemma ev_event:
  assumes "ev_grow v (ev_view st)"
  shows "ev_grow v (ev_view ((snd (e_malloc st))\<lparr>e_fds :=
    snd (add_fd_event (e_fds (snd (e_malloc st))) fd EVT_FD_RD cb data (fst (e_malloc st)))\<rparr>))"
  using ev_grow.event[of v "e_fds st" "e_allocs st" fd cb data] assms
  by (simp add: ev_view_def e_malloc_def case_prod_unfold Let_def)

lemma ev_upd:
  "upd_node n f st = Some st' \<Longrightarrow> ev_view st' = ev_view st"
  "upd_core c g st = Some st' \<Longrightarrow> ev_view st' = ev_view st"
  "upd_pd c h st = Some st' \<Longrightarrow> ev_view st' = ev_view st"
  by (auto simp: upd_node_def upd_core_def upd_pd_def bind_eq_Some_conv)

lemma ev_assign [simp]:
  "ev_grow v (ev_view st) \<Longrightarrow> ev_grow v (ev_view (snd (assign_fd_evt fd cb c st)))"
  by (auto simp: assign_fd_evt_def case_prod_unfold Let_def intro: ev_event)

lemma ev_err [simp]:
  "ev_view (rproc_err0 fd st) = ev_view st" "ev_view (rproc_err1 p fd st) = ev_view st"
  "ev_view (rproc_err2 nm p fd st) = ev_view st"
  by (simp_all add: rproc_err0_def rproc_err1_def rproc_err2_def)

text \<open>What an operation does to the view is growth, from whatever came before.\<close>

definition grows :: "ether \<Rightarrow> ether \<Rightarrow> bool" where
  "grows st st' \<longleftrightarrow> (\<forall>v. ev_grow v (ev_view st) \<longrightarrow> ev_grow v (ev_view st'))"

lemma ev_fw: "setup_remoteproc_fw env c st w = Some (r, nm, st') \<Longrightarrow> grows st st'"
  unfolding setup_remoteproc_fw_def
  by (auto simp: grows_def bind_eq_Some_conv Let_def case_prod_unfold split: if_splits)

lemma ev_fill_pd: "fill_pd env c nm st = Some st' \<Longrightarrow> grows st st'"
  unfolding fill_pd_def
  by (auto simp: grows_def bind_eq_Some_conv Let_def case_prod_unfold dest!: ev_upd)

lemma ev_setup_remoteproc: "setup_remoteproc env c st w = Some st' \<Longrightarrow> grows st st'"
  unfolding setup_remoteproc_def
  by (auto simp: grows_def bind_eq_Some_conv Let_def case_prod_unfold split: if_splits
      dest!: ev_fw[unfolded grows_def] ev_fill_pd[unfolded grows_def])

lemma ev_setup_cores: "setup_cores env cs st w = Some st' \<Longrightarrow> grows st st'"
proof (induction cs arbitrary: st)
  case (Cons c cs)
  then show ?case
    by (fastforce simp: grows_def bind_eq_Some_conv split: if_splits dest!: ev_setup_remoteproc)
qed (simp add: grows_def)

lemma ev_setup_remoteprocs: "setup_remoteprocs env n st w = Some (r, st') \<Longrightarrow> grows st st'"
  by (auto simp: setup_remoteprocs_def bind_eq_Some_conv dest: ev_setup_cores)

lemma ev_get_core: "get_core env n i st = Some (c, st') \<Longrightarrow> grows st st'"
  unfolding get_core_def
  by (auto simp: grows_def bind_eq_Some_conv Let_def case_prod_unfold split: if_splits dest!: ev_upd)

lemma ev_new_channel: "new_channel env n i d st = Some (c, st') \<Longrightarrow> grows st st'"
  unfolding new_channel_def
  by (auto simp: grows_def bind_eq_Some_conv Let_def case_prod_unfold split: if_splits
      dest!: ev_get_core[unfolded grows_def])

lemma ev_arequest_loop: "arequest_loop env n buf i k st w = Some (r, st', w') \<Longrightarrow> grows st st'"
proof (induction k arbitrary: i st w)
  case (Suc k)
  from Suc.prems obtain d c st1 st3 where s: "new_channel env n i d st = Some (c, st1)"
    "ev_view st3 = ev_view st1" "st' = st3 \<or> grows st3 st'"
    by (auto simp: bind_eq_Some_conv Let_def split: if_splits prod.splits dest!: Suc.IH) (use ev_view_update in metis)+
  then show ?case
    using ev_new_channel[OF s(1)] by (auto simp: grows_def)
qed (simp add: grows_def)

lemma ev_areply: "ether_send_areply n s st = Some (r, st') \<Longrightarrow> grows st st'"
  unfolding ether_send_areply_def
  by (auto simp: grows_def bind_eq_Some_conv Let_def case_prod_unfold split: if_splits)

lemma ev_schedule: "e_schedule env n st = Some (t, st') \<Longrightarrow> grows st st'"
  by (auto simp: grows_def e_schedule_def bind_eq_Some_conv Let_def case_prod_unfold)

lemma ev_cancel: "e_cancel t st = Some st' \<Longrightarrow> ev_view st' = ev_view st"
  by (auto simp: e_cancel_def bind_eq_Some_conv)

lemma ev_kill_channels: "kill_channels env cs st w = Some (st', w') \<Longrightarrow> ev_view st' = ev_view st"
proof (induction cs arbitrary: st w)
  case (Cons c cs)
  from Cons.prems show ?case
    by (auto simp: bind_eq_Some_conv split: if_splits option.splits dest!: Cons.IH)
qed simp

lemma ev_kill_node: "kill_node env n st w = Some (st', w') \<Longrightarrow> ev_view st' = ev_view st"
  by (auto simp: kill_node_def kill_remoteprocs_def bind_eq_Some_conv dest!: ev_kill_channels)

lemma ev_get_node: "get_node st from = Some (n, st') \<Longrightarrow> ev_view st' = ev_view st"
  by (auto simp: get_node_def Let_def bind_eq_Some_conv split: if_splits)

lemma ev_associate: "associate env from buf n st = Some st' \<Longrightarrow> grows st st'"
  unfolding associate_def
  by (auto simp: grows_def bind_eq_Some_conv Let_def dest!: ev_upd ev_schedule[unfolded grows_def])

lemma ev_arequest:
  assumes "ether_rx_arequest env from buf st w = Some (st', w')"
  shows "grows st st'"
  using assms
proof (cases rule: arequest_run)
  case (node nch n st1 st2 stat1 st3 w1 stat st4 r st5)
  have "grows st3 st4"
    using node(8) by (auto simp: grows_def split: if_splits dest!: ev_setup_remoteprocs)
  moreover have "ev_view st' = ev_view st5"
    using node(10) by (auto simp: bind_eq_Some_conv split: if_splits dest!: ev_cancel ev_kill_node)
  ultimately show ?thesis
    using ev_associate[OF node(6)] ev_arequest_loop[OF node(7)] ev_areply[OF node(9)] ev_get_node[OF node(4)]
    by (simp add: grows_def)
qed (auto simp: grows_def dest: ev_get_node ev_areply)

lemma ev_data: "ether_data_packet env mac buf st w = Some (st', w') \<Longrightarrow> grows st st'"
  unfolding ether_data_packet_def
  by (auto simp: grows_def bind_eq_Some_conv Let_def split: if_splits option.splits
      dest!: ev_upd ev_cancel ev_schedule[unfolded grows_def])

lemma ev_rx: "ether_rx env received buf st w = Some (buf', st', w') \<Longrightarrow> grows st st'"
  by (auto simp: grows_def ether_rx_def ether_rx_cb_def Let_def bind_eq_Some_conv
      split: option.splits prod.splits if_splits dest!: ev_data[unfolded grows_def] ev_arequest[unfolded grows_def])

lemma ev_match_backend: "match_backend v st = Some st' \<Longrightarrow> ev_view st' = ev_view st"
  by (auto simp: match_backend_def bind_eq_Some_conv Let_def)

lemma ev_backend_add: "virtio_backend_add env dev p c st = Some st' \<Longrightarrow> grows st st'"
  unfolding virtio_backend_add_def
  by (auto simp: grows_def bind_eq_Some_conv Let_def case_prod_unfold ev_event split: if_splits option.splits)
    (drule ev_match_backend, simp add: ev_event)+

text \<open>Whatever a state of the daemon has grown from, every later state has.\<close>

interpretation growing: transport_invariant env "\<lambda>st _. ev_grow v (ev_view st)" for env :: "'w ether_env" and v
  by unfold_locales
    (auto dest!: ev_rx[unfolded grows_def] ev_kill_node ev_backend_add[unfolded grows_def])

section \<open>Listening\<close>

text \<open>
  The events \<open>xs\<close>, in this order and as they are in \<open>evs\<close>, are the first of the ones to be
  read; the blocks the allocator has left are apart from the events and from each other.
\<close>

definition listening :: "addr list \<Rightarrow> (addr \<Rightarrow> fd_event option) \<Rightarrow> fd_events \<times> addr list \<Rightarrow> bool" where
  "listening xs evs v \<longleftrightarrow> (\<exists>ys.
     dll (fe_mem (fst v)) (fe_head (fst v) EVT_FD_RD) (map fe_list (xs @ ys)) \<and>
     (\<forall>x \<in> set xs. fe_objs (fst v) x = evs x \<and> evs x \<noteq> None) \<and>
     distinct (filter (\<lambda>a. a \<noteq> 0) (snd v)) \<and>
     (\<forall>a \<in> set (snd v). a \<noteq> 0 \<longrightarrow> a \<notin> set (xs @ ys) \<and> fe_list a \<noteq> fe_head (fst v) EVT_FD_RD))"

lemma listening_alloc: "listening xs evs (fes, as) \<Longrightarrow> listening xs evs (fes, snd (malloc as))"
  by (cases as) (auto simp: listening_def malloc_def split: if_splits)

lemma listening_event:
  assumes "listening xs evs (fes, as)"
  shows "listening xs evs (snd (add_fd_event fes fd EVT_FD_RD cb data (fst (malloc as))), snd (malloc as))"
proof (cases "fst (malloc as) = 0")
  case True
  then show ?thesis
    using listening_alloc[OF assms] by (simp add: add_fd_event_def)
next
  case False
  then obtain a as' where as: "as = a # as'" "a \<noteq> 0"
    by (cases as) (auto simp: malloc_def)
  obtain ys where ys: "dll (fe_mem fes) (fe_head fes EVT_FD_RD) (map fe_list (xs @ ys))"
    "\<forall>x \<in> set xs. fe_objs fes x = evs x \<and> evs x \<noteq> None" "distinct (filter (\<lambda>a. a \<noteq> 0) as)"
    "\<forall>a \<in> set as. a \<noteq> 0 \<longrightarrow> a \<notin> set (xs @ ys) \<and> fe_list a \<noteq> fe_head fes EVT_FD_RD"
    using assms by (auto simp: listening_def)
  have "fe_list a \<notin> set (fe_head fes EVT_FD_RD # map fe_list (xs @ ys))"
    using ys(4) as by auto
  from dll_list_add_tail[OF ys(1) this]
  have "dll (list_add_tail (fe_mem fes) (fe_list a) (fe_head fes EVT_FD_RD)) (fe_head fes EVT_FD_RD)
      (map fe_list (xs @ ys @ [a]))" by simp
  then show ?thesis
    using ys as unfolding listening_def
    by (intro exI[of _ "ys @ [a]"]) (auto simp: add_fd_event_def malloc_def fe_head_def EVT_FD_RD_def)
qed

lemma listening_grow: "ev_grow v v' \<Longrightarrow> listening xs evs v \<Longrightarrow> listening xs evs v'"
  by (induction rule: ev_grow.induct) (simp_all add: listening_alloc listening_event)

text \<open>
  The list of all the events to be read, with what the allocator has left: the daemon's
  callbacks keep them and add to the end.
\<close>

definition reading :: "addr list \<Rightarrow> fd_events \<times> addr list \<Rightarrow> bool" where
  "reading xs v \<longleftrightarrow>
     dll (fe_mem (fst v)) (fe_head (fst v) EVT_FD_RD) (map fe_list xs) \<and>
     distinct (filter (\<lambda>a. a \<noteq> 0) (snd v)) \<and>
     (\<forall>a \<in> set (snd v). a \<noteq> 0 \<longrightarrow> a \<notin> set xs \<and> fe_list a \<noteq> fe_head (fst v) EVT_FD_RD)"

lemma reading_alloc: "reading xs (fes, as) \<Longrightarrow> reading xs (fes, snd (malloc as))"
  by (cases as) (auto simp: reading_def malloc_def split: if_splits)

lemma reading_event:
  assumes "reading xs (fes, as)" "a = fst (malloc as)" "fes' = snd (add_fd_event fes fd EVT_FD_RD cb data a)"
  shows "\<exists>us. reading (xs @ us) (fes', snd (malloc as)) \<and> fe_base fes' = fe_base fes \<and>
    (\<forall>x \<in> set xs. fe_objs fes' x = fe_objs fes x)"
proof (cases "a = 0")
  case True
  then show ?thesis
    using reading_alloc[OF assms(1)] assms(3) by (intro exI[of _ "[]"]) (simp add: add_fd_event_def)
next
  case False
  then obtain as' where as: "as = a # as'"
    using assms(2) by (cases as) (auto simp: malloc_def)
  have "fe_list a \<notin> set (fe_head fes EVT_FD_RD # map fe_list xs)" "a \<notin> set xs"
    using assms(1) as False by (auto simp: reading_def)
  moreover have fes': "fe_mem fes' = list_add_tail (fe_mem fes) (fe_list a) (fe_head fes EVT_FD_RD)"
    "fe_base fes' = fe_base fes" "fe_objs fes' = (fe_objs fes)(a \<mapsto> \<lparr>fe_fd = fd, fe_cb = cb, fe_data = data\<rparr>)"
    using False by (simp_all add: assms(3) add_fd_event_def)
  ultimately have "dll (fe_mem fes') (fe_head fes' EVT_FD_RD) (map fe_list (xs @ [a]))"
    using dll_list_add_tail[of "fe_mem fes" "fe_head fes EVT_FD_RD" "map fe_list xs" "fe_list a"] assms(1)
    by (simp add: reading_def fe_head_def)
  moreover have "snd (malloc as) = as'" "a \<notin> set as'"
    using assms(1) False by (auto simp: as malloc_def reading_def)
  ultimately have "reading (xs @ [a]) (fes', snd (malloc as))"
    using assms(1) False by (auto simp: reading_def as fe_head_def fes'(2))
  then show ?thesis
    using \<open>a \<notin> set xs\<close> fes' by (intro exI[of _ "[a]"]) auto
qed

lemma reading_grow:
  assumes "ev_grow v v'" "reading xs v"
  shows "\<exists>us. reading (xs @ us) v' \<and> fe_base (fst v') = fe_base (fst v) \<and>
    (\<forall>x \<in> set xs. fe_objs (fst v') x = fe_objs (fst v) x)"
  using assms
proof (induction rule: ev_grow.induct)
  case refl
  then show ?case by (intro exI[of _ "[]"]) simp
next
  case (alloc fes as)
  then show ?case using reading_alloc by fastforce
next
  case (event fes as fd cb data)
  then obtain us where us: "reading (xs @ us) (fes, as)" "fe_base fes = fe_base (fst v)"
    "\<forall>x \<in> set xs. fe_objs fes x = fe_objs (fst v) x" by auto
  from reading_event[OF this(1) HOL.refl HOL.refl, of fd cb data] us(2,3) show ?case
    by (metis append.assoc fst_conv in_set_conv_decomp append_Cons UnCI set_append)
qed

definition daemon_reading :: "addr list \<Rightarrow> fd_events \<times> 'w daemon \<Rightarrow> bool" where
  "daemon_reading xs sw \<longleftrightarrow> reading xs (fst sw, e_allocs (d_ether (snd sw)))"

lemma etherd_callbacks_append: "appends_events (fd_event_cb env) daemon_reading"
  unfolding appends_events_def
proof (intro conjI allI impI)
  fix xs and sw :: "fd_events \<times> 'w daemon"
  assume "daemon_reading xs sw"
  then show "dll (fe_mem (fst sw)) (fe_head (fst sw) EVT_FD_RD) (map fe_list xs)"
    by (simp add: daemon_reading_def reading_def)
next
  fix cb data xs and sw sw' :: "fd_events \<times> 'a daemon"
  assume c: "fd_event_cb env cb data sw = Some sw'" and I: "daemon_reading xs sw"
  have "ev_grow (fst sw, e_allocs (d_ether (snd sw))) (fst sw', e_allocs (d_ether (snd sw')))"
    using growing.fds.call_keeps[OF c, of "(fst sw, e_allocs (d_ether (snd sw)))"] ev_grow.refl
    by (simp add: ev_view_def)
  from reading_grow[OF this] I
  show "fe_base (fst sw') = fe_base (fst sw)" "\<forall>x \<in> set xs. fe_objs (fst sw') x = fe_objs (fst sw) x"
    "\<exists>us. daemon_reading (xs @ us) sw'"
    by (auto simp: daemon_reading_def)
qed

lemma prepare_collects:
  assumes "linked (fe_mem st) p (map fe_list xs) head" "head \<notin> fe_list ` set xs"
    and "do_prepare_fd_events st (Some s) head (next_of (fe_mem st) p) m = Some (r, m')"
  shows "\<exists>S. r = Some S \<and> s \<subseteq> S \<and> fd_of st ` set xs \<subseteq> S"
  using assms
proof (induction xs arbitrary: p s m)
  case Nil
  then show ?case by (auto simp: do_prepare_fd_events.simps)
next
  case (Cons x xs)
  have ne: "fe_list x \<noteq> head" "next_of (fe_mem st) p = fe_list x"
    using Cons.prems(1,2) by auto
  then obtain e where e: "fe_objs st x = Some e"
    using Cons.prems(3) by (subst (asm) do_prepare_fd_events.simps) (auto simp: bind_eq_Some_conv)
  obtain m1 where "do_prepare_fd_events st (Some (insert (fe_fd e) s)) head (next_of (fe_mem st) (fe_list x)) m1 = Some (r, m')"
    using Cons.prems(3) ne e
    by (subst (asm) do_prepare_fd_events.simps) (auto simp: Let_def bind_eq_Some_conv FD_SET_def split: if_splits)
  then obtain S where "r = Some S" "insert (fe_fd e) s \<subseteq> S" "fd_of st ` set xs \<subseteq> S"
    using Cons.IH[of "fe_list x"] Cons.prems(1,2) by force
  then show ?case
    using e by (auto simp: fd_of_def)
qed

section \<open>Properties\<close>

text \<open>
  C12: the daemon never stops listening. If its start succeeds and the allocator gives blocks
  that are apart, then in every state it reaches the events of the device monitor and of the
  socket are the first of those to be read, with their descriptors and callbacks, and every
  round watches both descriptors: no packet, device or timeout removes them.
\<close>

theorem etherd_keeps_listening:
  assumes "boot_memory st a data ns rx" "boot_network st netif fd" "0 \<le> udev_fd" "udev_fd < 1024"
    and "distinct (filter (\<lambda>x. x \<noteq> 0) (e_allocs st))"
    and "\<forall>x \<in> set (e_allocs st). x \<noteq> 0 \<longrightarrow> fe_list x \<noteq> fe_base (e_fds st)"
    and "etherd_init env netif True udev_fd mon True st w = Inr d0" "etherd_reach env d0 d"
  shows "\<exists>ys. dll (fe_mem (e_fds (d_ether d))) (fe_head (e_fds (d_ether d)) EVT_FD_RD) (map fe_list (a # rx # ys)) \<and>
    fe_objs (e_fds (d_ether d)) a = Some \<lparr>fe_fd = udev_fd, fe_cb = ee_udev_cb env, fe_data = mon\<rparr> \<and>
    fe_objs (e_fds (d_ether d)) rx = Some \<lparr>fe_fd = fd, fe_cb = ee_rx_cb env, fe_data = data\<rparr> \<and>
    (\<forall>r. prepare_fd_events (e_fds (d_ether d)) (Some {}) None None = Some r \<longrightarrow>
       (\<exists>S. fst r = Some S \<and> {udev_fd, fd} \<subseteq> S))"
proof -
  let ?v = "\<lambda>d :: 'a daemon. ev_view (d_ether d)" and ?f = "e_fds (d_ether d)"
  obtain rest where al: "e_allocs st = a # data # ns @ rx # rest"
    using assms(1) by (auto simp: boot_memory_def)
  define evs where "evs = Map.empty(a \<mapsto> \<lparr>fe_fd = udev_fd, fe_cb = ee_udev_cb env, fe_data = mon\<rparr>,
    rx \<mapsto> \<lparr>fe_fd = fd, fe_cb = ee_rx_cb env, fe_data = data\<rparr>)"
  have ne: "a \<noteq> rx" "a \<noteq> 0" "rx \<noteq> 0"
    using assms(1) by (auto simp: boot_memory_def)
  have "listening [a, rx] evs (?v d0)"
  proof -
    have d0: "fe_rep (e_fds (d_ether d0)) EVT_FD_RD [a, rx]" "e_allocs (d_ether d0) = rest"
      "fe_objs (e_fds (d_ether d0)) a = evs a" "fe_objs (e_fds (d_ether d0)) rx = evs rx"
      "fe_base (e_fds (d_ether d0)) = fe_base (e_fds st)"
      using etherd_init_state[OF assms(1-4) al, of env mon w] assms(7) ne(1) by (simp_all add: evs_def)
    have "distinct (filter (\<lambda>x. x \<noteq> 0) rest)" "a \<notin> set rest" "rx \<notin> set rest"
      "\<forall>x \<in> set rest. x \<noteq> 0 \<longrightarrow> fe_list x \<noteq> fe_base (e_fds st)"
      using assms(5,6) ne unfolding al by (auto split: if_splits)
    then show ?thesis
      using d0 ne
      by (auto simp: listening_def ev_view_def fe_rep_def evs_def fe_head_def EVT_FD_RD_def intro!: exI[of _ "[]"])
  qed
  moreover have "ev_grow (?v d0) (?v d)"
    using growing.reach_keeps[OF assms(8)] ev_grow.refl by blast
  ultimately have "listening [a, rx] evs (?v d)"
    by (rule listening_grow[rotated])
  then obtain ys where ys: "dll (fe_mem ?f) (fe_head ?f EVT_FD_RD) (map fe_list (a # rx # ys))"
    "fe_objs ?f a = evs a" "fe_objs ?f rx = evs rx"
    by (auto simp: listening_def ev_view_def)
  have "\<exists>S. fst r = Some S \<and> {udev_fd, fd} \<subseteq> S"
    if "prepare_fd_events ?f (Some {}) None None = Some r" for r
  proof -
    note prep = that
    obtain m m' where p: "do_prepare_fd_events ?f (Some {}) (fe_head ?f EVT_FD_RD)
        (next_of (fe_mem ?f) (fe_head ?f EVT_FD_RD)) m = Some (fst r, m')"
      using prep by (auto simp: prepare_fd_events_def bind_eq_Some_conv)
    have "linked (fe_mem ?f) (fe_head ?f EVT_FD_RD) (map fe_list (a # rx # ys)) (fe_head ?f EVT_FD_RD)"
      "fe_head ?f EVT_FD_RD \<notin> fe_list ` set (a # rx # ys)"
      using ys(1) by (auto simp: dll_def)
    from prepare_collects[OF this p] show ?thesis
      using ys(2,3) ne(1) by (auto simp: fd_of_def evs_def)
  qed
  then show ?thesis
    using ys ne(1) by (intro exI[of _ ys]) (auto simp: evs_def)
qed

theorem etherd_keeps_listening_witness:
  "\<exists>ys. dll (fe_mem (e_fds (d_ether boot_daemon))) (fe_head (e_fds (d_ether boot_daemon)) EVT_FD_RD)
      (map fe_list (1 # 40 # ys))"
proof -
  have b: "boot_memory boot_ether 1 2 [30, 31, 32, 33, 34, 35, 36] 40"
    by (rule boot_ether_ok)
  have n: "boot_network boot_ether ''wlan0'' 5"
    by (rule boot_ether_ok)
  have al: "distinct (filter (\<lambda>x. x \<noteq> 0) (e_allocs boot_ether))"
    "\<forall>x \<in> set (e_allocs boot_ether). x \<noteq> 0 \<longrightarrow> fe_list x \<noteq> fe_base (e_fds boot_ether)"
    by (simp_all add: boot_ether_def cold_ether_def fd_events_init_def fe_list_def)
  obtain d where "etherd_init null_env ''wlan0'' True 4 60 True boot_ether () = Inr d"
    using boot_ether_starts by (rule exE)
  then have "etherd_init null_env ''wlan0'' True 4 60 True boot_ether () = Inr boot_daemon"
    by (simp add: boot_daemon_def)
  from etherd_keeps_listening[OF b n _ _ al this etherd_reach.start] show ?thesis
    by auto
qed

end
