(* ===== verification/Etherd_Typing.thy ===== *)
theory Etherd_Typing
  imports Etherd_Init
begin

text \<open>
  The daemon's memory is well typed: whatever the daemon goes through, each address it keeps in
  a structure (the cores of a node, the channels and the node of a core, the core of a backend
  device, the data of a descriptor event) is that of a structure of the right kind, so the
  callbacks that follow the addresses never meet one that is not there.
\<close>

section \<open>Well-typed memory\<close>

definition node_ok :: "ether \<Rightarrow> ether_node \<Rightarrow> bool" where
  "node_ok st en \<longleftrightarrow>
     length (n_cores (en_node en)) = LININOIO_MAX_NCORES \<and>
     set (n_cores (en_node en)) \<subseteq> insert 0 (dom (e_cores st))"

definition core_ok :: "ether \<Rightarrow> lininoio_core \<Rightarrow> bool" where
  "core_ok st co \<longleftrightarrow>
     set (co_channels co) \<subseteq> dom (e_chans st) \<and> co_nchannels co = int (length (co_channels co)) \<and>
     co_node co \<in> dom (e_objs st)"

definition vbe_ok :: "ether \<Rightarrow> virtio_backend \<Rightarrow> bool" where
  "vbe_ok st v \<longleftrightarrow> vbe_core v \<in> dom (e_cores st) \<and> vbe_channel v \<in> insert 0 (dom (e_chans st))"

definition event_ok :: "'w ether_env \<Rightarrow> ether \<Rightarrow> fd_event \<Rightarrow> bool" where
  "event_ok env st e \<longleftrightarrow>
     (fe_cb e = ee_start_cb env \<or> fe_cb e = ee_stop_cb env \<longrightarrow> fe_data e \<in> dom (e_cores st)) \<and>
     (fe_cb e = ee_backend_readable env \<longrightarrow> fe_data e \<in> dom (e_vbes st))"

definition ether_typed :: "'w ether_env \<Rightarrow> ether \<Rightarrow> bool" where
  "ether_typed env st \<longleftrightarrow> chans_empty st \<and>
     (\<forall>en \<in> ran (e_objs st). node_ok st en) \<and>
     (\<forall>co \<in> ran (e_cores st). core_ok st co) \<and>
     (\<forall>v \<in> ran (e_vbes st). vbe_ok st v) \<and>
     (\<forall>e \<in> ran (fe_objs (e_fds st)). event_ok env st e)"

text \<open>The order on memories: what is there stays there.\<close>

definition heap_le :: "ether \<Rightarrow> ether \<Rightarrow> bool" where
  "heap_le st st' \<longleftrightarrow>
     dom (e_objs st) \<subseteq> dom (e_objs st') \<and> dom (e_cores st) \<subseteq> dom (e_cores st') \<and>
     dom (e_chans st) \<subseteq> dom (e_chans st') \<and> dom (e_vbes st) \<subseteq> dom (e_vbes st')"





text \<open>A step that keeps what is there, and the typing.\<close>

definition tstep :: "'w ether_env \<Rightarrow> ether \<Rightarrow> ether \<Rightarrow> bool" where
  "tstep env st st' \<longleftrightarrow> heap_le st st' \<and> (ether_typed env st \<longrightarrow> ether_typed env st')"

lemma tstep_refl [simp]: "tstep env st st"
  by (simp add: tstep_def heap_le_def)



text \<open>The fields the typing is about, and what does not touch them.\<close>

definition typed_view :: "ether \<Rightarrow> (addr \<Rightarrow> ether_node option) \<times> (addr \<Rightarrow> lininoio_core option) \<times>
    (addr \<Rightarrow> lininoio_channel option) \<times> (addr \<Rightarrow> virtio_backend option) \<times> (addr \<Rightarrow> fd_event option)" where
  "typed_view st = (e_objs st, e_cores st, e_chans st, e_vbes st, fe_objs (e_fds st))"


lemma typed_view_updates [simp]:
  "typed_view (st\<lparr>e_log := x1\<rparr>) = typed_view st" "typed_view (st\<lparr>e_sys := x2\<rparr>) = typed_view st"
  "typed_view (st\<lparr>e_allocs := x3\<rparr>) = typed_view st" "typed_view (st\<lparr>e_mem := x4\<rparr>) = typed_view st"
  "typed_view (st\<lparr>e_udev := x5\<rparr>) = typed_view st" "typed_view (st\<lparr>e_timeouts := x6\<rparr>) = typed_view st"
  "typed_view (st\<lparr>e_ops := x7\<rparr>) = typed_view st"
  by (simp_all add: typed_view_def)


section \<open>The transport keeps the memory well typed\<close>





lemma malloc_fields [simp]:
  "e_objs (snd (e_malloc st)) = e_objs st" "e_cores (snd (e_malloc st)) = e_cores st"
  "e_chans (snd (e_malloc st)) = e_chans st" "e_vbes (snd (e_malloc st)) = e_vbes st"
  "e_fds (snd (e_malloc st)) = e_fds st"
  by (simp_all add: e_malloc_def case_prod_unfold Let_def)



lemma assign_cores [simp]: "e_cores (snd (assign_fd_evt fd cb c st)) = e_cores st"
  by (simp add: assign_fd_evt_def e_malloc_def case_prod_unfold Let_def)

lemma syscall_cores [simp]: "e_cores (snd (syscall c st)) = e_cores st"
  by (simp add: syscall_def split: list.splits)











section \<open>Packets, devices and the death of a node\<close>











lemma syscall_fields [simp]:
  "e_objs (snd (syscall c st)) = e_objs st" "e_chans (snd (syscall c st)) = e_chans st"
  "e_vbes (snd (syscall c st)) = e_vbes st" "e_fds (snd (syscall c st)) = e_fds st"
  by (simp_all add: syscall_def split: list.splits)







lemma heap_le_updates [simp]:
  "heap_le s (st\<lparr>e_timeouts := tos\<rparr>) = heap_le s st" "heap_le s (st\<lparr>e_udev := ue\<rparr>) = heap_le s st"
  by (simp_all add: heap_le_def)

lemma typed_updates [simp]:
  "ether_typed env (st\<lparr>e_timeouts := tos\<rparr>) = ether_typed env st"
  "ether_typed env (st\<lparr>e_udev := ue\<rparr>) = ether_typed env st"
  by (simp_all add: ether_typed_def chans_empty_def node_ok_def core_ok_def vbe_ok_def event_ok_def)




section \<open>The initialisation leaves the memory well typed\<close>




lemma typed_view_inits [simp]:
  "typed_view (st\<lparr>e_addr := x1\<rparr>) = typed_view st" "typed_view (st\<lparr>e_netif_fd := x2\<rparr>) = typed_view st"
  "typed_view (st\<lparr>e_rx_event := x3\<rparr>) = typed_view st" "typed_view (st\<lparr>e_nodes := x4\<rparr>) = typed_view st"
  "typed_view (st\<lparr>e_free_nodes := x5\<rparr>) = typed_view st"
  by (simp_all add: typed_view_def)





section \<open>Properties\<close>






end
