(* ===== verification/Etherd_Handlers.thy ===== *)
theory Etherd_Handlers
  imports Etherd_Init
begin

text \<open>
  The protocol handlers in the daemon: the interface between the transport and a handler
  (\<^verbatim>\<open>struct lininoio_proto_ops\<close>), what a handler may rely on and what the daemon keeps of its
  state, and the two handlers of the repository as its instances.
\<close>

section \<open>The interface\<close>

record 'w proto_ops =
  po_connect :: "lininoio_channel \<Rightarrow> 'w \<Rightarrow> (int \<times> lininoio_channel \<times> 'w) option"
  po_inbound :: "lininoio_channel \<Rightarrow> u8 list \<Rightarrow> 'w \<Rightarrow> 'w option"
  po_disconnect :: "lininoio_channel \<Rightarrow> 'w \<Rightarrow> 'w option"

text \<open>The daemon with one handler, its operations at \<open>h\<close>, for the protocol \<open>p\<close>.\<close>

definition with_handler :: "u16 \<Rightarrow> addr \<Rightarrow> 'w proto_ops \<Rightarrow> 'w ether_env \<Rightarrow> 'w ether_env" where
  "with_handler p h ops env = env\<lparr>
     ee_connect := (\<lambda>a. if a = h then Some (po_connect ops) else None),
     ee_inbound := (\<lambda>a. if a = h then Some (po_inbound ops) else None),
     ee_disconnect := (\<lambda>a. if a = h then Some (po_disconnect ops) else None),
     ee_load := (\<lambda>q w. Some (if q = p then Some h else None, w))\<rparr>"

lemma with_handler_ops [simp]:
  "ee_connect (with_handler p h ops env) = (\<lambda>a. if a = h then Some (po_connect ops) else None)"
  "ee_inbound (with_handler p h ops env) = (\<lambda>a. if a = h then Some (po_inbound ops) else None)"
  "ee_disconnect (with_handler p h ops env) = (\<lambda>a. if a = h then Some (po_disconnect ops) else None)"
  "ee_load (with_handler p h ops env) = (\<lambda>q w. Some (if q = p then Some h else None, w))"
  by (simp_all add: with_handler_def)

text \<open>What an association request does to the handlers: its channels connect, then its node may die.\<close>

lemma arequest_run_world:
  assumes "ether_rx_arequest env from buf st w = Some (st', w')"
  obtains (same) "w' = w"
  | (node) n buf' k st2 stat1 st3 w1 st5 where
      "arequest_loop env n buf' 0 k st2 w = Some (stat1, st3, w1)"
      "w' = w1 \<or> kill_node env n st5 w1 = Some (st', w')"
  using assms
proof (cases rule: arequest_run)
  case (node nch n st1 st2 stat1 st3 w1 stat st4 r st5)
  then show thesis
    using that(2)[OF node(7)] by (auto simp: bind_eq_Some_conv split: if_splits)
qed (auto intro: same)

text \<open>
  The contract of a handler: each of its operations keeps its invariant. Then the transport
  keeps it, whatever packets, devices and timeouts come, and so does the daemon.
\<close>

locale proto_handler =
  fixes ops :: "'w proto_ops" and inv :: "'w \<Rightarrow> bool"
  assumes connect_inv: "po_connect ops c w = Some (r, c', w') \<Longrightarrow> inv w \<Longrightarrow> inv w'"
    and inbound_inv: "po_inbound ops c buf w = Some w' \<Longrightarrow> inv w \<Longrightarrow> inv w'"
    and disconnect_inv: "po_disconnect ops c w = Some w' \<Longrightarrow> inv w \<Longrightarrow> inv w'"
begin

lemma kill_channels_inv:
  "kill_channels (with_handler p h ops env) cs st w = Some (st', w') \<Longrightarrow> inv w \<Longrightarrow> inv w'"
proof (induction cs arbitrary: st w)
  case (Cons c cs)
  then show ?case
    by (auto simp: bind_eq_Some_conv split: if_splits dest: disconnect_inv)
qed simp

lemma kill_node_inv:
  "kill_node (with_handler p h ops env) n st w = Some (st', w') \<Longrightarrow> inv w \<Longrightarrow> inv w'"
  by (auto simp: kill_node_def kill_remoteprocs_def bind_eq_Some_conv dest: kill_channels_inv)

lemma find_ops_same:
  "lininoio_find_proto_ops (ee_load (with_handler p h ops env)) q tab w = Some (o1, tab', w') \<Longrightarrow> w' = w"
  by (auto simp: lininoio_find_proto_ops_def bind_eq_Some_conv
      split: option.splits if_splits)

lemma arequest_loop_inv:
  "arequest_loop (with_handler p h ops env) n buf i k st w = Some (r, st', w') \<Longrightarrow> inv w \<Longrightarrow> inv w'"
proof (induction k arbitrary: i st w h)
  case (Suc k)
  from Suc.prems show ?case
    by (auto simp: bind_eq_Some_conv Let_def simp del: with_handler_ops(4) split: if_splits
        dest!: find_ops_same dest: connect_inv Suc.IH)
qed simp

lemma arequest_inv:
  assumes "ether_rx_arequest (with_handler p h ops env) from buf st w = Some (st', w')" "inv w"
  shows "inv w'"
  using assms(1)
proof (cases rule: arequest_run_world)
  case same
  then show ?thesis using assms(2) by simp
next
  case (node n buf' k st2 stat1 st3 w1)
  then show ?thesis
    using arequest_loop_inv[OF node(1) assms(2)] by (auto dest: kill_node_inv)
qed

lemma data_inv:
  "ether_data_packet (with_handler p h ops env) mac buf st w = Some (st', w') \<Longrightarrow> inv w \<Longrightarrow> inv w'"
  unfolding ether_data_packet_def
  by (auto simp: bind_eq_Some_conv Let_def split: if_splits option.splits dest: inbound_inv)

lemma rx_inv:
  "ether_rx (with_handler p h ops env) r buf st w = Some (buf', st', w') \<Longrightarrow> inv w \<Longrightarrow> inv w'"
  by (auto simp: ether_rx_def ether_rx_cb_def Let_def bind_eq_Some_conv
      split: option.splits prod.splits if_splits dest: data_inv arequest_inv)

sublocale daemon: transport_invariant "with_handler p h ops env" "\<lambda>_. inv" for p h env
  by unfold_locales (auto dest: rx_inv kill_node_inv)

end

section \<open>The mcuio handler\<close>

definition mcuio_ops :: "mcuio proto_ops" where
  "mcuio_ops = \<lparr>po_connect = lininoio_mcuio_connect, po_inbound = lininoio_mcuio_inbound_packet,
     po_disconnect = lininoio_mcuio_disconnect\<rparr>"

text \<open>
  The busses of the handler: at most one, which is on the list once there is a connection; the
  blocks the allocator has left are apart from it and from each other.
\<close>

definition mcuio_rep :: "mcuio \<Rightarrow> addr list \<Rightarrow> bool" where
  "mcuio_rep st bs \<longleftrightarrow> length bs \<le> 1 \<and>
     (if mc_connection st then dll (mc_mem st) (mc_busses st) (map mb_list bs) else bs = []) \<and>
     (\<forall>b \<in> set bs. b \<noteq> 0 \<and> mc_objs st b \<noteq> None) \<and> distinct (filter (\<lambda>a. a \<noteq> 0) (mc_allocs st)) \<and>
     (\<forall>a \<in> set (mc_allocs st). a \<noteq> 0 \<longrightarrow> a \<notin> set bs \<and> mb_list a \<noteq> mc_busses st)"

definition mcuio_ok :: "mcuio \<Rightarrow> bool" where
  "mcuio_ok st \<longleftrightarrow> (\<exists>bs. mcuio_rep st bs)"

lemma rep_malloc: "mcuio_rep st bs \<Longrightarrow> mcuio_rep (st\<lparr>mc_allocs := snd (malloc (mc_allocs st))\<rparr>) bs"
  by (cases "mc_allocs st") (auto simp: mcuio_rep_def malloc_def split: if_splits)

lemma rep_objs: "mcuio_rep st bs \<Longrightarrow> mcuio_rep (st\<lparr>mc_objs := (mc_objs st)(b \<mapsto> x)\<rparr>) bs"
  by (auto simp: mcuio_rep_def)

lemma rep_writes [simp]: "mcuio_rep (st\<lparr>mc_writes := x\<rparr>) bs = mcuio_rep st bs"
  by (simp add: mcuio_rep_def)

lemma rep_init:
  "mcuio_rep st bs \<Longrightarrow> \<not> mc_connection st \<Longrightarrow> mcuio_rep (snd (lininoio_mcuio_init st)) []"
  by (auto simp: mcuio_rep_def lininoio_mcuio_init_def Let_def dll_INIT_LIST_HEAD)

lemma rep_add_bus:
  assumes "mcuio_rep st []" "mc_connection st" "add_bus st = (b, st')"
  shows "mcuio_rep st' (if b = 0 then [] else [b]) \<and> mc_connection st'"
  using assms
  by (cases "mc_allocs st")
    (auto simp: mcuio_rep_def add_bus_def malloc_def Let_def dll_list_add
      split: option.splits if_splits list.splits)

lemma rep_loop:
  assumes "mcuio_rep st [b]"
  shows "\<exists>st' c'. connect_loop n b st c = Some (Inr (b, st', c')) \<and> mcuio_rep st' [b]"
  using assms
proof (induction n arbitrary: st c)
  case (Suc n)
  obtain bus where b: "b \<noteq> 0" "mc_objs st b = Some bus"
    using Suc.prems by (auto simp: mcuio_rep_def)
  obtain stat bus' where g: "get_free_dev bus = (stat, bus')" by (cases "get_free_dev bus")
  note step = rep_objs[OF Suc.prems, of b bus']
  show ?case
    using b g step Suc.IH[OF step, of "c\<lparr>ch_priv := b\<rparr>"] by (auto simp: Let_def)
qed auto

lemma rep_connect_loop:
  assumes "mcuio_rep st bs" "mc_connection st"
  shows "(\<exists>st' c'. connect_loop 2 (case bs of [] \<Rightarrow> 0 | b # _ \<Rightarrow> b) st c = Some (Inl (st', c')) \<and> mcuio_ok st') \<or>
    (\<exists>b st' c'. connect_loop 2 (case bs of [] \<Rightarrow> 0 | b # _ \<Rightarrow> b) st c = Some (Inr (b, st', c')) \<and> mcuio_rep st' [b])"
proof (cases bs)
  case Nil
  obtain b st1 where a: "add_bus st = (b, st1)" by (cases "add_bus st")
  note r = rep_add_bus[OF assms(1)[unfolded Nil] assms(2) a]
  show ?thesis
  proof (cases "b = 0")
    case True
    then show ?thesis using a r Nil by (auto simp: numeral_2_eq_2 mcuio_ok_def)
  next
    case False
    then have r1: "mcuio_rep st1 [b]" using r by simp
    then have "\<exists>st' c'. connect_loop 2 b st1 c = Some (Inr (b, st', c')) \<and> mcuio_rep st' [b]"
      by (rule rep_loop)
    moreover have "connect_loop 2 0 st c = connect_loop 2 b st1 c"
      using a False by (simp add: numeral_2_eq_2)
    ultimately show ?thesis using Nil by auto
  qed
next
  case (Cons b bs')
  then have "bs = [b]"
    using assms(1) by (simp add: mcuio_rep_def)
  then have "mcuio_rep st [b]"
    using assms(1) by simp
  from rep_loop[OF this, of 2 c] show ?thesis
    using Cons by auto
qed

text \<open>Connecting always returns, and keeps the busses.\<close>

lemma mcuio_connect_ok:
  assumes "mcuio_ok st"
  shows "\<exists>r c' st'. lininoio_mcuio_connect c st = Some (r, c', st') \<and> mcuio_ok st'"
proof -
  obtain stat st1 bs where i: "(if \<not> mc_connection st then lininoio_mcuio_init st else (0, st)) = (stat, st1)"
    "mcuio_rep st1 bs" "stat < 0 \<or> mc_connection st1"
  proof (cases "mc_connection st")
    case True
    then show thesis using assms that[of 0 st] by (auto simp: mcuio_ok_def)
  next
    case False
    obtain stat st1 where e: "lininoio_mcuio_init st = (stat, st1)" by (cases "lininoio_mcuio_init st")
    then have "mcuio_rep st1 []" using assms False rep_init by (fastforce simp: mcuio_ok_def)
    moreover have "stat < 0 \<or> mc_connection st1"
      using e by (auto simp: lininoio_mcuio_init_def Let_def split: if_splits)
    ultimately show thesis using that e False by simp
  qed
  show ?thesis
  proof (cases "stat < 0")
    case True
    then show ?thesis using i(1,2) by (auto simp: lininoio_mcuio_connect_def mcuio_ok_def)
  next
    case False
    then have conn: "mc_connection st1" using i(3) by simp
    have "(if list_empty (mc_mem st1) (mc_busses st1) then 0
        else mb_entry (list_first_entry (mc_mem st1) (mc_busses st1))) = (case bs of [] \<Rightarrow> 0 | b # _ \<Rightarrow> b)"
    proof (cases bs)
      case (Cons b bs')
      then have "next_of (mc_mem st1) (mc_busses st1) = mb_list b" "\<not> list_empty (mc_mem st1) (mc_busses st1)"
        using i(2) conn dll_list_empty[of "mc_mem st1" "mc_busses st1"] dll_head_next[of "mc_mem st1" "mc_busses st1"]
        by (auto simp: mcuio_rep_def)
      then show ?thesis using Cons by (simp add: list_first_entry_def)
    next
      case Nil
      then show ?thesis
        using i(2) conn dll_list_empty[of "mc_mem st1" "mc_busses st1" "[]"] by (simp add: mcuio_rep_def)
    qed
    note start = this
    have put: "put_dev s b 0xff = Some s" for s b by (simp add: put_dev_def)
    from rep_connect_loop[OF i(2) conn, of c] show ?thesis
    proof
      assume "\<exists>st' c'. connect_loop 2 (case bs of [] \<Rightarrow> 0 | b # _ \<Rightarrow> b) st1 c = Some (Inl (st', c')) \<and> mcuio_ok st'"
      then show ?thesis
        using i(1) False start by (auto simp: lininoio_mcuio_connect_def Let_def)
    next
      assume "\<exists>b st' c'. connect_loop 2 (case bs of [] \<Rightarrow> 0 | b # _ \<Rightarrow> b) st1 c = Some (Inr (b, st', c')) \<and> mcuio_rep st' [b]"
      then obtain b st2 c2 where l: "connect_loop 2 (case bs of [] \<Rightarrow> 0 | b # _ \<Rightarrow> b) st1 c = Some (Inr (b, st2, c2))"
        "mcuio_rep st2 [b]" by blast
      have "mcuio_ok (st2\<lparr>mc_allocs := snd (malloc (mc_allocs st2))\<rparr>)"
        using rep_malloc[OF l(2)] by (auto simp: mcuio_ok_def)
      then show ?thesis
        using i(1) False start l(1) put
        by (auto simp: lininoio_mcuio_connect_def Let_def case_prod_unfold)
    qed
  qed
qed

lemma mcuio_put_ok: "put_dev st b dev = Some st' \<Longrightarrow> mcuio_ok st \<Longrightarrow> mcuio_ok st'"
proof (cases "7 < dev")
  case False
  assume p: "put_dev st b dev = Some st'" and ok: "mcuio_ok st"
  obtain bus where bus: "mc_objs st b = Some bus"
    using p False by (auto simp: put_dev_def bind_eq_Some_conv)
  have "dev \<le> 7" using False by simp
  from put_dev_gives_back[OF bus this] obtain bus' where "st' = st\<lparr>mc_objs := (mc_objs st)(b \<mapsto> bus')\<rparr>"
    using p by auto
  then show ?thesis using ok rep_objs unfolding mcuio_ok_def by blast
qed (simp add: put_dev_def)

interpretation mcu: proto_handler mcuio_ops mcuio_ok
proof
  fix c c' r w w'
  assume "po_connect mcuio_ops c w = Some (r, c', w')" "mcuio_ok w"
  then show "mcuio_ok w'"
    using mcuio_connect_ok[of w c] by (auto simp: mcuio_ops_def)
next
  fix c buf w w'
  assume "po_inbound mcuio_ops c buf w = Some w'" "mcuio_ok w"
  then show "mcuio_ok w'"
    by (auto simp: mcuio_ops_def lininoio_mcuio_inbound_packet_def bind_eq_Some_conv Let_def mcuio_ok_def
        split: if_splits)
next
  fix c w w'
  assume "po_disconnect mcuio_ops c w = Some w'" "mcuio_ok w"
  then show "mcuio_ok w'"
    by (auto simp: mcuio_ops_def lininoio_mcuio_disconnect_def bind_eq_Some_conv
        split: if_splits option.splits dest: mcuio_put_ok)
qed

section \<open>The console handler\<close>

definition console_ops :: "remoteproc_abi \<Rightarrow> consoles proto_ops" where
  "console_ops abi = \<lparr>po_connect = lininoio_console_connect abi, po_inbound = lininoio_console_inbound_packet,
     po_disconnect = (\<lambda>c w. Some (snd (lininoio_console_disconnect c w)))\<rparr>"

text \<open>Every console has the resource of a console.\<close>

definition console_inv :: "remoteproc_abi \<Rightarrow> consoles \<Rightarrow> bool" where
  "console_inv abi w \<longleftrightarrow> (\<forall>a c. cs_objs w a = Some c \<longrightarrow> c = console_resources abi)"

interpretation con: proto_handler "console_ops abi" "console_inv abi" for abi
proof
  fix c c' r w w'
  assume "po_connect (console_ops abi) c w = Some (r, c', w')" "console_inv abi w"
  then show "console_inv abi w'"
    by (auto simp: console_ops_def lininoio_console_connect_def malloc_def Let_def console_inv_def
        split: list.splits if_splits)
next
  fix c buf w w'
  assume "po_inbound (console_ops abi) c buf w = Some w'" "console_inv abi w"
  then show "console_inv abi w'"
    by (auto simp: console_ops_def lininoio_console_inbound_packet_def console_inv_def bind_eq_Some_conv)
next
  fix c w w'
  assume "po_disconnect (console_ops abi) c w = Some w'" "console_inv abi w"
  then show "console_inv abi w'"
    by (auto simp: console_ops_def lininoio_console_disconnect_def console_inv_def split: if_splits)
qed

section \<open>Properties\<close>

lemma etherd_init_world: "etherd_init env netif u ufd mon tab st w = Inr d \<Longrightarrow> d_w d = w"
  by (auto simp: etherd_init_def Let_def split: prod.splits if_splits)

text \<open>
  C26: in the daemon with the mcuio handler, in every state it reaches, the handler has at most one
  bus, on a well-formed list; connecting a channel always returns, with the handler in such a
  state again. So however many channels connect, they share one bus of eight devices.
\<close>

theorem etherd_mcuio_one_bus:
  assumes "etherd_init (with_handler LININOIO_PROTO_MCUIO_V0 h mcuio_ops env) netif u ufd mon tab st w = Inr d0"
    and "etherd_reach (with_handler LININOIO_PROTO_MCUIO_V0 h mcuio_ops env) d0 d"
    and "\<not> mc_connection w" "distinct (filter (\<lambda>a. a \<noteq> 0) (mc_allocs w))"
    and "\<forall>a \<in> set (mc_allocs w). a \<noteq> 0 \<longrightarrow> mb_list a \<noteq> mc_busses w"
  shows "\<exists>bs. mcuio_rep (d_w d) bs \<and> length bs \<le> 1 \<and>
    (mc_connection (d_w d) \<longrightarrow> dll (mc_mem (d_w d)) (mc_busses (d_w d)) (map mb_list bs)) \<and>
    (\<forall>c. \<exists>r c' st'. lininoio_mcuio_connect c (d_w d) = Some (r, c', st') \<and> (\<exists>bs'. mcuio_rep st' bs'))"
proof -
  have "mcuio_rep w []"
    using assms(3-5) by (simp add: mcuio_rep_def)
  then have "mcuio_ok (d_w d0)"
    using etherd_init_world[OF assms(1)] by (auto simp: mcuio_ok_def)
  then have ok: "mcuio_ok (d_w d)"
    by (rule mcu.daemon.reach_keeps[OF assms(2)])
  then obtain bs where bs: "mcuio_rep (d_w d) bs"
    by (auto simp: mcuio_ok_def)
  then have "length bs \<le> 1"
    "mc_connection (d_w d) \<longrightarrow> dll (mc_mem (d_w d)) (mc_busses (d_w d)) (map mb_list bs)"
    by (auto simp: mcuio_rep_def)
  then show ?thesis
    using bs mcuio_connect_ok[OF ok] by (auto simp: mcuio_ok_def)
qed

text \<open>The daemon of the console example with the mcuio handler, which is not connected yet.\<close>

definition mcuio_host :: "mcuio ether_env" where
  "mcuio_host =
     \<lparr>ee_connect = (\<lambda>_. None), ee_inbound = (\<lambda>_. None), ee_disconnect = (\<lambda>_. None),
      ee_load = (\<lambda>_ w. Some (None, w)), ee_resource = (\<lambda>_ _. None),
      ee_phy_offset = (\<lambda>_. None), ee_minor = (\<lambda>_. 0), ee_ifindex = (\<lambda>_. 2), ee_rx_cb = 1, ee_udev_cb = 7,
      ee_backend_readable = 2, ee_start_cb = 3, ee_stop_cb = 4, ee_backend_add = 5,
      ee_kill_node = 6, ee_alive_timeout = 2000, ee_page_size = 4096, ee_ring = (\<lambda>_. \<lparr>d_addr = 0, d_len = 0, d_flags = 0, d_next = 0\<rparr>), ee_byte = (\<lambda>_. None), ee_magic = 77,
      ee_fw_simple = 1, ee_uninit_core = ee_uninit_core null_env, ee_uninit_chan = ee_uninit_chan null_env\<rparr>"

definition idle_mcuio :: mcuio where
  "idle_mcuio = (one_bus 0)\<lparr>mc_connection := False, mc_connects := [True]\<rparr>"

theorem etherd_mcuio_one_bus_witness:
  "\<exists>r c' st'. lininoio_mcuio_connect fresh_channel idle_mcuio = Some (r, c', st') \<and> (\<exists>bs. mcuio_rep st' bs)"
proof -
  let ?env = "with_handler LININOIO_PROTO_MCUIO_V0 9 mcuio_ops mcuio_host"
  have b: "boot_memory boot_ether 1 2 [30, 31, 32, 33, 34, 35, 36] 40"
    by (rule boot_ether_ok)
  have n: "boot_network boot_ether ''wlan0'' 5"
    by (rule boot_ether_ok)
  obtain d where d: "etherd_init ?env ''wlan0'' True 4 60 True boot_ether idle_mcuio = Inr d"
    using boot_ether_starts by (rule exE)
  have w: "\<not> mc_connection idle_mcuio" "distinct (filter (\<lambda>a. a \<noteq> 0) (mc_allocs idle_mcuio))"
    "\<forall>a \<in> set (mc_allocs idle_mcuio). a \<noteq> 0 \<longrightarrow> mb_list a \<noteq> mc_busses idle_mcuio"
    by (simp_all add: idle_mcuio_def one_bus_def mb_list_def)
  from etherd_mcuio_one_bus[OF d etherd_reach.start w] show ?thesis
    using etherd_init_world[OF d] by auto
qed

end
