(* ===== verification/Logger.thy ===== *)
theory Logger
  imports Prelude
begin

text \<open>
  The logger of the process, \<^verbatim>\<open>util/logger.c\<close>: where a message goes, the mask of priorities,
  and closing.
\<close>

section \<open>State\<close>

text \<open>
  A logger writes to a file (0: to the system's log). The state has the allocated structures,
  the global pointer, the mask of \<^verbatim>\<open>setlogmask\<close>, what was written to each file (0 for the
  standard error of a process without logger), what was sent to the system's log, and the
  calls that open and close.
\<close>

record logger =
  lg_f :: addr
  lg_ident :: string

datatype log_call = Openlog string | Closelog | Fclose addr

record logging =
  l_objs :: "addr \<rightharpoonup> logger"
  process_logger :: addr
  l_mask :: int
  l_files :: "(addr \<times> nat \<times> string) list"
  l_syslog :: "(nat \<times> string) list"
  l_calls :: "log_call list"

section \<open>Operations\<close>

text \<open>\<open>alloc\<close> is what \<^verbatim>\<open>malloc\<close> returns (0 when it fails).\<close>

definition logger_init :: "addr \<Rightarrow> string \<Rightarrow> addr \<Rightarrow> logging \<Rightarrow> int \<times> logging" where
  "logger_init f ident alloc st =
     (if alloc = 0 then (- 1, st)
      else
        let st1 = st\<lparr>l_objs := (l_objs st)(alloc \<mapsto> \<lparr>lg_f = f, lg_ident = ident\<rparr>)\<rparr>;
            st2 = (if f = 0 then st1\<lparr>l_calls := l_calls st1 @ [Openlog ident]\<rparr> else st1)
        in (0, st2\<lparr>process_logger := alloc\<rparr>))"

text \<open>
  \<open>setlogmask\<close> sets the mask, unless it is given 0, and returns the old one. The mask of one
  priority is its bit.
\<close>

definition setlogmask :: "int \<Rightarrow> logging \<Rightarrow> int \<times> logging" where
  "setlogmask msk st = (l_mask st, if msk = 0 then st else st\<lparr>l_mask := msk\<rparr>)"

definition LOG_MASK :: "nat \<Rightarrow> int" where
  "LOG_MASK prio = push_bit prio 1"

definition logger_log_file :: "addr \<Rightarrow> nat \<Rightarrow> string \<Rightarrow> logging \<Rightarrow> logging" where
  "logger_log_file f prio msg st =
     (let (msk, st1) = setlogmask 0 st
      in if LOG_MASK prio AND msk = 0 then st1
         else st1\<lparr>l_files := l_files st1 @ [(f, prio, msg)]\<rparr>)"

text \<open>\<open>vsyslog\<close> has the mask applied by the system. Using a freed logger is undefined.\<close>

definition logger_log :: "nat \<Rightarrow> string \<Rightarrow> logging \<Rightarrow> logging option" where
  "logger_log prio msg st =
     (if process_logger st = 0 then Some (st\<lparr>l_files := l_files st @ [(0, prio, msg)]\<rparr>)
      else
        Option.bind (l_objs st (process_logger st)) (\<lambda>l.
          if lg_f l \<noteq> 0 then Some (logger_log_file (lg_f l) prio msg st)
          else if LOG_MASK prio AND l_mask st = 0 then Some st
          else Some (st\<lparr>l_syslog := l_syslog st @ [(prio, msg)]\<rparr>)))"

definition logger_log_upto :: "int \<Rightarrow> logging \<Rightarrow> int \<times> logging" where
  "logger_log_upto prio st = setlogmask prio st"

definition logger_close :: "logging \<Rightarrow> (int \<times> logging) option" where
  "logger_close st =
     (if process_logger st = 0 then Some (- 1, st)
      else
        Option.bind (l_objs st (process_logger st)) (\<lambda>l.
          let st1 = st\<lparr>l_calls := l_calls st @ [if lg_f l \<noteq> 0 then Fclose (lg_f l) else Closelog]\<rparr>
          in Some (0, st1\<lparr>l_objs := (l_objs st1)(process_logger st := None)\<rparr>)))"

section \<open>The mask\<close>

lemma LOG_MASK_bit: "LOG_MASK prio AND msk = 0 \<longleftrightarrow> \<not> bit msk prio"
proof
  assume "LOG_MASK prio AND msk = 0"
  then have "\<not> bit (LOG_MASK prio AND msk) prio" by simp
  then show "\<not> bit msk prio"
    by (simp add: LOG_MASK_def bit_simps)
next
  assume "\<not> bit msk prio"
  then show "LOG_MASK prio AND msk = 0"
    by (intro bit_eqI) (auto simp: LOG_MASK_def bit_simps)
qed

section \<open>Properties\<close>

text \<open>
  A message goes to the file of the process's logger, or to the system's log when it has
  none, exactly when the bit of its priority is set in the mask. \<open>logger_log_upto\<close> sets the
  mask to the priority itself, not to the mask of the priorities up to it: after it a message is
  kept when the number of its priority is a bit of that number, so that with a limit of
  \<^verbatim>\<open>LOG_ERR\<close> (3) the errors are dropped.
\<close>

lemma logger_log_masked:
  assumes "process_logger st \<noteq> 0" "l_objs st (process_logger st) = Some l" "limit \<noteq> 0"
    and "st1 = snd (logger_log_upto limit st)"
  shows "logger_log prio msg st1 = Some (
      if \<not> bit limit prio then st1
      else if lg_f l \<noteq> 0 then st1\<lparr>l_files := l_files st1 @ [(lg_f l, prio, msg)]\<rparr>
      else st1\<lparr>l_syslog := l_syslog st1 @ [(prio, msg)]\<rparr>) \<and>
    (limit = 3 \<longrightarrow> prio = 3 \<longrightarrow> logger_log prio msg st1 = Some st1)"
proof -
  have st1: "st1 = st\<lparr>l_mask := limit\<rparr>"
    using assms(3,4) by (simp add: logger_log_upto_def setlogmask_def)
  have "logger_log prio msg st1 = Some (
      if \<not> bit limit prio then st1
      else if lg_f l \<noteq> 0 then st1\<lparr>l_files := l_files st1 @ [(lg_f l, prio, msg)]\<rparr>
      else st1\<lparr>l_syslog := l_syslog st1 @ [(prio, msg)]\<rparr>)"
    using assms(1,2) by (simp add: st1 logger_log_def logger_log_file_def setlogmask_def LOG_MASK_bit)
  moreover have "\<not> bit (3 :: int) 3"
    by (simp add: bit_numeral_rec)
  ultimately show ?thesis
    by metis
qed

definition file_logger :: logging where
  "file_logger = snd (logger_init 7 ''etherd'' 100
     \<lparr>l_objs = Map.empty, process_logger = 0, l_mask = 255, l_files = [], l_syslog = [], l_calls = []\<rparr>)"

lemma logger_log_masked_witness:
  "logger_log 3 ''error'' (snd (logger_log_upto 3 file_logger)) = Some (snd (logger_log_upto 3 file_logger)) \<and>
   logger_log 1 ''alert'' (snd (logger_log_upto 3 file_logger)) =
     Some (snd (logger_log_upto 3 file_logger)\<lparr>l_files := [(7, 1, ''alert'')]\<rparr>)"
proof -
  have l: "process_logger file_logger \<noteq> 0" "l_objs file_logger (process_logger file_logger) = Some \<lparr>lg_f = 7, lg_ident = ''etherd''\<rparr>"
    by (simp_all add: file_logger_def logger_init_def Let_def)
  have "l_files (snd (logger_log_upto 3 file_logger)) = []" "bit (3 :: int) 1"
    by (simp_all add: file_logger_def logger_init_def logger_log_upto_def setlogmask_def Let_def bit_numeral_rec)
  then show ?thesis
    using logger_log_masked[OF l _ refl, of 3 3 "''error''"] logger_log_masked[OF l _ refl, of 3 1 "''alert''"] by simp
qed

text \<open>
  Closing the logger frees it and leaves the pointer to it: the next message and the next
  close use the freed structure.
\<close>

lemma logger_close_dangles:
  assumes "process_logger st \<noteq> 0" "l_objs st (process_logger st) = Some l"
  shows "\<exists>st'. logger_close st = Some (0, st') \<and> process_logger st' = process_logger st \<and>
    l_calls st' = l_calls st @ [if lg_f l \<noteq> 0 then Fclose (lg_f l) else Closelog] \<and>
    logger_log prio msg st' = None \<and> logger_close st' = None"
  using assms by (simp add: logger_close_def logger_log_def)

lemma logger_close_dangles_witness:
  "\<exists>st'. logger_close file_logger = Some (0, st') \<and> logger_log 3 ''late'' st' = None"
  using logger_close_dangles[of file_logger "\<lparr>lg_f = 7, lg_ident = ''etherd''\<rparr>" 3 "''late''"]
  by (auto simp: file_logger_def logger_init_def Let_def)

end
