(* ===== verification/Daemonize.thy ===== *)
theory Daemonize
  imports Etherd_Init Logger
begin

text \<open>
  Becoming a daemon, \<^verbatim>\<open>util/daemonize.c\<close>, and the whole of \<^verbatim>\<open>main\<close> up to its loop: options,
  daemon, logger, initialisation.
\<close>

section \<open>Processes\<close>

text \<open>
  A process: what each of its descriptors is open on, its working directory, and the pid files
  it wrote, with the pid.
\<close>

record process =
  p_fds :: "int \<rightharpoonup> string"
  p_cwd :: string
  p_pid_files :: "(string \<times> int) list"

text \<open>
  What the system answers: \<^verbatim>\<open>fork\<close> (0 in the child, the child's pid in the parent), whether
  the pid file can be opened, \<^verbatim>\<open>setsid\<close>, whether \<^verbatim>\<open>chdir\<close> works, and \<^verbatim>\<open>open\<close> of the null device.
\<close>

record daemon_answers =
  da_fork :: int
  da_pid_file :: bool
  da_setsid :: int
  da_chdir :: bool
  da_null :: int

datatype outcome = Exited int | Returned int

definition dup2 :: "int \<Rightarrow> int \<Rightarrow> process \<Rightarrow> process" where
  "dup2 fd n st = st\<lparr>p_fds := (p_fds st)(n := p_fds st fd)\<rparr>"

definition close_fd :: "int \<Rightarrow> process \<Rightarrow> process" where
  "close_fd fd st = st\<lparr>p_fds := (p_fds st)(fd := None)\<rparr>"

definition inherited_fds :: "int list" where "inherited_fds = [3 .. 254]"

lemma set_inherited [simp]: "set inherited_fds = {3 .. 254}"
  by (simp only: inherited_fds_def set_upto)

definition DEV_NULL :: string where "DEV_NULL = ''/dev/null''"

definition daemonize :: "daemon_answers \<Rightarrow> string \<Rightarrow> process \<Rightarrow> outcome \<times> process" where
  "daemonize da pid_file_path st =
     (let pid = da_fork da
      in if pid = - 1 then (Returned (- 1), st)
         else if pid \<noteq> 0 then
           (if \<not> da_pid_file da then (Exited 1, st)
            else (Exited 0, st\<lparr>p_pid_files := p_pid_files st @ [(pid_file_path, pid)]\<rparr>))
         else if da_setsid da = - 1 then (Returned (- 1), st)
         else
           let st1 = (if da_chdir da then st\<lparr>p_cwd := ''/''\<rparr> else st);
               fd = da_null da;
               st2 = (if fd \<noteq> - 1 then
                        let s1 = st1\<lparr>p_fds := (p_fds st1)(fd \<mapsto> DEV_NULL)\<rparr>;
                            s2 = dup2 fd 2 (dup2 fd 1 (dup2 fd 0 s1))
                        in if 2 < fd then close_fd fd s2 else s2
                      else st1)
           in (Returned 0, fold close_fd inherited_fds st2))"

lemma fold_close: "p_fds (fold close_fd xs st) = (\<lambda>i. if i \<in> set xs then None else p_fds st i)"
  by (induction xs arbitrary: st) (auto simp: close_fd_def)

lemma fold_close_other [simp]:
  "p_cwd (fold close_fd xs st) = p_cwd st" "p_pid_files (fold close_fd xs st) = p_pid_files st"
  by (induction xs arbitrary: st) (simp_all add: close_fd_def)

section \<open>The main program\<close>

text \<open>
  The inputs of the program: what \<^verbatim>\<open>getopt_long\<close> returns, the remaining arguments, the answers
  of the system, the stream of the standard error, the allocation of the logger, and the inputs
  of the initialisation.
\<close>

record inputs =
  in_opts :: "(int \<times> string) list"
  in_args :: "string list"
  in_daemon :: daemon_answers
  in_stderr :: addr
  in_logger :: addr
  in_udev :: bool
  in_udev_fd :: int
  in_monitor :: addr
  in_table :: bool

text \<open>\<^term>\<open>Inl\<close> is the status the process exits with, with the process; the logger's result is not looked at.\<close>

definition etherd_main ::
    "'w ether_env \<Rightarrow> inputs \<Rightarrow> process \<Rightarrow> logging \<Rightarrow> ether \<Rightarrow> 'w \<Rightarrow>
     int \<times> process + process \<times> logging \<times> 'w daemon" where
  "etherd_main env inp p lg st w =
     (case parse_cmdline (in_opts inp) (in_args inp) of
        Inl e \<Rightarrow> Inl (e, p)
      | Inr (o1, netif) \<Rightarrow>
          let logf = (if opt_log_to_stderr o1 then in_stderr inp else 0);
              (r, p1) = (if opt_dont_daemonize o1 then (Returned 0, p)
                         else daemonize (in_daemon inp) (opt_pid_file_path o1) p)
          in case r of
               Exited e \<Rightarrow> Inl (e, p1)
             | Returned _ \<Rightarrow>
                 let lg1 = snd (logger_init logf ''etherd'' (in_logger inp) lg)
                 in case etherd_init env netif (in_udev inp) (in_udev_fd inp) (in_monitor inp) (in_table inp) st w of
                      Inl e \<Rightarrow> Inl (e, p1)
                    | Inr d \<Rightarrow> Inr (p1, lg1, d))"

text \<open>What the options of the command line amount to: one of a kind is there; the last pid file.\<close>

primrec chosen :: "(int \<times> string) list \<Rightarrow> int set \<Rightarrow> bool" where
  "chosen [] s = False"
| "chosen (x # opts) s = (fst x \<in> s \<or> chosen opts s)"

primrec pid_path :: "(int \<times> string) list \<Rightarrow> string \<Rightarrow> string" where
  "pid_path [] path = path"
| "pid_path (x # opts) path = pid_path opts (if fst x \<in> {3, 112} then snd x else path)"

lemma parse_help: "chosen opts {0, 104} \<Longrightarrow> parse_options opts o1 = Inl 0"
  by (induction opts arbitrary: o1) auto

lemma parse_no_help:
  "\<not> chosen opts {0, 104} \<Longrightarrow> parse_options opts o1 = Inr
    \<lparr>opt_verbose = (opt_verbose o1 \<or> chosen opts {1, 118}),
     opt_dont_daemonize = (opt_dont_daemonize o1 \<or> chosen opts {2, 68}),
     opt_pid_file_path = pid_path opts (opt_pid_file_path o1),
     opt_log_to_stderr = (opt_log_to_stderr o1 \<or> chosen opts {4, 69})\<rparr>"
  by (induction opts arbitrary: o1) auto

text \<open>The first two initialisations cannot fail.\<close>

lemma etherd_init_cases:
  "etherd_init env netif udev fd mon table st w = Inl 131 \<longleftrightarrow> \<not> udev"
  "etherd_init env netif udev fd mon table st w = Inl 130 \<longleftrightarrow> udev \<and> \<not> table"
  "(\<exists>d. etherd_init env netif udev fd mon table st w = Inr d) \<longleftrightarrow> udev \<and> table"
  by (auto simp: etherd_init_def fd_events_init_def timeouts_init_def udev_events_init_def lininoio_init_def
      Let_def split: prod.splits)

text \<open>How the program goes on after its options, and when it is the parent of the daemon.\<close>

lemma parsed:
  assumes "\<not> chosen (in_opts inp) {0, 104}" "in_args inp = netif # rest"
  shows "\<exists>o1. parse_cmdline (in_opts inp) (in_args inp) = Inr (o1, netif) \<and>
    opt_dont_daemonize o1 = chosen (in_opts inp) {2, 68} \<and>
    opt_pid_file_path o1 = pid_path (in_opts inp) ''/var/run/etherd.pid'' \<and>
    opt_log_to_stderr o1 = chosen (in_opts inp) {4, 69}"
  using assms parse_no_help[of "in_opts inp" default_options] by (simp add: parse_cmdline_def default_options_def)

lemma main_exits:
  "chosen (in_opts inp) {0, 104} \<Longrightarrow> etherd_main env inp p lg st w = Inl (0, p)"
  "\<not> chosen (in_opts inp) {0, 104} \<Longrightarrow> in_args inp = [] \<Longrightarrow> etherd_main env inp p lg st w = Inl (127, p)"
proof -
  show "chosen (in_opts inp) {0, 104} \<Longrightarrow> etherd_main env inp p lg st w = Inl (0, p)"
    by (simp only: etherd_main_def parse_cmdline_def parse_help sum.case)
  assume no: "\<not> chosen (in_opts inp) {0, 104}" and "in_args inp = []"
  then show "etherd_main env inp p lg st w = Inl (127, p)"
    using parse_no_help[OF no, of default_options] by (simp only: etherd_main_def parse_cmdline_def sum.case list.case)
qed

lemma main_parent:
  assumes "\<not> chosen (in_opts inp) {0, 104}" "in_args inp = netif # rest"
    "\<not> chosen (in_opts inp) {2, 68}" "da_fork (in_daemon inp) \<notin> {- 1, 0}"
  shows "etherd_main env inp p lg st w = Inl (if da_pid_file (in_daemon inp)
    then (0, p\<lparr>p_pid_files := p_pid_files p @ [(pid_path (in_opts inp) ''/var/run/etherd.pid'', da_fork (in_daemon inp))]\<rparr>)
    else (1, p))"
proof -
  from parsed[OF assms(1,2)] obtain o1 where "parse_cmdline (in_opts inp) (in_args inp) = Inr (o1, netif)"
      "\<not> opt_dont_daemonize o1" "opt_pid_file_path o1 = pid_path (in_opts inp) ''/var/run/etherd.pid''"
    using assms(3) by blast
  then show ?thesis
    using assms(4) by (cases "da_pid_file (in_daemon inp)") (simp_all add: etherd_main_def daemonize_def Let_def)
qed

lemma daemonize_returns:
  "da_fork da \<in> {- 1, 0} \<Longrightarrow> fst (daemonize da path p) = Returned (if da_fork da = - 1 \<or> da_setsid da = - 1 then - 1 else 0)"
  by (auto simp: daemonize_def Let_def)

lemma main_runs:
  assumes "\<not> chosen (in_opts inp) {0, 104}" "in_args inp = netif # rest"
    "chosen (in_opts inp) {2, 68} \<or> da_fork (in_daemon inp) \<in> {- 1, 0}"
    and q: "q = (if chosen (in_opts inp) {2, 68} then p
      else snd (daemonize (in_daemon inp) (pid_path (in_opts inp) ''/var/run/etherd.pid'') p))"
  shows "etherd_main env inp p lg st w =
    (case etherd_init env netif (in_udev inp) (in_udev_fd inp) (in_monitor inp) (in_table inp) st w of
       Inl e \<Rightarrow> Inl (e, q)
     | Inr d \<Rightarrow> Inr (q, snd (logger_init (if chosen (in_opts inp) {4, 69} then in_stderr inp else 0) ''etherd''
                          (in_logger inp) lg), d))"
proof -
  obtain o1 where o1: "parse_cmdline (in_opts inp) (in_args inp) = Inr (o1, netif)"
      "opt_dont_daemonize o1 = chosen (in_opts inp) {2, 68}"
      "opt_pid_file_path o1 = pid_path (in_opts inp) ''/var/run/etherd.pid''"
      "opt_log_to_stderr o1 = chosen (in_opts inp) {4, 69}"
    using parsed[OF assms(1,2)] by blast
  obtain r where r: "(if chosen (in_opts inp) {2, 68} then (Returned 0, p)
      else daemonize (in_daemon inp) (pid_path (in_opts inp) ''/var/run/etherd.pid'') p) = (Returned r, q)"
  proof (cases "chosen (in_opts inp) {2, 68}")
    case False
    then obtain r where "fst (daemonize (in_daemon inp) (pid_path (in_opts inp) ''/var/run/etherd.pid'') p) = Returned r"
      using assms(3) daemonize_returns by blast
    then show thesis
      using that[of r] False by (simp add: q prod_eq_iff)
  qed (use that[of 0] in \<open>simp add: q\<close>)
  then show ?thesis
    using o1 by (cases "chosen (in_opts inp) {2, 68}") (simp_all add: etherd_main_def Let_def split del: if_split)
qed

lemma daemon_process:
  "da_fork da = - 1 \<or> da_fork da = 0 \<and> da_setsid da = - 1 \<Longrightarrow> snd (daemonize da path p) = p"
  "da_fork da = 0 \<Longrightarrow> da_setsid da \<noteq> - 1 \<Longrightarrow> da_null da \<noteq> - 1 \<Longrightarrow>
    p_fds (snd (daemonize da path p)) 2 = Some DEV_NULL"
  by (auto simp: daemonize_def fold_close dup2_def close_fd_def Let_def)

section \<open>Properties\<close>

text \<open>
  C39: the parent leaves with the pid of its child in the pid file, or with status 1 when the file
  cannot be opened, in which case the child runs all the same; the child goes on with the
  null device on its standard descriptors, with the next 252 descriptors closed and the others
  as they were. When there is no child or no session, \<open>-1\<close> is returned and nothing changes;
  without a null device the standard descriptors stay what they were.
\<close>

theorem daemonize_outcomes:
  assumes "p_fds st fd = None" "0 \<le> fd"
    and "da = \<lparr>da_fork = pid, da_pid_file = pf, da_setsid = sid, da_chdir = cd, da_null = fd\<rparr>"
  shows "(0 < pid \<longrightarrow> daemonize da path st =
      (if pf then (Exited 0, st\<lparr>p_pid_files := p_pid_files st @ [(path, pid)]\<rparr>) else (Exited 1, st))) \<and>
    (pid = 0 \<longrightarrow> sid \<noteq> - 1 \<longrightarrow> fst (daemonize da path st) = Returned 0 \<and>
      p_fds (snd (daemonize da path st)) = (\<lambda>i. if 0 \<le> i \<and> i \<le> 2 then Some DEV_NULL
        else if 3 \<le> i \<and> i \<le> 254 then None else p_fds st i) \<and>
      p_fds (snd (daemonize (da\<lparr>da_null := - 1\<rparr>) path st)) = (\<lambda>i. if 3 \<le> i \<and> i \<le> 254 then None else p_fds st i)) \<and>
    (pid = - 1 \<or> pid = 0 \<and> sid = - 1 \<longrightarrow> daemonize da path st = (Returned (- 1), st))"
proof -
  have "p_fds (snd (daemonize da path st)) i = (if 0 \<le> i \<and> i \<le> 2 then Some DEV_NULL
      else if 3 \<le> i \<and> i \<le> 254 then None else p_fds st i)" if "pid = 0" "sid \<noteq> - 1" for i
    using that assms by (auto simp: daemonize_def fold_close dup2_def close_fd_def Let_def)
  moreover have "p_fds (snd (daemonize (da\<lparr>da_null := - 1\<rparr>) path st)) i =
      (if 3 \<le> i \<and> i \<le> 254 then None else p_fds st i)" if "pid = 0" "sid \<noteq> - 1" for i
    using that assms by (auto simp: daemonize_def fold_close Let_def)
  moreover have "pid = 0 \<Longrightarrow> sid \<noteq> - 1 \<Longrightarrow> fst (daemonize da path st) = Returned 0"
    using assms by (simp add: daemonize_def Let_def)
  ultimately show ?thesis
    using assms(3) by (simp add: daemonize_def fun_eq_iff)
qed

text \<open>A process with its three standard descriptors on a terminal, and one more.\<close>

definition shell_process :: process where
  "shell_process = \<lparr>p_fds = [0 \<mapsto> ''tty'', 1 \<mapsto> ''tty'', 2 \<mapsto> ''tty'', 3 \<mapsto> ''log''], p_cwd = ''/root'', p_pid_files = []\<rparr>"

definition child_answers :: daemon_answers where
  "child_answers = \<lparr>da_fork = 0, da_pid_file = False, da_setsid = 77, da_chdir = True, da_null = 4\<rparr>"

theorem daemonize_outcomes_witness:
  "daemonize (child_answers\<lparr>da_fork := 77\<rparr>) ''/run/x'' shell_process = (Exited 1, shell_process) \<and>
   fst (daemonize child_answers ''/run/x'' shell_process) = Returned 0 \<and>
   p_fds (snd (daemonize child_answers ''/run/x'' shell_process)) 2 = Some DEV_NULL \<and>
   p_fds (snd (daemonize child_answers ''/run/x'' shell_process)) 3 = None"
proof -
  have fd: "p_fds shell_process 4 = None" "(0 :: int) \<le> 4"
    by (simp_all add: shell_process_def)
  show ?thesis
    using daemonize_outcomes[OF fd, of "child_answers\<lparr>da_fork := 77\<rparr>" 77 False 77 True "''/run/x''"]
      daemonize_outcomes[OF fd, of child_answers 0 False 77 True "''/run/x''"]
    by (simp add: child_answers_def)
qed

text \<open>
  C27: how \<^verbatim>\<open>main\<close> comes out, case by case. With help among its options it exits with 0, whatever
  else it is given; else without an interface with 127; as the parent of the daemon with 0, its
  child's pid in the pid file, or with 1 when that cannot be opened; else, in the child or in the
  foreground, with 131 when the device monitor cannot be set up and with 130 when the table of
  handlers cannot be allocated. In every other case it enters its loop (the status 129 is
  never used), for the first argument as its interface, with a logger on the standard error if
  that was asked for. What \<open>daemonize\<close> returns is not looked at: without a child the program goes
  on in the foreground. As a daemon its standard error is the null device, so that messages
  asked for there are lost.
\<close>

theorem etherd_main_outcomes:
  "let opts = in_opts inp; answers = in_daemon inp;
       path = pid_path opts ''/var/run/etherd.pid'';
       front = chosen opts {2, 68};
       q = (if front then p else snd (daemonize answers path p))
   in if chosen opts {0, 104} then etherd_main env inp p lg st w = Inl (0, p)
      else if in_args inp = [] then etherd_main env inp p lg st w = Inl (127, p)
      else if \<not> front \<and> da_fork answers \<notin> {- 1, 0} then
        etherd_main env inp p lg st w =
          Inl (if da_pid_file answers then (0, p\<lparr>p_pid_files := p_pid_files p @ [(path, da_fork answers)]\<rparr>) else (1, p))
      else if \<not> in_udev inp then etherd_main env inp p lg st w = Inl (131, q)
      else if \<not> in_table inp then etherd_main env inp p lg st w = Inl (130, q)
      else \<exists>lg' d. etherd_main env inp p lg st w = Inr (q, lg', d) \<and>
        etherd_init env (List.hd (in_args inp)) True (in_udev_fd inp) (in_monitor inp) True st w = Inr d \<and>
        (in_logger inp \<noteq> 0 \<longrightarrow> l_objs lg' (process_logger lg') = Some
          \<lparr>lg_f = if chosen opts {4, 69} then in_stderr inp else 0, lg_ident = ''etherd''\<rparr>) \<and>
        (front \<or> da_fork answers = - 1 \<or> da_setsid answers = - 1 \<longrightarrow> q = p) \<and>
        (\<not> front \<and> da_fork answers = 0 \<and> da_setsid answers \<noteq> - 1 \<and> da_null answers \<noteq> - 1 \<longrightarrow>
          p_fds q 2 = Some DEV_NULL)"
proof (cases "chosen (in_opts inp) {0, 104} \<or> in_args inp = []")
  case True
  then show ?thesis
    using main_exits[of inp env p lg st w] unfolding Let_def
    by (cases "chosen (in_opts inp) {0, 104}") (simp_all only: if_True if_False simp_thms)
next
  case False
  then obtain netif rest where c: "\<not> chosen (in_opts inp) {0, 104}" "in_args inp = netif # rest"
    by (cases "in_args inp") auto
  have ne: "in_args inp \<noteq> []" by (simp add: c(2))
  let ?path = "pid_path (in_opts inp) ''/var/run/etherd.pid''"
  let ?lg = "snd (logger_init (if chosen (in_opts inp) {4, 69} then in_stderr inp else 0) ''etherd'' (in_logger inp) lg)"
  have lg: "in_logger inp \<noteq> 0 \<longrightarrow> l_objs ?lg (process_logger ?lg) = Some
      \<lparr>lg_f = if chosen (in_opts inp) {4, 69} then in_stderr inp else 0, lg_ident = ''etherd''\<rparr>"
    by (simp add: logger_init_def Let_def)
  show ?thesis
  proof (cases "\<not> chosen (in_opts inp) {2, 68} \<and> da_fork (in_daemon inp) \<notin> {- 1, 0}")
    case True
    show ?thesis
      unfolding Let_def if_not_P[OF c(1)] if_not_P[OF ne] if_P[OF True] using main_parent[OF c, of env p lg st w] True by blast
  next
    case go: False
    define q where "q = (if chosen (in_opts inp) {2, 68} then p else snd (daemonize (in_daemon inp) ?path p))"
    have run: "chosen (in_opts inp) {2, 68} \<or> da_fork (in_daemon inp) \<in> {- 1, 0}"
      using go by blast
    note m = main_runs[OF c run q_def, of env lg st w]
    note ini = etherd_init_cases[of env netif "in_udev inp" "in_udev_fd inp" "in_monitor inp" "in_table inp" st w]
    note cases = if_not_P[OF c(1)] if_not_P[OF ne] if_not_P[OF go]
    have q: "chosen (in_opts inp) {2, 68} \<or> da_fork (in_daemon inp) = - 1 \<or> da_setsid (in_daemon inp) = - 1 \<longrightarrow> q = p"
        "\<not> chosen (in_opts inp) {2, 68} \<and> da_fork (in_daemon inp) = 0 \<and> da_setsid (in_daemon inp) \<noteq> - 1 \<and>
           da_null (in_daemon inp) \<noteq> - 1 \<longrightarrow> p_fds q 2 = Some DEV_NULL"
      using run daemon_process[of "in_daemon inp" ?path p] by (auto simp: q_def)
    show ?thesis
      unfolding Let_def q_def[symmetric] cases
      using m ini lg q by (cases "in_udev inp"; cases "in_table inp") (auto simp: c(2) simp del: insert_iff split: sum.splits)
  qed
qed

text \<open>The daemon started with \<^verbatim>\<open>-E wlan0\<close>.\<close>

definition daemon_inputs :: inputs where
  "daemon_inputs = \<lparr>in_opts = [(69, [])], in_args = [''wlan0''], in_daemon = child_answers, in_stderr = 8,
     in_logger = 100, in_udev = True, in_udev_fd = 4, in_monitor = 60, in_table = True\<rparr>"

theorem etherd_main_outcomes_witness:
  "\<exists>q lg d. etherd_main null_env daemon_inputs shell_process file_logger boot_ether () = Inr (q, lg, d) \<and>
    l_objs lg (process_logger lg) = Some \<lparr>lg_f = 8, lg_ident = ''etherd''\<rparr> \<and> p_fds q 2 = Some DEV_NULL"
proof -
  have b: "boot_memory boot_ether 1 2 [30, 31, 32, 33, 34, 35, 36] 40"
    by (rule boot_ether_ok)
  have n: "boot_network boot_ether ''wlan0'' 5"
    by (rule boot_ether_ok)
  obtain d where d: "etherd_init null_env ''wlan0'' True 4 60 True boot_ether () = Inr d"
    using boot_ether_starts by (rule exE)
  have p: "parse_cmdline [(69, [])] [''wlan0''] = Inr (default_options\<lparr>opt_log_to_stderr := True\<rparr>, ''wlan0'')"
    by (simp add: parse_cmdline_def)
  have "fst (daemonize child_answers (opt_pid_file_path (default_options\<lparr>opt_log_to_stderr := True\<rparr>)) shell_process) = Returned 0"
    by (simp add: daemonize_def child_answers_def Let_def)
  then obtain q lg where r: "etherd_main null_env daemon_inputs shell_process file_logger boot_ether () = Inr (q, lg, d)"
    using d p by (simp add: etherd_main_def daemon_inputs_def default_options_def Let_def case_prod_unfold)
  have "in_logger daemon_inputs \<noteq> 0"
    by (simp add: daemon_inputs_def)
  then show ?thesis
    using etherd_main_outcomes[of daemon_inputs shell_process null_env file_logger boot_ether "()"] r
    by (simp add: daemon_inputs_def child_answers_def Let_def)
qed

end
