(* ===== verification/Fd_Passing.thy ===== *)
theory Fd_Passing
  imports Prelude
begin

text \<open>
  Descriptors over a socket, \<^verbatim>\<open>util/fd-over-socket.c\<close>: the message that carries one, and the
  receiver that looks for it.
\<close>

section \<open>Messages\<close>



section \<open>Operations\<close>




section \<open>Properties\<close>



end
