(* ===== verification/Virtio_Backend.thy ===== *)
theory Virtio_Backend
  imports Ether_Rx Virtio_Ring
begin

text \<open>
  The virtio backend devices of the utility library, \<^verbatim>\<open>util/virtio.c\<close>: a device that was
  announced is opened, watched and mapped. The daemon has a version of its own in
  \<^verbatim>\<open>lininoio-ether.c\<close>.
\<close>

section \<open>State\<close>

record util_backend =
  ub_devname :: string
  ub_fd :: int
  ub_evt :: addr
  ub_vring_ptr :: u64
  ub_phy_offset :: u64
  ub_phy_len :: u64

datatype backend_call =
    Poll int
  | Open_dev string
  | Mmap_dev u64 int
  | Munmap_dev u64 u64
  | Close_dev int

text \<open>
  The blocks that are allocated, the devices that were set up, the events, the next answers of
  the allocator and of the system, and the calls made.
\<close>

record backends =
  bk_live :: "addr set"
  bk_objs :: "addr \<rightharpoonup> util_backend"
  bk_fds :: fd_events
  bk_allocs :: "addr list"
  bk_sys :: "int list"
  bk_calls :: "backend_call list"

definition bk_malloc :: "backends \<Rightarrow> addr \<times> backends" where
  "bk_malloc st =
     (let (a, as) = malloc (bk_allocs st)
      in (a, st\<lparr>bk_allocs := as, bk_live := if a = 0 then bk_live st else insert a (bk_live st)\<rparr>))"

definition bk_free :: "addr \<Rightarrow> backends \<Rightarrow> backends" where
  "bk_free a st = st\<lparr>bk_live := bk_live st - {a}, bk_objs := (bk_objs st)(a := None)\<rparr>"

definition bk_call :: "backend_call \<Rightarrow> backends \<Rightarrow> int \<times> backends" where
  "bk_call c st =
     (case bk_sys st of
        [] \<Rightarrow> (- 1, st\<lparr>bk_calls := bk_calls st @ [c]\<rparr>)
      | r # rs \<Rightarrow> (r, st\<lparr>bk_sys := rs, bk_calls := bk_calls st @ [c]\<rparr>))"

definition bk_call0 :: "backend_call \<Rightarrow> backends \<Rightarrow> backends" where
  "bk_call0 c st = st\<lparr>bk_calls := bk_calls st @ [c]\<rparr>"

section \<open>Operations\<close>

text \<open>
  The callback reads the first descriptor of the ring, adds the offset of its address, from the
  start of the reserved memory, to the mapping, and logs the string there, which is the result;
  \<open>mem\<close> is the memory it reads. Reading the ring of a mapping that failed is undefined, and so is
  a pointer that leads to no string: neither is checked.
\<close>

definition util_backend_readable ::
    "(u64 \<Rightarrow> u8 option) \<Rightarrow> (u64 \<Rightarrow> vring_desc) \<Rightarrow> util_backend \<Rightarrow> u8 list option" where
  "util_backend_readable mem ring vbe =
     (if ub_vring_ptr vbe = - 1 then None
      else
        let desc = ring (ub_vring_ptr vbe);
            offset = d_addr desc - ub_phy_offset vbe;
            ptr = ub_vring_ptr vbe + offset
        in c_string mem ptr)"

definition create_virtqueue :: "util_backend \<Rightarrow> int" where
  "create_virtqueue vbe = 0"

text \<open>
  \<open>attr\<close> are the attributes of the device, \<open>readable\<close> the address of the callback. The result of
  \<^verbatim>\<open>mmap\<close> is only logged.
\<close>

definition util_backend_add ::
    "(udev_device \<Rightarrow> string \<Rightarrow> string option) \<Rightarrow> addr \<Rightarrow> udev_device \<Rightarrow> string \<Rightarrow> backends \<Rightarrow> backends option" where
  "util_backend_add attr readable dev path st =
     (let (vbe, st1) = bk_malloc st
      in if vbe = 0 then Some st1
         else
           case attr dev ''phy_offset'' of
             None \<Rightarrow> Some st1
           | Some offs \<Rightarrow>
               (case attr dev ''phy_len'' of
                  None \<Rightarrow> Some st1
                | Some len \<Rightarrow>
                    Option.bind (path_basename path) (\<lambda>basename.
                    let devname = take (PATH_MAX - 2) (''/dev/'' @ basename);
                        (fd, st2) = bk_call (Open_dev devname) (bk_call0 (Poll 10) st1)
                    in if fd < 0 then Some st2
                       else
                         let (a, st3) = bk_malloc st2;
                             (evt, fds) = add_fd_event (bk_fds st3) fd EVT_FD_RD readable vbe a;
                             st4 = st3\<lparr>bk_fds := fds\<rparr>
                         in if evt = 0 then Some (bk_free vbe (bk_call0 (Close_dev fd) st4))
                            else
                              let plen = of_nat (strtoul16 len);
                                  (ptr, st5) = bk_call (Mmap_dev plen fd) st4;
                                  b = \<lparr>ub_devname = devname, ub_fd = fd, ub_evt = evt, ub_vring_ptr = of_int ptr,
                                       ub_phy_offset = of_nat (strtoul16 offs), ub_phy_len = plen\<rparr>;
                                  st6 = st5\<lparr>bk_objs := (bk_objs st5)(vbe \<mapsto> b)\<rparr>
                              in if create_virtqueue b < 0
                                 then Some (bk_free vbe (bk_call0 (Close_dev fd)
                                        (bk_call0 (Munmap_dev (ub_vring_ptr b) plen) st6)))
                                 else Some st6)))"

section \<open>Properties\<close>

text \<open>
  A device without one of its two attributes, or that cannot be opened, leaves the block
  that was allocated for it behind, with nothing that refers to it; one whose event cannot be
  allocated is closed and freed. Otherwise the device is watched for reading, with the offset and
  the length of its attributes. The pointer read when it is readable is inside the mapping
  exactly for an address within the reserved memory, which is not checked; where no byte can be
  read, outside the mapping or after a failed one, the callback is undefined.
\<close>

lemma util_backend_outcomes:
  assumes "bk_allocs st = vbe # e # as" "vbe \<noteq> 0" "vbe \<notin> bk_live st" "e \<notin> {vbe} \<union> bk_live st"
    and "bk_sys st = fd # ptr # rs" "path_basename path = Some name"
  shows "(attr dev ''phy_offset'' = None \<or> attr dev ''phy_len'' = None \<or> fd < 0 \<longrightarrow>
      (\<exists>st'. util_backend_add attr cb dev path st = Some st' \<and> bk_live st' = insert vbe (bk_live st) \<and>
         bk_objs st' = bk_objs st \<and> bk_fds st' = bk_fds st)) \<and>
    (\<forall>offs len. attr dev ''phy_offset'' = Some offs \<longrightarrow> attr dev ''phy_len'' = Some len \<longrightarrow> 0 \<le> fd \<longrightarrow>
      (\<exists>st'. util_backend_add attr cb dev path st = Some st' \<and>
        (if e = 0 then bk_live st' = bk_live st \<and> bk_fds st' = bk_fds st \<and> List.last (bk_calls st') = Close_dev fd
         else bk_fds st' = snd (add_fd_event (bk_fds st) fd EVT_FD_RD cb vbe e) \<and>
           bk_objs st' = (bk_objs st)(vbe \<mapsto>
             \<lparr>ub_devname = take (PATH_MAX - 2) (''/dev/'' @ name), ub_fd = fd, ub_evt = e, ub_vring_ptr = of_int ptr,
              ub_phy_offset = of_nat (strtoul16 offs), ub_phy_len = of_nat (strtoul16 len)\<rparr>)))) \<and>
    (let d = ring (ub_vring_ptr b); q = ub_vring_ptr b + (d_addr d - ub_phy_offset b) in
      (q - ub_vring_ptr b < ub_phy_len b \<longleftrightarrow> d_addr d - ub_phy_offset b < ub_phy_len b) \<and>
      (ub_vring_ptr b = - 1 \<or> mem q = None \<longrightarrow> util_backend_readable mem ring b = None))"
proof (intro conjI allI impI)
  assume "attr dev ''phy_offset'' = None \<or> attr dev ''phy_len'' = None \<or> fd < 0"
  then show "\<exists>st'. util_backend_add attr cb dev path st = Some st' \<and> bk_live st' = insert vbe (bk_live st) \<and>
      bk_objs st' = bk_objs st \<and> bk_fds st' = bk_fds st"
    using assms
    by (auto simp: util_backend_add_def bk_malloc_def bk_call_def bk_call0_def malloc_def Let_def
        split: option.splits)
next
  fix offs len
  assume a: "attr dev ''phy_offset'' = Some offs" "attr dev ''phy_len'' = Some len" "0 \<le> fd"
  show "\<exists>st'. util_backend_add attr cb dev path st = Some st' \<and>
      (if e = 0 then bk_live st' = bk_live st \<and> bk_fds st' = bk_fds st \<and> List.last (bk_calls st') = Close_dev fd
       else bk_fds st' = snd (add_fd_event (bk_fds st) fd EVT_FD_RD cb vbe e) \<and>
         bk_objs st' = (bk_objs st)(vbe \<mapsto>
           \<lparr>ub_devname = take (PATH_MAX - 2) (''/dev/'' @ name), ub_fd = fd, ub_evt = e, ub_vring_ptr = of_int ptr,
            ub_phy_offset = of_nat (strtoul16 offs), ub_phy_len = of_nat (strtoul16 len)\<rparr>))"
    using assms a
    by (auto simp: util_backend_add_def bk_malloc_def bk_call_def bk_call0_def bk_free_def malloc_def
        add_fd_event_def create_virtqueue_def EVT_FD_RD_def Let_def)
next
  show "let d = ring (ub_vring_ptr b); q = ub_vring_ptr b + (d_addr d - ub_phy_offset b) in
      (q - ub_vring_ptr b < ub_phy_len b \<longleftrightarrow> d_addr d - ub_phy_offset b < ub_phy_len b) \<and>
      (ub_vring_ptr b = - 1 \<or> mem q = None \<longrightarrow> util_backend_readable mem ring b = None)"
    by (auto simp: util_backend_readable_def Let_def c_string.simps)
qed

definition some_backends :: "addr \<Rightarrow> backends" where
  "some_backends e = \<lparr>bk_live = {}, bk_objs = Map.empty,
     bk_fds = \<lparr>fe_mem = \<lparr>next_of = (\<lambda>_. 0), prev_of = (\<lambda>_. 0)\<rparr>, fe_objs = Map.empty, fe_base = 1000\<rparr>,
     bk_allocs = [100, e], bk_sys = [4, 4096], bk_calls = []\<rparr>"

lemma util_backend_outcomes_witness:
  "(\<exists>st'. util_backend_add (\<lambda>_ k. if k = ''phy_offset'' then Some ''0x10'' else None) 7
      \<lparr>ud_action = Some ''add'', ud_syspath = ''/sys/r2p0''\<rparr> ''/sys/r2p0'' (some_backends 200) = Some st' \<and>
      bk_live st' = {100}) \<and>
   (\<exists>st'. util_backend_add (\<lambda>_ k. Some ''10'') 7
      \<lparr>ud_action = Some ''add'', ud_syspath = ''/sys/r2p0''\<rparr> ''/sys/r2p0'' (some_backends 0) = Some st' \<and>
      bk_live st' = {})"
proof -
  have n: "path_basename ''/sys/r2p0'' = Some ''r2p0''"
    by (simp add: path_basename_def)
  let ?dev = "\<lparr>ud_action = Some ''add'', ud_syspath = ''/sys/r2p0''\<rparr>"
  have "\<exists>st'. util_backend_add (\<lambda>_ k. if k = ''phy_offset'' then Some ''0x10'' else None) 7 ?dev ''/sys/r2p0''
      (some_backends 200) = Some st' \<and> bk_live st' = {100}"
    using util_backend_outcomes[of "some_backends 200" 100 200 "[]" 4 4096 "[]", OF _ _ _ _ _ n,
        of "\<lambda>_ k. if k = ''phy_offset'' then Some ''0x10'' else None" ?dev 7 undefined undefined]
    by (auto simp: some_backends_def)
  moreover have "\<exists>st'. util_backend_add (\<lambda>_ k. Some ''10'') 7 ?dev ''/sys/r2p0'' (some_backends 0) = Some st' \<and>
      bk_live st' = {}"
    using util_backend_outcomes[of "some_backends 0" 100 0 "[]" 4 4096 "[]", OF _ _ _ _ _ n,
        of "\<lambda>_ k. Some ''10''" ?dev 7 undefined undefined]
    by (auto simp: some_backends_def)
  ultimately show ?thesis by blast
qed

end
