(* ===== verification/Spec2Isabelle.thy ===== *)
theory Spec2Isabelle
  imports Virtqueue_Debug Virtqueue_Concurrent List_Traversal R2proc_Test Etherd_Watch Etherd_Typing Etherd_Handlers Daemonize Fd_Passing Virtio_Backend
begin

text \<open>
  A verification library for lininoio-userspace: the daemon \<^verbatim>\<open>etherd\<close>, which associates slave
  boards over raw Ethernet frames and registers a remote processor with the kernel for each of
  their cores, the plugins that handle the protocols of their channels, and the utility library
  both are built on.

  \<^bold>\<open>The program.\<close> \<^verbatim>\<open>etherd/main.c\<close> parses its options, becomes a daemon, opens the log, initialises
  three event sources and the transport, and loops over \<^verbatim>\<open>select\<close>. The sources are descriptors
  (\<^verbatim>\<open>util/fd_event.c\<close>), device announcements (\<^verbatim>\<open>util/udev-events.c\<close>, itself a client of the
  descriptors) and timeouts (\<^verbatim>\<open>util/timeout.c\<close>); all keep circular lists (\<^verbatim>\<open>include/list.h\<close>) of
  callbacks. The transport (\<^verbatim>\<open>etherd/lininoio-ether.c\<close>) registers a callback for its socket; an
  association request takes a node from the free list, creates its cores and channels, asks the
  table of \<^verbatim>\<open>util/lininoio.c\<close> for the handler of each channel's protocol, which loads a plugin
  (\<^verbatim>\<open>util/plugin.c\<close>, \<^verbatim>\<open>util/lininoio-proto-handler.c\<close>) the first time, lets the handler connect the
  channel, and writes the firmware of each core. The handlers are \<^verbatim>\<open>mcuio.c\<close> and \<^verbatim>\<open>console.c\<close>. The
  virtqueues (\<^verbatim>\<open>util/virtqueue.c\<close> over \<^verbatim>\<open>include/virtio_ring.h\<close> and \<^verbatim>\<open>include/metal-compat.h\<close>) carry data
  between two processors through a shared ring. \<^verbatim>\<open>test/simple_r2proc_test.c\<close> runs the event sources
  without the transport, for one remote processor.

  \<^bold>\<open>The theories and the code.\<close> Each theory has a component's state as records, its operations in
  the order of the code, the lemmas on them, and its properties, each with a witness.
  \<^item> \<open>Prelude\<close>: the integer types as words, arrays whose accesses out of bounds are \<^term>\<open>None\<close>,
    lemmas on lists, words and rings.
  \<^item> \<open>List_Head\<close>: \<^verbatim>\<open>include/list.h\<close> as pointer writes on a store of cells, related to HOL lists by \<open>dll\<close>.
    \<open>List_Traversal\<close>: its traversal macros, with bodies that change the list while it is walked.
  \<^item> \<open>Virtio_Ring\<close>, \<open>Metal_IO\<close>: \<^verbatim>\<open>virtio_ring.h\<close> with the layout of a ring; the address translation of
    \<^verbatim>\<open>metal-compat.h\<close>.
  \<^item> \<open>Virtqueue\<close>: every operation of \<^verbatim>\<open>util/virtqueue.c\<close>. \<open>Virtqueue_Inv\<close>: the invariant (the free chain and
    the buffers in flight split the descriptors) and the functional behaviour of the operations.
    \<open>Virtqueue_Protocol\<close>: an abstract queue of buffers between two sides. \<open>Virtqueue_Refinement\<close>: each
    operation of a driver and a device over one ring is a step of it. \<open>Virtqueue_Trace\<close>: what follows
    for runs: order, progress, no descriptor lost. \<open>Virtqueue_Debug\<close>: the same file built with
    \<^verbatim>\<open>VQUEUE_DEBUG\<close>, the macros of \<^verbatim>\<open>include/virtqueue.h\<close> with their checks, and where the two builds agree.
  \<^item> \<open>Virtqueue_Steps\<close>: the operations of the driver (adding, getting back, freeing, enabling, disabling,
    kicking) and of the device (taking, giving back) as sequences of single accesses to the shared
    ring, with a program counter that holds the locals of each side, and the interleavings of the
    two. \<open>Virtqueue_Interleaving\<close>: each access, wherever the other side is, keeps a relation to a run
    of whole operations. \<open>Virtqueue_Concurrent\<close>: what holds of all interleavings, and a run in which
    the two sides overlap.
  \<^item> \<open>Timeout\<close>, \<open>Fd_Event\<close>, \<open>Udev_Event\<close>: the event sources, each related to an abstract queue or list,
    and what their dispatch keeps.
  \<^item> \<open>Lininoio_Proto\<close>, \<open>Plugin\<close>: the wire format and the table of handlers; the walk over a directory of
    libraries.
  \<^item> \<open>Lininoio_Node\<close>, \<open>Ether\<close>, \<open>Ether_Rx\<close>: nodes, cores and channels (\<^verbatim>\<open>include/lininoio-internal.h\<close>), the allocator, and
    \<^verbatim>\<open>lininoio-ether.c\<close> in two halves. \<open>Ether_Inv\<close>: frames and courses. \<open>Ether_Props\<close>: properties.
  \<^item> \<open>Mcuio\<close>, \<open>Console\<close>: the two protocol handlers. \<open>Ether_Association\<close>: a slave with a console, from
    its request to the remote processor and the reply, stage by stage.
  \<^item> \<open>Etherd\<close>: \<^verbatim>\<open>main.c\<close> from its options to the rounds of its loop, and the states it reaches.
    \<open>Etherd_Init\<close>: what the initialisation leaves, and that data is never delivered. \<open>Etherd_Watch\<close>: that
    the daemon never stops listening. \<open>Etherd_Typing\<close>: that the addresses it keeps are those of
    structures of the right kind. \<open>Etherd_Handlers\<close>: the daemon with a handler.
  \<^item> \<open>Daemonize\<close>: \<^verbatim>\<open>util/daemonize.c\<close> and \<^verbatim>\<open>main\<close> as a whole. \<open>Logger\<close>: \<^verbatim>\<open>util/logger.c\<close>. \<open>Fd_Passing\<close>:
    \<^verbatim>\<open>util/fd-over-socket.c\<close>. \<open>Virtio_Backend\<close>: \<^verbatim>\<open>util/virtio.c\<close>. \<open>R2proc_Test\<close>: the test program, with
    the firmware it has as a static table, and its loop, which never meets undefined behaviour.

  \<^bold>\<open>State and errors.\<close> Operations take the state of their component and return it. Structures
  that the code allocates are values of a map from addresses; the address of an embedded list
  member is an offset from the structure's. Undefined behaviour (an access out of bounds or
  through a pointer that is null or freed, a traversal that does not end, a failed assertion) is
  \<^term>\<open>None\<close>; error codes are results. What the system answers is an input: a list of the next
  results for the allocator and the system calls, or a component of an environment record; the
  calls made are recorded where a property is about them. Integers have their width where the
  code can wrap (ring indices, lengths, milliseconds); other counters are \<^typ>\<open>int\<close> or \<^typ>\<open>nat\<close>.

  \<^bold>\<open>Interfaces.\<close> \<open>list_store\<close> is what the users of \<^verbatim>\<open>list.h\<close> rely on, provided by the list primitives with
  either form of deletion. \<open>walk_dir\<close> is a direction in which a list is walked, forwards by the next
  and backwards by the previous pointers; a traversal is proved once for both. \<open>idx_ring\<close> is a
  free-running producer index over a power of two of slots, provided by the available and by the
  used ring. \<open>fd_dispatch\<close>, \<open>udev_dispatch\<close> and \<open>timeout_dispatch\<close>
  are the contracts of the callbacks of the three event sources: what each callback keeps, the
  dispatch keeps. \<open>transport_invariant\<close> is the contract between the transport and the main loop;
  its sublocales instantiate the three dispatchers, and it is provided by the transport for the
  empty channel tables, for the growing list of events and for the typing of the memory; the test program instantiates the
  dispatchers of descriptors and devices on its own. \<open>proto_handler\<close> is the contract of a
  protocol handler, a sublocale of the one before, provided by the mcuio and console handlers.

  \<^bold>\<open>Loops.\<close> Traversals whose end depends on the shape of memory are \<^theory_text>\<open>partial_function (option)\<close>, so
  that not returning is \<^term>\<open>None\<close>, and the properties say when they return. The other loops recurse on
  a list, on a count or, with a measure, towards a bound; there is no fuel. The reply to an
  association, whose loop does not end by itself, runs into the end of its array.

  \<^bold>\<open>What the lemmas show.\<close> For the virtqueues, full correctness: two sides over one ring refine a
  queue of buffers, in order, without losing a descriptor, and every call that is allowed succeeds;
  there the debug build is the same program, and elsewhere it stops or reports. This carries over to
  the accesses of the two sides in any interleaving: each is equivalent to a run of whole
  operations, taken at the increments of the two indices and at one access of each other one, and
  neither side ever waits for the other.
  For the event sources, their functional behaviour. For the daemon, what holds in every state it
  reaches (among it that its memory is well typed, so that no callback meets an address of nothing),
  and an association from end to end. For the test program, that it runs for ever.
  Several properties show that the code does not do what it is for: data packets are never
  delivered, a second slave makes the daemon hang, cores after a gap get no processor, a device
  that cannot be mapped ends the daemon, the mcuio handler loses its devices, a full ring is not
  noticed.

  \<^bold>\<open>Not modelled.\<close> The text of the log messages and of the help; the string that
  \<^verbatim>\<open>virtio_backend_readable\<close> logs from the pointer it computes. \<^verbatim>\<open>test/udev-events.c\<close> is a copy of \<^verbatim>\<open>util/udev-events.c\<close>. The kernel, udev, the dynamic
  loader and the library of the mcuio daemon are not in the repository and appear as inputs only.
  Interrupts of the main loop by signals are not modelled. The accesses to a shared ring take effect
  in the order of the program on both sides, which is what the \<^verbatim>\<open>atomic_thread_fence\<close> calls are for;
  that a processor or the compiler reorders accesses between two fences, or that one access is torn,
  is not modelled, and neither is \<^verbatim>\<open>virtqueue_add_single_buffer\<close> access by access. The calls of one side
  are taken to be one after the other, since the library has no lock.
\<close>

end
